(* ===== verification/Prelude.thy ===== *)
theory Prelude
  imports Main "HOL-Library.Word" "HOL-Library.Multiset"
begin

text \<open>
  Shared vocabulary of the development: run-time panics of Go as values, 64-bit integers with
  their wrap-around, Go maps as association lists, the contract of the third-party sorting
  routine, and the generic list lemmas the components use.
\<close>

named_theorems go_defs \<open>unfolding rules for the Go runtime operations\<close>
named_theorems int64_simps \<open>evaluation of 64-bit arithmetic inside its range\<close>

section \<open>Outcomes: a value or a run-time panic\<close>

datatype 'a outcome = Ret 'a | Panic

primrec obind :: "'a outcome \<Rightarrow> ('a \<Rightarrow> 'b outcome) \<Rightarrow> 'b outcome" where
  "obind (Ret a) f = f a"
| "obind Panic f = Panic"

lemma obind_eq_Ret: "obind m f = Ret b \<longleftrightarrow> (\<exists>a. m = Ret a \<and> f a = Ret b)"
  by (cases m) auto

lemma obind_assoc: "obind (obind m f) g = obind m (\<lambda>a. obind (f a) g)"
  by (cases m) auto

section \<open>Signed 64-bit integers\<close>

text \<open>
  A Go \<open>int64\<close> (and \<open>int\<close> on the supported platforms) is an \<open>int\<close> in
  \<open>[-2^63, 2^63)\<close>; the arithmetic operators reduce their result into that range.
\<close>

definition maxInt64 :: int where
  "maxInt64 = 9223372036854775807"

definition wrap64 :: "int \<Rightarrow> int" where
  "wrap64 x = (x + 9223372036854775808) mod 18446744073709551616 - 9223372036854775808"

definition add64 :: "int \<Rightarrow> int \<Rightarrow> int" where
  "add64 a b = wrap64 (a + b)"

definition sub64 :: "int \<Rightarrow> int \<Rightarrow> int" where
  "sub64 a b = wrap64 (a - b)"

lemma wrap64_id: "- maxInt64 - 1 \<le> x \<Longrightarrow> x \<le> maxInt64 \<Longrightarrow> wrap64 x = x"
  by (simp add: wrap64_def maxInt64_def)

lemma wrap64_range: "- maxInt64 - 1 \<le> wrap64 x" "wrap64 x \<le> maxInt64"
  by (simp_all add: wrap64_def maxInt64_def)

lemma wrap64_idem [simp]: "wrap64 (wrap64 x) = wrap64 x"
  using wrap64_range by (intro wrap64_id)

lemma add64_id [int64_simps]:
  "- maxInt64 - 1 \<le> a + b \<Longrightarrow> a + b \<le> maxInt64 \<Longrightarrow> add64 a b = a + b"
  by (simp add: add64_def wrap64_id)

lemma sub64_id [int64_simps]:
  "- maxInt64 - 1 \<le> a - b \<Longrightarrow> a - b \<le> maxInt64 \<Longrightarrow> sub64 a b = a - b"
  by (simp add: sub64_def wrap64_id)

lemma add64_overflow: "add64 maxInt64 1 = - maxInt64 - 1"
  by (simp add: add64_def wrap64_def maxInt64_def)

section \<open>Go maps\<close>

text \<open>
  A Go map is an association list with distinct keys. Iteration visits the entries in list
  order; Go leaves the order open, so the properties speak of lookups only.
\<close>

type_synonym ('k, 'v) gomap = "('k \<times> 'v) list"

fun mput :: "'k \<Rightarrow> 'v \<Rightarrow> ('k, 'v) gomap \<Rightarrow> ('k, 'v) gomap" where
  "mput k v [] = [(k, v)]"
| "mput k v ((k', v') # m) = (if k = k' then (k, v) # m else (k', v') # mput k v m)"

fun mdel :: "'k \<Rightarrow> ('k, 'v) gomap \<Rightarrow> ('k, 'v) gomap" where
  "mdel k [] = []"
| "mdel k ((k', v') # m) = (if k = k' then mdel k m else (k', v') # mdel k m)"

definition wf_map :: "('k, 'v) gomap \<Rightarrow> bool" where
  "wf_map m \<longleftrightarrow> distinct (map fst m)"

text \<open>What the code relies on when it uses a map: the contract of the three operations.\<close>

locale go_map =
  fixes empty :: 'm
    and get :: "'m \<Rightarrow> 'k \<Rightarrow> 'v option"
    and put :: "'k \<Rightarrow> 'v \<Rightarrow> 'm \<Rightarrow> 'm"
    and del :: "'k \<Rightarrow> 'm \<Rightarrow> 'm"
    and inv :: "'m \<Rightarrow> bool"
  assumes get_empty: "get empty k = None"
    and get_put: "get (put k v m) k' = (if k' = k then Some v else get m k')"
    and get_del: "get (del k m) k' = (if k' = k then None else get m k')"
    and inv_empty: "inv empty"
    and inv_put: "inv m \<Longrightarrow> inv (put k v m)"
    and inv_del: "inv m \<Longrightarrow> inv (del k m)"
begin

lemma put_put_same: "get (put k v (put k w m)) = get (put k v m)"
  by (rule ext) (simp add: get_put)

lemma put_commute: "k \<noteq> l \<Longrightarrow> get (put k v (put l w m)) = get (put l w (put k v m))"
  by (rule ext) (simp add: get_put)

lemma del_put_same: "get (del k (put k v m)) = get (del k m)"
  by (rule ext) (simp add: get_put get_del)

lemma fold_put_get:
  "k \<notin> fst ` set kvs \<Longrightarrow> get (fold (\<lambda>(k, v). put k v) kvs m) k = get m k"
  by (induction kvs arbitrary: m) (auto simp: get_put)

lemma inv_fold_put: "inv m \<Longrightarrow> inv (fold (\<lambda>(k, v). put k v) kvs m)"
  by (induction kvs arbitrary: m) (auto intro: inv_put)

end

lemma map_of_mput [simp]: "map_of (mput k v m) k' = (if k' = k then Some v else map_of m k')"
  by (induction m) auto

lemma map_of_mdel [simp]: "map_of (mdel k m) k' = (if k' = k then None else map_of m k')"
  by (induction m) auto

lemma fst_set_mput: "fst ` set (mput k v m) = insert k (fst ` set m)"
  by (induction k v m rule: mput.induct) (simp_all add: insert_commute)

lemma fst_set_mdel: "fst ` set (mdel k m) = fst ` set m - {k}"
proof (induction m)
  case (Cons p m)
  then show ?case by (cases p) (simp add: insert_Diff_if)
qed simp

lemma wf_map_mput [simp]: "wf_map m \<Longrightarrow> wf_map (mput k v m)"
  by (induction k v m rule: mput.induct) (simp_all add: wf_map_def fst_set_mput)

lemma wf_map_mdel [simp]: "wf_map m \<Longrightarrow> wf_map (mdel k m)"
  by (induction k m rule: mdel.induct) (simp_all add: wf_map_def fst_set_mdel)

interpretation gomap: go_map "[]" map_of mput mdel wf_map
  by unfold_locales (simp_all, simp add: wf_map_def)

lemma wf_map_Nil [simp]: "wf_map []"
  by (rule gomap.inv_empty)

lemma wf_map_Cons: "wf_map ((k, v) # es) \<longleftrightarrow> map_of es k = None \<and> wf_map es"
  by (auto simp: wf_map_def map_of_eq_None_iff)

lemma map_of_fold_mput:
  "map_of (fold (\<lambda>k. mput k (f k)) ks m) k = (if k \<in> set ks then Some (f k) else map_of m k)"
  by (induction ks arbitrary: m) (auto simp: map_of_mput)

lemma wf_map_fold_mput: "wf_map m \<Longrightarrow> wf_map (fold (\<lambda>k. mput k (f k)) ks m)"
  by (induction ks arbitrary: m) (auto simp: wf_map_mput)

lemma wf_map_mem: "wf_map m \<Longrightarrow> map_of m k = Some v \<longleftrightarrow> (k, v) \<in> set m"
  by (simp add: wf_map_def)

lemma wf_map_card: "wf_map m \<Longrightarrow> card (fst ` set m) = length m"
  unfolding wf_map_def by (drule distinct_card) simp

lemma map_of_neq_None: "map_of m k \<noteq> None \<longleftrightarrow> k \<in> fst ` set m"
  by (simp add: map_of_eq_None_iff)

section \<open>The sorting routine of golang.org/x/exp/slices\<close>

text \<open>
  \<open>slices.SortFunc\<close> is third-party code: a parameter of every definition that sorts. Its
  documentation promises a permutation, and an ordered one when \<open>less\<close> is a strict weak
  ordering.
\<close>

type_synonym 'a sorter = "('a \<Rightarrow> 'a \<Rightarrow> bool) \<Rightarrow> 'a list \<Rightarrow> 'a list"

definition strict_weak :: "('a \<Rightarrow> 'a \<Rightarrow> bool) \<Rightarrow> bool" where
  "strict_weak lt \<longleftrightarrow> (\<forall>a. \<not> lt a a) \<and> (\<forall>a b c. lt a b \<and> lt b c \<longrightarrow> lt a c) \<and>
     (\<forall>a b c. \<not> lt a b \<and> \<not> lt b c \<longrightarrow> \<not> lt a c)"

definition sort_func :: "'a sorter \<Rightarrow> bool" where
  "sort_func sf \<longleftrightarrow> (\<forall>lt xs. mset (sf lt xs) = mset xs) \<and>
     (\<forall>lt xs. strict_weak lt \<longrightarrow> sorted_wrt (\<lambda>a b. \<not> lt b a) (sf lt xs))"

locale sorting =
  fixes sf :: "'a sorter"
  assumes perm: "mset (sf lt xs) = mset xs"
    and ordered: "strict_weak lt \<Longrightarrow> sorted_wrt (\<lambda>a b. \<not> lt b a) (sf lt xs)"
begin

lemma set_sf: "set (sf lt xs) = set xs"
  by (rule mset_eq_setD) (rule perm)

lemma length_sf: "length (sf lt xs) = length xs"
  by (rule mset_eq_length) (rule perm)

lemma distinct_sf: "distinct (sf lt xs) = distinct xs"
  using perm [of lt xs] by (rule mset_eq_imp_distinct_iff)

lemma hd_sf_least:
  assumes "strict_weak lt" "x \<in> set xs" shows "\<not> lt x (hd (sf lt xs))"
proof -
  have "x \<in> set (sf lt xs)" using assms(2) set_sf by simp
  then obtain y ys where ys: "sf lt xs = y # ys" by (cases "sf lt xs") auto
  have "\<not> lt y y" using assms(1) by (simp add: strict_weak_def)
  with ordered [OF assms(1), of xs] \<open>x \<in> set (sf lt xs)\<close> ys show ?thesis by auto
qed

lemma sf_sorted_key:
  fixes f :: "'a \<Rightarrow> 'b :: linorder"
  assumes "\<And>a b. lt a b \<longleftrightarrow> f a < f b" shows "sorted (map f (sf lt xs))"
proof -
  have "strict_weak lt" unfolding strict_weak_def assms by auto
  from ordered [OF this, of xs] show ?thesis by (simp add: sorted_map assms not_less)
qed

end

lemma sort_func_sorting: "sort_func sf \<longleftrightarrow> sorting sf"
  by (auto simp: sort_func_def sorting_def)

text \<open>
  Insertion sort as the library runs it on short slices: each element moves left past the
  elements it is less than. The prefix that is already sorted is kept reversed.
\<close>

fun sift :: "('a \<Rightarrow> 'a \<Rightarrow> bool) \<Rightarrow> 'a \<Rightarrow> 'a list \<Rightarrow> 'a list" where
  "sift lt x [] = [x]"
| "sift lt x (y # ys) = (if lt x y then y # sift lt x ys else x # y # ys)"

definition insertion_sort :: "'a sorter" where
  "insertion_sort lt xs = rev (fold (sift lt) xs [])"

lemma mset_sift [simp]: "mset (sift lt x ys) = add_mset x (mset ys)"
  by (induction ys) auto

lemma set_sift [simp]: "set (sift lt x ys) = insert x (set ys)"
  by (induction ys) auto

lemma mset_fold_sift: "mset (fold (sift lt) xs acc) = mset xs + mset acc"
  by (induction xs arbitrary: acc) auto

lemma sift_ordered:
  assumes "strict_weak lt" "sorted_wrt (\<lambda>a b. \<not> lt a b) ys"
  shows "sorted_wrt (\<lambda>a b. \<not> lt a b) (sift lt x ys)"
  using assms(2)
proof (induction ys)
  case (Cons y ys)
  show ?case
  proof (cases "lt x y")
    case True
    with assms(1) have "\<not> lt y x" unfolding strict_weak_def by blast
    with True Cons show ?thesis by simp
  next
    case False
    have "\<not> lt x z" if "\<not> lt y z" for z using assms(1) False that unfolding strict_weak_def by blast
    with False Cons show ?thesis by simp
  qed
qed simp

lemma fold_sift_ordered:
  "strict_weak lt \<Longrightarrow> sorted_wrt (\<lambda>a b. \<not> lt a b) acc \<Longrightarrow> sorted_wrt (\<lambda>a b. \<not> lt a b) (fold (sift lt) xs acc)"
  by (induction xs arbitrary: acc) (auto intro: sift_ordered)

interpretation isort: sorting insertion_sort
  by unfold_locales
    (auto simp: insertion_sort_def mset_fold_sift sorted_wrt_rev intro: fold_sift_ordered)

lemma sort_func_insertion_sort: "sort_func insertion_sort"
  unfolding sort_func_sorting by (rule isort.sorting_axioms)

end
