(* ===== verification/Intervals.thy ===== *)
theory Intervals
  imports Prelude
begin

text \<open>
  The interval lists of \<open>go/mysql/mysql56_gtid_set.go\<close>: what the methods of
  \<open>Mysql56GTIDSet\<close> do with the intervals of one server. Each loop of the source is one
  function here; a slice that is read from the front is a list, an index into it is the
  remaining suffix, and the slice that is being built is the accumulator \<open>acc\<close>, whose last
  element is the one the code addresses as \<open>newIntervals[count-1]\<close>. Sequence numbers are
  \<open>int64\<close>, so \<open>+1\<close> and \<open>-1\<close> are the wrapping operations of the prelude.
  The abstraction function is the set of sequence numbers that an interval list denotes.
\<close>

section \<open>Intervals and the loops over them\<close>

record interval =
  istart :: int
  iend :: int

definition iv_contains :: "interval \<Rightarrow> interval \<Rightarrow> bool" where
  "iv_contains iv other \<longleftrightarrow> istart iv \<le> istart other \<and> iend other \<le> iend iv"

text \<open>\<open>ContainsGTID\<close>: the loop over \<open>set[gtid56.Server]\<close>.\<close>

fun contains_seq :: "interval list \<Rightarrow> int \<Rightarrow> bool" where
  "contains_seq [] q = False"
| "contains_seq (iv # ivs) q =
     (if istart iv > q then False
      else if q \<le> iend iv then True
      else contains_seq ivs q)"

text \<open>\<open>Contains\<close>: the inner \<open>for\<close> moves the index to an interval that covers \<open>iv\<close>.\<close>

fun skip_to :: "interval list \<Rightarrow> interval \<Rightarrow> interval list option" where
  "skip_to [] iv = None"
| "skip_to (x # xs) iv = (if iv_contains x iv then Some (x # xs) else skip_to xs iv)"

fun covers :: "interval list \<Rightarrow> interval list \<Rightarrow> bool" where
  "covers ivs [] = True"
| "covers ivs (iv # others) =
     (case skip_to ivs iv of None \<Rightarrow> False | Some ivs' \<Rightarrow> covers ivs' others)"

text \<open>\<open>Equal\<close>: element by element comparison after the length check.\<close>

fun eq_ivs :: "interval list \<Rightarrow> interval list \<Rightarrow> bool" where
  "eq_ivs [] [] = True"
| "eq_ivs (x # xs) (y # ys) = (if x \<noteq> y then False else eq_ivs xs ys)"
| "eq_ivs _ _ = False"

text \<open>\<open>AddGTID\<close>: one round of the loop that looks for the right place.\<close>

definition add_place :: "int \<Rightarrow> bool \<Rightarrow> interval list \<Rightarrow> interval \<Rightarrow> bool \<times> interval list \<times> interval" where
  "add_place q added acc iv =
     (if added then (added, acc, iv)
      else if q = sub64 (istart iv) 1 then (True, acc, iv\<lparr>istart := q\<rparr>)
      else if q = add64 (iend iv) 1 then (True, acc, iv\<lparr>iend := q\<rparr>)
      else if q < sub64 (istart iv) 1 then (True, acc @ [\<lparr>istart = q, iend = q\<rparr>], iv)
      else (added, acc, iv))"

definition add_merge :: "interval list \<Rightarrow> interval \<Rightarrow> interval list" where
  "add_merge acc iv =
     (if acc \<noteq> [] \<and> istart iv = add64 (iend (last acc)) 1
      then butlast acc @ [(last acc)\<lparr>iend := iend iv\<rparr>]
      else acc @ [iv])"

fun add_loop :: "int \<Rightarrow> bool \<Rightarrow> interval list \<Rightarrow> interval list \<Rightarrow> bool \<times> interval list" where
  "add_loop q added acc [] = (added, acc)"
| "add_loop q added acc (iv # ivs) =
     (case add_place q added acc iv of
        (added', acc', iv') \<Rightarrow> add_loop q added' (add_merge acc' iv') ivs)"

text \<open>\<open>Intersect\<close>: the two-index loop.\<close>

fun intersect_loop :: "interval list \<Rightarrow> interval list \<Rightarrow> interval list" where
  "intersect_loop [] ys = []"
| "intersect_loop xs [] = []"
| "intersect_loop (x # xs) (y # ys) =
     (if istart x > iend y then intersect_loop (x # xs) ys
      else if iend x < istart y then intersect_loop xs (y # ys)
      else \<lparr>istart = max (istart x) (istart y), iend = min (iend x) (iend y)\<rparr> #
        (if iend x > iend y then intersect_loop (x # xs) ys else intersect_loop xs (y # ys)))"

text \<open>\<open>popInterval\<close> and the loop of \<open>Union\<close>.\<close>

fun popInterval :: "interval list \<Rightarrow> interval list \<Rightarrow> (interval \<times> interval list \<times> interval list) option" where
  "popInterval [] [] = None"
| "popInterval (x # s1) [] = Some (x, s1, [])"
| "popInterval [] (y # s2) = Some (y, [], s2)"
| "popInterval (x # s1) (y # s2) =
     (if istart x \<le> istart y then Some (x, s1, y # s2) else Some (y, x # s1, s2))"

definition union_push :: "interval list \<Rightarrow> interval \<Rightarrow> interval list" where
  "union_push acc nx =
     (if acc = [] then [nx]
      else if iend nx \<le> iend (last acc) then acc
      else if istart nx > add64 (iend (last acc)) 1 then acc @ [nx]
      else butlast acc @ [(last acc)\<lparr>iend := iend nx\<rparr>])"

function union_loop :: "interval list \<Rightarrow> interval list \<Rightarrow> interval list \<Rightarrow> interval list" where
  "union_loop acc s1 s2 =
     (case popInterval s1 s2 of
        None \<Rightarrow> acc
      | Some (nx, s1', s2') \<Rightarrow> union_loop (union_push acc nx) s1' s2')"
  by pat_completeness auto

lemma popInterval_size:
  "popInterval s1 s2 = Some (nx, s1', s2') \<Longrightarrow> length s1 + length s2 = Suc (length s1' + length s2')"
  by (induction s1 s2 rule: popInterval.induct) (auto split: if_splits)

termination union_loop
  by (relation "measure (\<lambda>(acc, s1, s2). length s1 + length s2)")
    (auto dest: popInterval_size)

declare union_loop.simps [simp del]

text \<open>
  \<open>Difference\<close>: \<open>diff_loop\<close> is \<open>diffLoop\<close>; \<open>acc\<close> is \<open>diffIntervals\<close>, \<open>rest\<close> and
  \<open>others\<close> are what \<open>advance\<close> and \<open>advanceOther\<close> still have. Reading the last element
  of an empty \<open>diffIntervals\<close> and the \<open>default\<close> case are panics.
\<close>

function diff_loop :: "interval list \<Rightarrow> interval list \<Rightarrow> interval \<Rightarrow> interval list \<Rightarrow> (interval list \<times> interval list) outcome" where
  "diff_loop acc rest o' others =
     (if acc = [] then Panic else
      let iv = last acc in
      if iend iv < istart o' then
        (case rest of [] \<Rightarrow> Ret (acc, [])
         | x # rest' \<Rightarrow> diff_loop (acc @ [x]) rest' o' others)
      else if istart iv > iend o' then
        (case others of [] \<Rightarrow> Ret (acc, rest)
         | p # others' \<Rightarrow> diff_loop acc rest p others')
      else if istart iv \<ge> istart o' \<and> iend iv \<le> iend o' then
        (case rest of [] \<Rightarrow> Ret (butlast acc, [])
         | x # rest' \<Rightarrow> diff_loop (butlast acc @ [x]) rest' o' others)
      else if istart iv < istart o' \<and> iend iv \<ge> istart o' \<and> iend iv \<le> iend o' then
        (let acc' = butlast acc @ [iv\<lparr>iend := sub64 (istart o') 1\<rparr>] in
         case rest of [] \<Rightarrow> Ret (acc', [])
         | x # rest' \<Rightarrow> diff_loop (acc' @ [x]) rest' o' others)
      else if istart iv \<ge> istart o' \<and> istart iv \<le> iend o' \<and> iend iv > iend o' then
        (let acc' = butlast acc @ [iv\<lparr>istart := add64 (iend o') 1\<rparr>] in
         case others of [] \<Rightarrow> Ret (acc', rest)
         | p # others' \<Rightarrow> diff_loop acc' rest p others')
      else if istart iv < istart o' \<and> iend iv > iend o' then
        (let acc' = butlast acc @ [iv\<lparr>iend := sub64 (istart o') 1\<rparr>]
                      @ [\<lparr>istart = add64 (iend o') 1, iend = iend iv\<rparr>] in
         case others of [] \<Rightarrow> Ret (acc', rest)
         | p # others' \<Rightarrow> diff_loop acc' rest p others')
      else Panic)"
  by pat_completeness auto

termination diff_loop
  by (relation "measure (\<lambda>(acc, rest, o', others). length rest + length others)") auto

declare diff_loop.simps [simp del]

text \<open>\<open>TrimGTIDSet\<close>: the loop over the other set's intervals, up to \<open>lastInterval.end\<close>.\<close>

fun trim_loop :: "int \<Rightarrow> interval list \<Rightarrow> interval list" where
  "trim_loop lim [] = []"
| "trim_loop lim (iv # ivs) =
     (if iend iv < lim then iv # trim_loop lim ivs
      else if istart iv \<le> lim then iv\<lparr>iend := min (iend iv) lim\<rparr> # trim_loop lim ivs
      else [])"

text \<open>
  \<open>Merge\<close>: one round of the inner loop, \<open>None\<close> when its condition fails. \<open>rest\<close> is
  \<open>intervals[lastIntervalsIndex+1:]\<close>, \<open>others\<close> is \<open>otherIntervals[otherIntervalsIndex:]\<close>.
\<close>

fun touches :: "interval \<Rightarrow> interval list \<Rightarrow> bool" where
  "touches tmp [] = False"
| "touches tmp (x # _) = (add64 (iend tmp) 1 \<ge> istart x)"

definition merge_step :: "interval \<Rightarrow> interval list \<Rightarrow> interval list \<Rightarrow> (interval \<times> interval list \<times> interval list) option" where
  "merge_step tmp rest others =
     (if touches tmp rest \<or> touches tmp others then
        (let (tmp1, rest1) =
               (if touches tmp rest
                then (tmp\<lparr>iend := max (iend tmp) (iend (hd rest))\<rparr>, tl rest) else (tmp, rest));
             (tmp2, others2) =
               (if touches tmp1 others
                then (tmp1\<lparr>iend := max (iend tmp1) (iend (hd others)),
                           istart := min (istart tmp1) (istart (hd others))\<rparr>, tl others)
                else (tmp1, others))
         in Some (tmp2, rest1, others2))
      else None)"

lemma touches_nonempty: "touches tmp xs \<Longrightarrow> xs \<noteq> []"
  by (cases xs) auto

lemma merge_step_length:
  assumes "merge_step tmp rest others = Some (tmp', rest', others')"
  shows "length rest' \<le> length rest" and "length rest' + length others' < length rest + length others"
  using assms
  by (auto simp: merge_step_def Let_def neq_Nil_conv dest!: touches_nonempty
      split: if_splits prod.splits)

function merge_inner :: "interval \<Rightarrow> interval list \<Rightarrow> interval list \<Rightarrow> interval \<times> interval list \<times> interval list" where
  "merge_inner tmp rest others =
     (case merge_step tmp rest others of
        None \<Rightarrow> (tmp, rest, others)
      | Some (tmp', rest', others') \<Rightarrow> merge_inner tmp' rest' others')"
  by pat_completeness auto

termination merge_inner
  by (relation "measure (\<lambda>(tmp, rest, others). length rest + length others)")
    (auto dest: merge_step_length)

declare merge_inner.simps [simp del]

lemma merge_inner_length: "length (fst (snd (merge_inner tmp rest others))) \<le> length rest"
proof (induction tmp rest others rule: merge_inner.induct)
  case (1 tmp rest others)
  show ?case
  proof (cases "merge_step tmp rest others")
    case None
    then show ?thesis by (simp add: merge_inner.simps [of tmp rest others])
  next
    case (Some st)
    obtain t r os where st: "st = (t, r, os)" by (cases st)
    with Some "1.IH" have "length (fst (snd (merge_inner t r os))) \<le> length r" by simp
    with Some st merge_step_length(1) [of tmp rest others t r os] show ?thesis
      by (simp add: merge_inner.simps [of tmp rest others])
  qed
qed

function merge_loop :: "interval list \<Rightarrow> interval list \<Rightarrow> interval list" where
  "merge_loop [] others = []"
| "merge_loop (x # rest) others =
     (let m = merge_inner x rest others in fst m # merge_loop (fst (snd m)) (snd (snd m)))"
  by pat_completeness auto

termination merge_loop
  by (relation "measure (\<lambda>(xs, others). length xs)")
    (auto simp: less_Suc_eq_le merge_inner_length split_beta)

section \<open>What an interval list denotes, and its normal form\<close>

definition iv_set :: "interval \<Rightarrow> int set" where
  "iv_set iv = {istart iv..iend iv}"

definition ivs_set :: "interval list \<Rightarrow> int set" where
  "ivs_set ivs = (\<Union>iv\<in>set ivs. iv_set iv)"

definition wf_iv :: "interval \<Rightarrow> bool" where
  "wf_iv iv \<longleftrightarrow> 1 \<le> istart iv \<and> istart iv \<le> iend iv \<and> iend iv < maxInt64"

text \<open>
  The form the server prints and the set operations keep: intervals are non-empty, in
  order, and neither overlap nor touch.
\<close>

definition normal :: "interval list \<Rightarrow> bool" where
  "normal ivs \<longleftrightarrow> list_all wf_iv ivs \<and> sorted_wrt (\<lambda>a b. iend a + 1 < istart b) ivs"

lemma ivs_set_simps [simp]:
  "ivs_set [] = {}"
  "ivs_set (iv # ivs) = iv_set iv \<union> ivs_set ivs"
  "ivs_set (xs @ ys) = ivs_set xs \<union> ivs_set ys"
  by (auto simp: ivs_set_def)

lemma mem_ivs_set: "q \<in> ivs_set ivs \<longleftrightarrow> (\<exists>iv\<in>set ivs. istart iv \<le> q \<and> q \<le> iend iv)"
  by (auto simp: ivs_set_def iv_set_def)

lemma normal_Nil [simp]: "normal []"
  by (simp add: normal_def)

lemma normal_Cons [simp]:
  "normal (iv # ivs) \<longleftrightarrow> wf_iv iv \<and> (\<forall>b\<in>set ivs. iend iv + 1 < istart b) \<and> normal ivs"
  by (auto simp: normal_def)

lemma normal_append [simp]:
  "normal (xs @ ys) \<longleftrightarrow>
     normal xs \<and> normal ys \<and> (\<forall>a\<in>set xs. \<forall>b\<in>set ys. iend a + 1 < istart b)"
  by (auto simp: normal_def sorted_wrt_append)

lemma normal_wf: "normal ivs \<Longrightarrow> iv \<in> set ivs \<Longrightarrow> wf_iv iv"
  by (auto simp: normal_def list_all_iff)

lemma add64_end [simp]: "wf_iv iv \<Longrightarrow> add64 (iend iv) 1 = iend iv + 1"
  by (rule add64_id) (auto simp: wf_iv_def maxInt64_def)

lemma sub64_start [simp]: "wf_iv iv \<Longrightarrow> sub64 (istart iv) 1 = istart iv - 1"
  by (rule sub64_id) (auto simp: wf_iv_def maxInt64_def)

lemma wf_iv_nonempty: "wf_iv iv \<Longrightarrow> istart iv \<in> iv_set iv" "wf_iv iv \<Longrightarrow> iend iv \<in> iv_set iv"
  by (auto simp: wf_iv_def iv_set_def)

section \<open>Membership and inclusion\<close>

text \<open>\<open>ContainsGTID\<close> only needs the intervals to be in order of their starts.\<close>

lemma contains_seq_iff:
  "sorted (map istart ivs) \<Longrightarrow> contains_seq ivs q \<longleftrightarrow> q \<in> ivs_set ivs"
  by (induction ivs) (auto simp: mem_ivs_set iv_set_def)

lemma normal_sorted: "normal ivs \<Longrightarrow> sorted (map istart ivs)"
  by (induction ivs) (fastforce simp: wf_iv_def)+

lemma skip_to_None: "skip_to xs iv = None \<longleftrightarrow> (\<forall>x\<in>set xs. \<not> iv_contains x iv)"
  by (induction xs) auto

lemma skip_to_SomeD:
  "skip_to xs iv = Some r \<Longrightarrow>
     \<exists>pre x r'. xs = pre @ r \<and> r = x # r' \<and> iv_contains x iv \<and> (\<forall>p\<in>set pre. \<not> iv_contains p iv)"
proof (induction xs)
  case (Cons a xs)
  show ?case
  proof (cases "iv_contains a iv")
    case True
    with Cons.prems show ?thesis by (intro exI [of _ "[]"]) auto
  next
    case False
    with Cons obtain pre x r' where "xs = pre @ r" "r = x # r'" "iv_contains x iv"
      "\<forall>p\<in>set pre. \<not> iv_contains p iv" by auto
    with False show ?thesis by (intro exI [of _ "a # pre"]) auto
  qed
qed simp

lemma iv_contains_subset: "iv_contains a b \<Longrightarrow> iv_set b \<subseteq> iv_set a"
  by (auto simp: iv_contains_def iv_set_def)

text \<open>Soundness of \<open>Contains\<close> needs no order at all.\<close>

lemma covers_sound: "covers ivs others \<Longrightarrow> ivs_set others \<subseteq> ivs_set ivs"
proof (induction others arbitrary: ivs)
  case (Cons iv others)
  then obtain r where r: "skip_to ivs iv = Some r" "covers r others"
    by (auto split: option.splits)
  from skip_to_SomeD [OF r(1)] obtain pre x r' where
    "ivs = pre @ r" "r = x # r'" "iv_contains x iv" by blast
  with Cons.IH [OF r(2)] iv_contains_subset [of x iv] show ?case by auto
qed simp

text \<open>An interval inside a normal list lies inside one of its intervals.\<close>

lemma normal_interval_in_one:
  assumes "normal ivs" and "a \<le> b" and "{a..b} \<subseteq> ivs_set ivs"
  shows "\<exists>iv\<in>set ivs. istart iv \<le> a \<and> b \<le> iend iv"
  using assms
proof (induction ivs)
  case (Cons iv ivs)
  show ?case
  proof (cases "a \<le> iend iv \<and> istart iv \<le> a")
    case True
    have "b \<le> iend iv"
    proof (rule ccontr)
      assume "\<not> b \<le> iend iv"
      with True have "iend iv + 1 \<in> {a..b}" by auto
      with Cons.prems(3) have "iend iv + 1 \<in> iv_set iv \<union> ivs_set ivs" by auto
      with Cons.prems(1) show False by (fastforce simp: iv_set_def mem_ivs_set)
    qed
    with True show ?thesis by auto
  next
    case False
    have "a \<in> ivs_set (iv # ivs)" using Cons.prems(2,3) by auto
    with False have a: "a \<in> ivs_set ivs" by (auto simp: iv_set_def)
    with Cons.prems(1) have "iend iv < a" by (fastforce simp: mem_ivs_set)
    with Cons.prems(3) have "{a..b} \<subseteq> ivs_set ivs" by (force simp: iv_set_def)
    with Cons show ?thesis by auto
  qed
qed simp

lemma covers_complete:
  assumes "normal ivs" and "normal others" and "ivs_set others \<subseteq> ivs_set ivs"
  shows "covers ivs others"
  using assms
proof (induction others arbitrary: ivs)
  case (Cons iv others)
  from Cons.prems(2,3) normal_interval_in_one [OF Cons.prems(1), of "istart iv" "iend iv"]
  obtain x where x: "x \<in> set ivs" "iv_contains x iv"
    by (auto simp: iv_contains_def iv_set_def wf_iv_def)
  then obtain r where r: "skip_to ivs iv = Some r"
    by (metis not_Some_eq skip_to_None)
  from skip_to_SomeD [OF r] obtain pre y r' where
    ivs: "ivs = pre @ r" and y: "r = y # r'" "iv_contains y iv" by blast
  have "ivs_set others \<subseteq> ivs_set r"
  proof
    fix q assume q: "q \<in> ivs_set others"
    with Cons.prems(2) have "iend iv < q" by (fastforce simp: mem_ivs_set)
    with y have "istart y < q" using Cons.prems(2) by (auto simp: iv_contains_def wf_iv_def)
    with Cons.prems(1) ivs y have "q \<notin> ivs_set pre" by (fastforce simp: mem_ivs_set)
    with Cons.prems(3) q ivs show "q \<in> ivs_set r" by auto
  qed
  with Cons.IH [of r] Cons.prems(1,2) ivs r show ?case by auto
qed simp

lemma covers_iff:
  "normal ivs \<Longrightarrow> normal others \<Longrightarrow> covers ivs others \<longleftrightarrow> ivs_set others \<subseteq> ivs_set ivs"
  using covers_sound covers_complete by blast

text \<open>A normal list is determined by what it denotes, so \<open>Equal\<close> compares sets.\<close>

lemma normal_tail_after: "normal (x # xs) \<Longrightarrow> q \<in> ivs_set xs \<Longrightarrow> iend x + 1 < q"
  by (force simp: mem_ivs_set)

lemma normal_least:
  assumes "normal (x # xs)"
  shows "istart x \<in> ivs_set (x # xs)" and "q \<in> ivs_set (x # xs) \<Longrightarrow> istart x \<le> q"
  using assms normal_tail_after [OF assms, of q]
  by (auto simp: wf_iv_nonempty) (auto simp: iv_set_def wf_iv_def)

lemma normal_first_end:
  assumes "normal (x # xs)" "normal (y # ys)" "ivs_set (x # xs) = ivs_set (y # ys)"
  shows "istart x = istart y" and "iend x \<le> iend y"
proof -
  from normal_least assms show s: "istart x = istart y" by (metis order_antisym)
  have "{istart x..iend x} \<subseteq> ivs_set (y # ys)"
    using assms(3) by (auto simp: iv_set_def)
  with assms normal_interval_in_one [of "y # ys" "istart x" "iend x"] obtain z where
    z: "z \<in> set (y # ys)" "istart z \<le> istart x" "iend x \<le> iend z" by (auto simp: wf_iv_def)
  with assms(2) s have "z = y" by (fastforce simp: wf_iv_def)
  with z show "iend x \<le> iend y" by simp
qed

lemma normal_unique:
  assumes "normal xs" "normal ys" "ivs_set xs = ivs_set ys" shows "xs = ys"
  using assms
proof (induction xs arbitrary: ys)
  case Nil
  then show ?case by (cases ys) (auto dest: wf_iv_nonempty)
next
  case (Cons x xs)
  from Cons.prems obtain y ys' where ys: "ys = y # ys'"
    by (cases ys) (auto dest: wf_iv_nonempty)
  have n: "normal (x # xs)" "normal (y # ys')" "ivs_set (x # xs) = ivs_set (y # ys')"
    using Cons.prems ys by simp_all
  from normal_first_end [OF n] normal_first_end [OF n(2,1) n(3) [symmetric]]
  have xy: "x = y" by simp
  have tail: "q \<in> ivs_set zs \<longleftrightarrow> q \<in> ivs_set (z # zs) \<and> iend z < q" if "normal (z # zs)" for q z zs
    using that by (fastforce simp: mem_ivs_set iv_set_def)
  have "ivs_set xs = ivs_set ys'"
    using tail [OF n(1)] tail [OF n(2)] n(3) xy by blast
  with Cons.IH [of ys'] n xy ys show ?case by simp
qed

lemma eq_ivs_iff: "eq_ivs xs ys \<longleftrightarrow> xs = ys"
  by (induction xs ys rule: eq_ivs.induct) auto

section \<open>Intersect\<close>

lemma intersect_loop_set:
  "normal xs \<Longrightarrow> normal ys \<Longrightarrow> ivs_set (intersect_loop xs ys) = ivs_set xs \<inter> ivs_set ys"
proof (induction xs ys rule: intersect_loop.induct)
  case (3 x xs y ys)
  note lx = normal_least(2) [OF "3.prems"(1)] and ly = normal_least(2) [OF "3.prems"(2)]
  note ax = normal_tail_after [OF "3.prems"(1)] and ay = normal_tail_after [OF "3.prems"(2)]
  consider (disj1) "istart x > iend y" | (disj2) "\<not> istart x > iend y" "iend x < istart y"
    | (over1) "\<not> istart x > iend y" "\<not> iend x < istart y" "iend x > iend y"
    | (over2) "\<not> istart x > iend y" "\<not> iend x < istart y" "\<not> iend x > iend y" by blast
  then show ?case
  proof cases
    case disj1
    with lx have "ivs_set (x # xs) \<inter> iv_set y = {}" by (force simp: iv_set_def)
    with disj1 "3.IH"(1) "3.prems" show ?thesis by auto
  next
    case disj2
    with ly have "ivs_set (y # ys) \<inter> iv_set x = {}" by (force simp: iv_set_def)
    with disj2 "3.IH"(2) "3.prems" show ?thesis by auto
  next
    case over1
    with ax have "ivs_set (x # xs) \<inter> iv_set y = {max (istart x) (istart y)..min (iend x) (iend y)}"
      by (force simp: iv_set_def)
    with over1 "3.IH"(3) "3.prems" show ?thesis by (auto simp: iv_set_def)
  next
    case over2
    with ay have "ivs_set (y # ys) \<inter> iv_set x = {max (istart x) (istart y)..min (iend x) (iend y)}"
      by (force simp: iv_set_def)
    with over2 "3.IH"(4) "3.prems" show ?thesis by (auto simp: iv_set_def)
  qed
qed auto

lemma normal_start_mem: "normal ivs \<Longrightarrow> b \<in> set ivs \<Longrightarrow> istart b \<in> ivs_set ivs"
  using normal_wf [of ivs b] by (auto simp: mem_ivs_set wf_iv_def)

lemma intersect_loop_normal:
  "normal xs \<Longrightarrow> normal ys \<Longrightarrow> normal (intersect_loop xs ys)"
proof (induction xs ys rule: intersect_loop.induct)
  case (3 x xs y ys)
  have wf: "wf_iv x" "wf_iv y" using "3.prems" by simp_all
  have step: "\<forall>b\<in>set (intersect_loop us vs). e + 1 < istart b"
    if "normal us" "normal vs" "normal (intersect_loop us vs)" "\<And>q. q \<in> ivs_set us \<inter> ivs_set vs \<Longrightarrow> e + 1 < q"
    for us vs e
    using that intersect_loop_set [of us vs] by (blast dest: normal_start_mem)
  consider (disj1) "istart x > iend y" | (disj2) "\<not> istart x > iend y" "iend x < istart y"
    | (over1) "\<not> istart x > iend y" "\<not> iend x < istart y" "iend x > iend y"
    | (over2) "\<not> istart x > iend y" "\<not> iend x < istart y" "\<not> iend x > iend y" by blast
  then show ?case
  proof cases
    case over1
    with "3.IH"(3) "3.prems" have n: "normal (intersect_loop (x # xs) ys)" by simp
    have "\<forall>b\<in>set (intersect_loop (x # xs) ys). iend y + 1 < istart b"
      using "3.prems" n normal_tail_after [OF "3.prems"(2)] by (intro step) auto
    with over1 n wf show ?thesis by (auto simp: wf_iv_def)
  next
    case over2
    with "3.IH"(4) "3.prems" have n: "normal (intersect_loop xs (y # ys))" by simp
    have "\<forall>b\<in>set (intersect_loop xs (y # ys)). iend x + 1 < istart b"
      using "3.prems" n normal_tail_after [OF "3.prems"(1)] by (intro step) auto
    with over2 n wf show ?thesis by (auto simp: wf_iv_def)
  qed (use 3 in simp_all)
qed auto

section \<open>Union\<close>

text \<open>
  The accumulator stays in normal form, and no interval that is still on a stack starts
  before the last interval of the accumulator does.
\<close>

lemma union_push_normal:
  assumes "normal acc" "wf_iv nx" "\<forall>a\<in>set acc. istart a \<le> istart nx"
  shows "normal (union_push acc nx)"
    and "ivs_set (union_push acc nx) = ivs_set acc \<union> iv_set nx"
    and "\<forall>a\<in>set (union_push acc nx). istart a \<le> istart nx"
proof -
  have "normal (union_push acc nx) \<and> ivs_set (union_push acc nx) = ivs_set acc \<union> iv_set nx
    \<and> (\<forall>a\<in>set (union_push acc nx). istart a \<le> istart nx)"
  proof (cases acc rule: rev_cases)
    case Nil
    with assms show ?thesis by (simp add: union_push_def)
  next
    case (snoc init a)
    with assms have a: "wf_iv a" "istart a \<le> istart nx" by simp_all
    consider "iend nx \<le> iend a" | "iend a < iend nx" "istart nx > iend a + 1"
      | "iend a < iend nx" "istart nx \<le> iend a + 1" by linarith
    then show ?thesis
    proof cases
      case 1
      with a assms snoc show ?thesis by (auto simp: union_push_def iv_set_def)
    next
      case 2
      with a assms snoc show ?thesis by (fastforce simp: union_push_def wf_iv_def)
    next
      case 3
      with a assms snoc show ?thesis by (auto simp: union_push_def iv_set_def wf_iv_def)
    qed
  qed
  then show "normal (union_push acc nx)"
    and "ivs_set (union_push acc nx) = ivs_set acc \<union> iv_set nx"
    and "\<forall>a\<in>set (union_push acc nx). istart a \<le> istart nx" by blast+
qed

lemma popInterval_normal:
  assumes "popInterval s1 s2 = Some (nx, s1', s2')" "normal s1" "normal s2"
  shows "normal s1'" "normal s2'" "wf_iv nx"
    and "ivs_set s1 \<union> ivs_set s2 = iv_set nx \<union> ivs_set s1' \<union> ivs_set s2'"
    and "\<forall>b\<in>set s1' \<union> set s2'. istart nx \<le> istart b"
    and "nx \<in> set s1 \<union> set s2" "set s1' \<subseteq> set s1" "set s2' \<subseteq> set s2"
  using assms
  by (induction s1 s2 rule: popInterval.induct) (force simp: wf_iv_def split: if_splits)+

lemma union_loop_correct:
  assumes "normal acc" "normal s1" "normal s2" "\<forall>a\<in>set acc. \<forall>b\<in>set s1 \<union> set s2. istart a \<le> istart b"
  shows "normal (union_loop acc s1 s2) \<and>
    ivs_set (union_loop acc s1 s2) = ivs_set acc \<union> ivs_set s1 \<union> ivs_set s2"
  using assms
proof (induction acc s1 s2 rule: union_loop.induct)
  case (1 acc s1 s2)
  show ?case
  proof (cases "popInterval s1 s2")
    case None
    then have "s1 = []" "s2 = []"
      by (induction s1 s2 rule: popInterval.induct) (auto split: if_splits)
    with "1.prems" None show ?thesis by (simp add: union_loop.simps [of acc])
  next
    case (Some p)
    obtain nx s1' s2' where p: "popInterval s1 s2 = Some (nx, s1', s2')"
      using Some by (cases p) auto
    note pop = popInterval_normal [OF p "1.prems"(2,3)]
    from "1.prems"(4) pop(6) have le: "\<forall>a\<in>set acc. istart a \<le> istart nx" by blast
    note push = union_push_normal [OF "1.prems"(1) pop(3) le]
    have "\<forall>a\<in>set (union_push acc nx). \<forall>b\<in>set s1' \<union> set s2'. istart a \<le> istart b"
      using push(3) pop(5) by (meson order_trans)
    with "1.IH" [OF p refl refl push(1) pop(1,2)] push(2) pop(4) p show ?thesis
      by (simp add: union_loop.simps [of acc s1 s2] Un_assoc)
  qed
qed

corollary union_ivs_correct:
  assumes "normal s1" "normal s2"
  shows "normal (union_loop [] s1 s2)" "ivs_set (union_loop [] s1 s2) = ivs_set s1 \<union> ivs_set s2"
  using union_loop_correct [of "[]" s1 s2] assms by simp_all

section \<open>AddGTID\<close>

text \<open>
  Once the number is placed, the rest of the loop copies intervals; only the first of them
  can touch the last interval of the accumulator.
\<close>

lemma add_merge_correct:
  assumes "normal acc" "acc \<noteq> []" "wf_iv iv" "\<forall>a\<in>set (butlast acc). iend a + 1 < istart iv"
    "iend (last acc) < istart iv"
  shows "normal (add_merge acc iv) \<and> add_merge acc iv \<noteq> [] \<and>
    ivs_set (add_merge acc iv) = ivs_set acc \<union> iv_set iv \<and> iend (last (add_merge acc iv)) = iend iv \<and>
    (\<forall>a\<in>set (butlast (add_merge acc iv)). iend a < istart iv)"
proof (cases acc rule: rev_cases)
  case (snoc init a)
  with assms have a: "wf_iv a" "iend a < istart iv" by simp_all
  show ?thesis
  proof (cases "istart iv = iend a + 1")
    case True
    with snoc a assms show ?thesis by (auto simp: add_merge_def iv_set_def wf_iv_def)
  next
    case False
    with snoc a assms show ?thesis by (auto simp: add_merge_def butlast_append)
  qed
qed (use assms in simp)

lemma add_loop_placed:
  assumes "normal acc" "acc \<noteq> []" "normal ivs"
    "\<forall>a\<in>set (butlast acc). \<forall>b\<in>set ivs. iend a + 1 < istart b" "\<forall>b\<in>set ivs. iend (last acc) < istart b"
  shows "\<exists>acc'. add_loop q True acc ivs = (True, acc') \<and> normal acc' \<and> ivs_set acc' = ivs_set acc \<union> ivs_set ivs"
  using assms
proof (induction ivs arbitrary: acc)
  case (Cons iv ivs)
  note m = add_merge_correct [OF Cons.prems(1,2), of iv]
  let ?acc = "add_merge acc iv"
  have ok: "normal ?acc" "?acc \<noteq> []" "ivs_set ?acc = ivs_set acc \<union> iv_set iv" "iend (last ?acc) = iend iv"
    "\<forall>a\<in>set (butlast ?acc). iend a < istart iv"
    using m Cons.prems by auto
  have "\<forall>a\<in>set (butlast ?acc). \<forall>b\<in>set ivs. iend a + 1 < istart b" "\<forall>b\<in>set ivs. iend (last ?acc) < istart b"
    using ok Cons.prems(3) by (fastforce simp: wf_iv_def)+
  from Cons.IH [OF ok(1,2) _ this] Cons.prems(3) ok(3) show ?case
    by (auto simp: add_place_def Un_assoc)
qed simp

definition add_ivs :: "int \<Rightarrow> interval list \<Rightarrow> interval list" where
  "add_ivs q ivs = (case add_loop q False [] ivs of
     (added, acc) \<Rightarrow> if added then acc else acc @ [\<lparr>istart = q, iend = q\<rparr>])"

lemma add_merge_apart:
  "wf_iv iv \<Longrightarrow> normal acc \<Longrightarrow> \<forall>a\<in>set acc. iend a + 1 < istart iv \<Longrightarrow> add_merge acc iv = acc @ [iv]"
  by (cases acc rule: rev_cases) (auto simp: add_merge_def)

lemma add_loop_correct:
  assumes "normal (acc @ ivs)" "q \<notin> ivs_set (acc @ ivs)" "1 \<le> q" "q < maxInt64" "\<forall>a\<in>set acc. iend a + 1 < q"
  shows "\<exists>added acc'. add_loop q False acc ivs = (added, acc') \<and>
    (let r = if added then acc' else acc' @ [\<lparr>istart = q, iend = q\<rparr>] in
     normal r \<and> ivs_set r = insert q (ivs_set acc \<union> ivs_set ivs))"
  using assms
proof (induction ivs arbitrary: acc)
  case Nil
  then show ?case by (auto simp: wf_iv_def iv_set_def)
next
  case (Cons iv ivs)
  let ?q = "\<lparr>istart = q, iend = q\<rparr>"
  have wf: "wf_iv iv" "normal acc" "normal ivs" "\<forall>b\<in>set ivs. iend iv + 1 < istart b"
    and q: "\<not> (istart iv \<le> q \<and> q \<le> iend iv)"
    using Cons.prems(1,2) by (auto simp: iv_set_def)
  have wq: "wf_iv ?q" using Cons.prems(3,4) by (simp add: wf_iv_def)
  have placed: ?case if "add_place q False acc iv = (True, acc0, iv')" "add_merge acc0 iv' = pre @ [z]"
    "normal (pre @ [z])" "ivs_set pre \<union> iv_set z = insert q (ivs_set acc \<union> iv_set iv)"
    "\<forall>a\<in>set pre. iend a < istart iv" "iend z \<le> iend iv + 1" for acc0 iv' pre z
    using add_loop_placed [OF that(3) _ wf(3), of q] wf that by (fastforce simp: wf_iv_def)
  consider (atfront) "q = istart iv - 1" | (atback) "q = iend iv + 1" | (before) "q < istart iv - 1"
    | (skip) "iend iv + 1 < q" using q by linarith
  then show ?case
  proof cases
    case atfront
    have m: "add_merge acc (iv\<lparr>istart := q\<rparr>) = acc @ [iv\<lparr>istart := q\<rparr>]"
      using Cons.prems wf atfront by (intro add_merge_apart) (auto simp: wf_iv_def)
    show ?thesis
      by (rule placed [OF _ m]) (use Cons.prems wf atfront in \<open>auto simp: add_place_def iv_set_def wf_iv_def\<close>)
  next
    case atback
    have m: "add_merge acc (iv\<lparr>iend := q\<rparr>) = acc @ [iv\<lparr>iend := q\<rparr>]"
      using Cons.prems wf atback by (intro add_merge_apart) (auto simp: wf_iv_def)
    show ?thesis
      by (rule placed [OF _ m]) (use Cons.prems wf atback in \<open>auto simp: add_place_def iv_set_def wf_iv_def\<close>)
  next
    case before
    have m: "add_merge (acc @ [?q]) iv = (acc @ [?q]) @ [iv]"
      using Cons.prems wf wq before by (intro add_merge_apart) auto
    show ?thesis
      by (rule placed [OF _ m]) (use Cons.prems wf wq before in \<open>auto simp: add_place_def iv_set_def wf_iv_def\<close>)
  next
    case skip
    have "add_place q False acc iv = (False, acc, iv)" using skip wf(1) by (auto simp: add_place_def wf_iv_def)
    moreover have "add_merge acc iv = acc @ [iv]"
      using Cons.prems(1) wf by (intro add_merge_apart) auto
    ultimately show ?thesis using Cons.IH [of "acc @ [iv]"] Cons.prems skip by (simp add: Un_assoc)
  qed
qed

corollary add_ivs_correct:
  assumes "normal ivs" "q \<notin> ivs_set ivs" "1 \<le> q" "q < maxInt64"
  shows "normal (add_ivs q ivs)" "ivs_set (add_ivs q ivs) = insert q (ivs_set ivs)"
proof -
  obtain added acc where "add_loop q False [] ivs = (added, acc)"
    "normal (if added then acc else acc @ [\<lparr>istart = q, iend = q\<rparr>])"
    "ivs_set (if added then acc else acc @ [\<lparr>istart = q, iend = q\<rparr>]) = insert q (ivs_set ivs)"
    using add_loop_correct [of "[]" ivs q] assms by (auto simp: Let_def)
  then show "normal (add_ivs q ivs)" "ivs_set (add_ivs q ivs) = insert q (ivs_set ivs)"
    by (simp_all add: add_ivs_def)
qed

section \<open>TrimGTIDSet\<close>

lemma trim_loop_correct:
  assumes "normal ivs"
  shows "normal (trim_loop lim ivs) \<and> ivs_set (trim_loop lim ivs) = {q \<in> ivs_set ivs. q \<le> lim} \<and>
    (\<forall>b\<in>set (trim_loop lim ivs). \<exists>c\<in>set ivs. istart b = istart c)"
  using assms
proof (induction ivs)
  case (Cons iv ivs)
  note after = normal_tail_after [OF Cons.prems]
  have wf: "wf_iv iv" "normal ivs" "\<forall>b\<in>set ivs. iend iv + 1 < istart b" using Cons.prems by simp_all
  consider "iend iv < lim" | "\<not> iend iv < lim" "istart iv \<le> lim" | "lim < istart iv" "lim \<le> iend iv"
    using wf(1) by (fastforce simp: wf_iv_def)
  then show ?case
  proof cases
    case 1
    with Cons wf after show ?thesis by (fastforce simp: iv_set_def)
  next
    case 2
    with wf after have e: "{q \<in> ivs_set ivs. q \<le> lim} = {}" by force
    with 2 Cons.IH wf show ?thesis by (fastforce simp: iv_set_def wf_iv_def)
  next
    case 3
    with after show ?thesis by (force simp: iv_set_def)
  qed
qed simp

section \<open>Difference\<close>

text \<open>
  The six cases of the switch, as equations for an accumulator that ends in \<open>iv\<close> and for
  intervals that are well formed; the \<open>default\<close> case is never reached.
\<close>

lemma diff_loop_cases:
  assumes "wf_iv iv" "wf_iv p"
  shows "iend iv < istart p \<Longrightarrow> diff_loop (init @ [iv]) rest p others =
      (case rest of [] \<Rightarrow> Ret (init @ [iv], [])
       | x # rest' \<Rightarrow> diff_loop ((init @ [iv]) @ [x]) rest' p others)"
    and "istart iv > iend p \<Longrightarrow> diff_loop (init @ [iv]) rest p others =
      (case others of [] \<Rightarrow> Ret (init @ [iv], rest)
       | p' # others' \<Rightarrow> diff_loop (init @ [iv]) rest p' others')"
    and "istart p \<le> istart iv \<Longrightarrow> iend iv \<le> iend p \<Longrightarrow> diff_loop (init @ [iv]) rest p others =
      (case rest of [] \<Rightarrow> Ret (init, [])
       | x # rest' \<Rightarrow> diff_loop (init @ [x]) rest' p others)"
    and "istart iv < istart p \<Longrightarrow> istart p \<le> iend iv \<Longrightarrow> iend iv \<le> iend p \<Longrightarrow>
      diff_loop (init @ [iv]) rest p others =
      (case rest of [] \<Rightarrow> Ret (init @ [iv\<lparr>iend := istart p - 1\<rparr>], [])
       | x # rest' \<Rightarrow> diff_loop ((init @ [iv\<lparr>iend := istart p - 1\<rparr>]) @ [x]) rest' p others)"
    and "istart p \<le> istart iv \<Longrightarrow> istart iv \<le> iend p \<Longrightarrow> iend p < iend iv \<Longrightarrow>
      diff_loop (init @ [iv]) rest p others =
      (case others of [] \<Rightarrow> Ret (init @ [iv\<lparr>istart := iend p + 1\<rparr>], rest)
       | p' # others' \<Rightarrow> diff_loop (init @ [iv\<lparr>istart := iend p + 1\<rparr>]) rest p' others')"
    and "istart iv < istart p \<Longrightarrow> iend p < iend iv \<Longrightarrow> diff_loop (init @ [iv]) rest p others =
      (let init' = init @ [iv\<lparr>iend := istart p - 1\<rparr>]; iv' = \<lparr>istart = iend p + 1, iend = iend iv\<rparr> in
       case others of [] \<Rightarrow> Ret (init' @ [iv'], rest)
       | p' # others' \<Rightarrow> diff_loop (init' @ [iv']) rest p' others')"
  using assms
  by (subst diff_loop.simps, simp add: wf_iv_def add64_id sub64_id maxInt64_def Let_def
      split: list.splits)+

definition diff_spec :: "interval list \<Rightarrow> interval \<Rightarrow> interval list \<Rightarrow> interval list \<Rightarrow>
    (interval list \<times> interval list) outcome \<Rightarrow> bool" where
  "diff_spec init iv rest others r \<longleftrightarrow>
     (case r of Panic \<Rightarrow> False
      | Ret (acc, rest') \<Rightarrow> normal (acc @ rest') \<and>
          ivs_set (acc @ rest') = ivs_set init \<union> (ivs_set (iv # rest) - ivs_set others))"

lemma diff_specI:
  "normal (acc @ rest') \<Longrightarrow> ivs_set (acc @ rest') = ivs_set init \<union> (ivs_set (iv # rest) - ivs_set others)
    \<Longrightarrow> diff_spec init iv rest others (Ret (acc, rest'))"
  by (simp add: diff_spec_def)

lemma diff_spec_mono:
  assumes "diff_spec init' iv' rest' others' r"
    and "ivs_set init' \<union> (ivs_set (iv' # rest') - ivs_set others') = ivs_set init \<union> (ivs_set (iv # rest) - ivs_set others)"
  shows "diff_spec init iv rest others r"
  using assms by (auto simp: diff_spec_def split: outcome.splits)

text \<open>\<open>advance\<close> after the last interval of \<open>acc\<close> is settled, and \<open>advanceOther\<close>.\<close>

lemma diff_advance:
  assumes rec: "\<And>x rest'. rest = x # rest' \<Longrightarrow>
      diff_spec init' x rest' (p # others) (diff_loop (init' @ [x]) rest' p others)"
    and n: "normal (init' @ rest)" "ivs_set init' = ivs_set init \<union> (iv_set iv - ivs_set (p # others))"
  shows "diff_spec init iv rest (p # others)
      (case rest of [] \<Rightarrow> Ret (init', []) | x # rest' \<Rightarrow> diff_loop (init' @ [x]) rest' p others)"
proof (cases rest)
  case Nil
  with n show ?thesis by (auto intro!: diff_specI)
next
  case (Cons x rest')
  from rec [OF Cons] have "diff_spec init iv rest (p # others) (diff_loop (init' @ [x]) rest' p others)"
    by (rule diff_spec_mono) (use n(2) Cons in auto)
  with Cons show ?thesis by simp
qed

lemma diff_advanceOther:
  assumes rec: "\<And>p' others'. others = p' # others' \<Longrightarrow>
      diff_spec init' iv' rest (p' # others') (diff_loop (init' @ [iv']) rest p' others')"
    and n: "normal (init' @ iv' # rest)" "normal (iv # rest)" "iend p < iend iv"
      "ivs_set init' \<union> (iv_set iv' - ivs_set others) = ivs_set init \<union> (iv_set iv - ivs_set (p # others))"
  shows "diff_spec init iv rest (p # others)
      (case others of [] \<Rightarrow> Ret (init' @ [iv'], rest)
       | p' # others' \<Rightarrow> diff_loop (init' @ [iv']) rest p' others')"
proof -
  have r: "ivs_set rest - ivs_set (p # others) = ivs_set rest - ivs_set others"
    using normal_tail_after [OF n(2)] n(3) by (force simp: iv_set_def)
  have e: "ivs_set init' \<union> (ivs_set (iv' # rest) - ivs_set others)
      = ivs_set init \<union> (ivs_set (iv # rest) - ivs_set (p # others))"
    using r n(4) by (simp only: ivs_set_simps Un_Diff) blast
  show ?thesis
  proof (cases others)
    case Nil
    with n(1) e show ?thesis by (auto intro!: diff_specI)
  next
    case (Cons p' others')
    from rec [OF Cons] have "diff_spec init iv rest (p # others) (diff_loop (init' @ [iv']) rest p' others')"
      by (rule diff_spec_mono) (use e Cons in auto)
    with Cons show ?thesis by simp
  qed
qed

lemma diff_loop_correct:
  assumes "normal (init @ iv # rest)" "normal (p # others)"
  shows "diff_spec init iv rest (p # others) (diff_loop (init @ [iv]) rest p others)"
  using assms
proof (induction "length rest + length others" arbitrary: init iv rest p others rule: less_induct)
  case less
  let ?P = "ivs_set (p # others)"
  have wf: "wf_iv iv" "wf_iv p" and rest: "normal (iv # rest)" using less.prems by simp_all
  note eqs = diff_loop_cases [OF wf, of init rest others]
  have lo: "q \<notin> ?P" if "q < istart p" for q using normal_least(2) [OF less.prems(2), of q] that by linarith
  have oth: "\<And>q. q \<in> ivs_set others \<Longrightarrow> iend p + 1 < q" by (rule normal_tail_after [OF less.prems(2)])
  have adv: "diff_spec init iv rest (p # others)
      (case rest of [] \<Rightarrow> Ret (init', []) | x # rest' \<Rightarrow> diff_loop (init' @ [x]) rest' p others)"
    if "normal (init' @ rest)" "ivs_set init' = ivs_set init \<union> (iv_set iv - ?P)" for init'
    by (rule diff_advance [OF _ that], rule less.hyps) (use that(1) less.prems in auto)
  have advO: "diff_spec init iv rest (p # others)
      (case others of [] \<Rightarrow> Ret (init' @ [iv'], rest) | p' # others' \<Rightarrow> diff_loop (init' @ [iv']) rest p' others')"
    if "normal (init' @ iv' # rest)" "iend p < iend iv"
      "ivs_set init' \<union> (iv_set iv' - ivs_set others) = ivs_set init \<union> (iv_set iv - ?P)" for init' iv'
    by (rule diff_advanceOther [OF _ that(1) rest that(2,3)], rule less.hyps) (use that(1) less.prems in auto)
  consider (before) "iend iv < istart p" | (past) "istart iv > iend p"
    | (inside) "istart p \<le> istart iv" "iend iv \<le> iend p"
    | (tail) "istart iv < istart p" "istart p \<le> iend iv" "iend iv \<le> iend p"
    | (head) "istart p \<le> istart iv" "istart iv \<le> iend p" "iend p < iend iv"
    | (middle) "istart iv < istart p" "iend p < iend iv" by linarith
  then show ?case
  proof cases
    case before
    then have "iv_set iv - ?P = iv_set iv" using lo by (auto simp: iv_set_def)
    with before eqs(1) less.prems adv [of "init @ [iv]"] show ?thesis by simp
  next
    case past
    then have "iv_set iv - ?P = iv_set iv - ivs_set others" by (auto simp: iv_set_def)
    with past eqs(2) less.prems(1) wf advO [of init iv] show ?thesis by (simp add: wf_iv_def)
  next
    case inside
    then have e: "ivs_set init = ivs_set init \<union> (iv_set iv - ?P)" by (auto simp: iv_set_def)
    have "normal (init @ rest)" using less.prems(1) by simp
    from adv [OF this e] show ?thesis unfolding eqs(3) [OF inside] .
  next
    case tail
    then have "iv_set iv - ?P = iv_set (iv\<lparr>iend := istart p - 1\<rparr>)" using lo by (auto simp: iv_set_def)
    moreover have "normal ((init @ [iv\<lparr>iend := istart p - 1\<rparr>]) @ rest)"
      using less.prems(1) tail wf by (auto simp: wf_iv_def)
    ultimately show ?thesis using tail eqs(4) adv [of "init @ [iv\<lparr>iend := istart p - 1\<rparr>]"] by simp
  next
    case head
    then have "iv_set iv - ?P = iv_set (iv\<lparr>istart := iend p + 1\<rparr>) - ivs_set others" by (auto simp: iv_set_def)
    moreover have "normal (init @ iv\<lparr>istart := iend p + 1\<rparr> # rest)"
      using less.prems(1) head wf by (auto simp: wf_iv_def)
    ultimately show ?thesis using head eqs(5) advO [of init "iv\<lparr>istart := iend p + 1\<rparr>"] by simp
  next
    case middle
    let ?l = "iv\<lparr>iend := istart p - 1\<rparr>" and ?r = "\<lparr>istart = iend p + 1, iend = iend iv\<rparr>"
    have "iv_set iv - ?P = iv_set ?l \<union> (iv_set ?r - ivs_set others)"
      using middle wf oth by (force simp: iv_set_def wf_iv_def)
    moreover have "normal ((init @ [?l]) @ ?r # rest)"
      using less.prems(1) middle wf by (auto simp: wf_iv_def)
    ultimately show ?thesis using middle eqs(6) advO [of "init @ [?l]" ?r]
      by (simp add: Let_def Un_assoc)
  qed
qed

section \<open>Merge loses nothing\<close>

lemma merge_step_covers:
  assumes "merge_step tmp rest others = Some (tmp', rest', others')" "\<forall>b\<in>set rest. istart tmp \<le> istart b"
  shows "iv_set tmp \<union> ivs_set rest \<subseteq> iv_set tmp' \<union> ivs_set rest'" "istart tmp' \<le> istart tmp" "set rest' \<subseteq> set rest"
proof -
  define t1 where "t1 = (if touches tmp rest then tmp\<lparr>iend := max (iend tmp) (iend (hd rest))\<rparr> else tmp)"
  have r: "rest' = (if touches tmp rest then tl rest else rest)"
    and t: "tmp' = t1 \<or> tmp' = t1\<lparr>iend := max (iend t1) (iend (hd others)), istart := min (istart t1) (istart (hd others))\<rparr>"
    using assms(1) by (auto simp: merge_step_def t1_def Let_def split: if_splits prod.splits)
  have cov: "iv_set tmp \<union> ivs_set rest \<subseteq> iv_set t1 \<union> ivs_set rest'"
  proof (cases "touches tmp rest")
    case True
    then obtain x xs where x: "rest = x # xs" by (cases rest) auto
    with assms(2) have "istart tmp \<le> istart x" by simp
    with x True r show ?thesis by (auto simp: t1_def iv_set_def)
  qed (simp add: t1_def r)
  have "iv_set t1 \<subseteq> iv_set tmp'" "istart tmp' \<le> istart t1" using t by (auto simp: iv_set_def)
  moreover have "istart t1 = istart tmp" by (simp add: t1_def)
  ultimately show "iv_set tmp \<union> ivs_set rest \<subseteq> iv_set tmp' \<union> ivs_set rest'" "istart tmp' \<le> istart tmp"
    using cov by auto
  show "set rest' \<subseteq> set rest" using r by (cases rest) auto
qed

lemma merge_inner_covers:
  "\<forall>b\<in>set rest. istart tmp \<le> istart b \<Longrightarrow> merge_inner tmp rest others = (tmp', rest', others') \<Longrightarrow>
     iv_set tmp \<union> ivs_set rest \<subseteq> iv_set tmp' \<union> ivs_set rest' \<and> set rest' \<subseteq> set rest \<and> (\<exists>n. rest' = drop n rest)"
proof (induction tmp rest others rule: merge_inner.induct)
  case (1 tmp rest others)
  show ?case
  proof (cases "merge_step tmp rest others")
    case None
    with 1 show ?thesis by (auto simp: merge_inner.simps [of tmp rest others] intro: exI [of _ 0])
  next
    case (Some st)
    obtain t r os where st: "st = (t, r, os)" by (cases st)
    note s = merge_step_covers [OF Some [unfolded st] "1.prems"(1)]
    have n: "\<exists>n. r = drop n rest" using Some st
      by (auto simp: merge_step_def Let_def split: if_splits prod.splits intro: exI [of _ 0] exI [of _ 1] simp: drop_Suc)
    have "merge_inner t r os = (tmp', rest', others')"
      using "1.prems"(2) Some st by (simp add: merge_inner.simps [of tmp rest others])
    moreover have "\<forall>b\<in>set r. istart t \<le> istart b" using s "1.prems"(1) by (meson order_trans subsetD)
    ultimately have ih: "iv_set t \<union> ivs_set r \<subseteq> iv_set tmp' \<union> ivs_set rest'" "set rest' \<subseteq> set r" "\<exists>n. rest' = drop n r"
      using "1.IH" [OF Some st [symmetric] refl] by blast+
    have "\<exists>n. rest' = drop n rest" using ih(3) n by (metis drop_drop)
    with ih s show ?thesis by blast
  qed
qed

lemma merge_loop_covers:
  "sorted_wrt (\<lambda>a b. istart a \<le> istart b) xs \<Longrightarrow> ivs_set xs \<subseteq> ivs_set (merge_loop xs others)"
proof (induction xs others rule: merge_loop.induct)
  case (2 x rest others)
  obtain t r os where m: "merge_inner x rest others = (t, r, os)" by (cases "merge_inner x rest others")
  have p: "\<forall>b\<in>set rest. istart x \<le> istart b" "sorted_wrt (\<lambda>a b. istart a \<le> istart b) rest" using "2.prems" by auto
  obtain n where n: "iv_set x \<union> ivs_set rest \<subseteq> iv_set t \<union> ivs_set r" "r = drop n rest"
    using merge_inner_covers [OF p(1) m] by blast
  have "ivs_set r \<subseteq> ivs_set (merge_loop r os)" using "2.IH" [of "(t, r, os)"] m n(2) p(2) by (simp add: sorted_wrt_drop)
  then have "ivs_set (x # rest) \<subseteq> iv_set t \<union> ivs_set (merge_loop r os)" using n(1) by auto
  with m show ?case by simp
qed simp

end
