(* ===== verification/GoStrings.thy ===== *)
theory GoStrings
  imports Prelude
begin

text \<open>
  The parts of Go's standard library on strings that the components use, on byte strings:
  \<open>strings.Cut\<close>, \<open>strings.Split\<close>, \<open>strings.Join\<close>, \<open>strings.TrimSpace\<close> (for ASCII text),
  \<open>strconv.ParseUint\<close>, \<open>strconv.ParseInt\<close> and \<open>strconv.FormatInt\<close> in base 10, and
  \<open>encoding/hex\<close>. A failed conversion is \<open>None\<close>. The lemmas are the round trips the
  parsers and printers of the components rest on.
\<close>

section \<open>Cutting, splitting, joining and trimming\<close>

fun cut :: "char \<Rightarrow> string \<Rightarrow> string \<times> string \<times> bool" where
  "cut c [] = ([], [], False)"
| "cut c (x # xs) =
     (if x = c then ([], xs, True)
      else (case cut c xs of (a, b, ok) \<Rightarrow> (x # a, b, ok)))"

fun split :: "char \<Rightarrow> string \<Rightarrow> string list" where
  "split c [] = [[]]"
| "split c (x # xs) =
     (if x = c then [] # split c xs
      else (case split c xs of [] \<Rightarrow> [[x]] | w # ws \<Rightarrow> (x # w) # ws))"

fun join :: "char \<Rightarrow> string list \<Rightarrow> string" where
  "join c [] = []"
| "join c [w] = w"
| "join c (w # ws) = w @ c # join c ws"

definition isSpace :: "char \<Rightarrow> bool" where
  "isSpace c \<longleftrightarrow> c = CHR '' '' \<or> (9 \<le> (of_char c :: nat) \<and> (of_char c :: nat) \<le> 13)"

definition trimSpace :: "string \<Rightarrow> string" where
  "trimSpace s = rev (dropWhile isSpace (rev (dropWhile isSpace s)))"

lemma cut_notin: "c \<notin> set s \<Longrightarrow> cut c s = (s, [], False)"
  by (induction s) auto

lemma cut_append: "c \<notin> set a \<Longrightarrow> cut c (a @ c # b) = (a, b, True)"
  by (induction a) auto

lemma cut_found: "cut c s = (a, b, True) \<Longrightarrow> s = a @ c # b"
  by (induction s arbitrary: a) (auto split: if_splits prod.splits)

lemma cut_not_found: "cut c s = (a, b, False) \<Longrightarrow> a = s \<and> b = []"
  by (induction s arbitrary: a) (auto split: if_splits prod.splits)

lemma cut_shorter: "cut c s = (a, b, ok) \<Longrightarrow> s \<noteq> [] \<Longrightarrow> length b < length s"
proof (induction s arbitrary: a b ok)
  case (Cons x xs)
  then show ?case by (cases xs) (force split: if_splits prod.splits)+
qed simp

lemma split_nonempty [simp]: "split c s \<noteq> []"
  by (cases s) (auto split: list.splits)

lemma split_notin: "c \<notin> set s \<Longrightarrow> split c s = [s]"
  by (induction s) auto

lemma split_append: "c \<notin> set a \<Longrightarrow> split c (a @ c # b) = a # split c b"
  by (induction a) auto

lemma split_join: "ws \<noteq> [] \<Longrightarrow> \<forall>w\<in>set ws. c \<notin> set w \<Longrightarrow> split c (join c ws) = ws"
  by (induction c ws rule: join.induct) (auto simp: split_notin split_append)

lemma trimSpace_id:
  assumes "s \<noteq> []" "\<not> isSpace (hd s)" "\<not> isSpace (last s)" shows "trimSpace s = s"
proof -
  have "dropWhile isSpace s = s" using assms by (cases s) auto
  moreover have "dropWhile isSpace (rev s) = rev s" using assms by (cases s rule: rev_cases) auto
  ultimately show ?thesis by (simp add: trimSpace_def)
qed

lemma trimSpace_Nil [simp]: "trimSpace [] = []"
  by (simp add: trimSpace_def)

section \<open>Decimal numbers\<close>

definition digit :: "nat \<Rightarrow> char" where
  "digit n = char_of (48 + n)"

definition digit_val :: "char \<Rightarrow> nat option" where
  "digit_val c = (if 48 \<le> (of_char c :: nat) \<and> (of_char c :: nat) \<le> 57 then Some (of_char c - 48) else None)"

fun nat_dec :: "nat \<Rightarrow> string" where
  "nat_dec n = (if n < 10 then [digit n] else nat_dec (n div 10) @ [digit (n mod 10)])"

declare nat_dec.simps [simp del]

fun digits_val :: "nat \<Rightarrow> string \<Rightarrow> nat option" where
  "digits_val n [] = Some n"
| "digits_val n (c # cs) =
     (case digit_val c of None \<Rightarrow> None | Some d \<Rightarrow> digits_val (10 * n + d) cs)"

definition ParseUint :: "string \<Rightarrow> nat \<Rightarrow> nat option" where
  "ParseUint s bits =
     (if s = [] then None
      else case digits_val 0 s of None \<Rightarrow> None | Some n \<Rightarrow> if n < 2 ^ bits then Some n else None)"

definition ParseInt64 :: "string \<Rightarrow> int option" where
  "ParseInt64 s =
     (case s of [] \<Rightarrow> None
      | c # cs \<Rightarrow>
          if c = CHR ''-'' then
            (case ParseUint cs 64 of None \<Rightarrow> None
             | Some n \<Rightarrow> if int n > maxInt64 + 1 then None else Some (- int n))
          else
            (case ParseUint (if c = CHR ''+'' then cs else s) 64 of None \<Rightarrow> None
             | Some n \<Rightarrow> if int n > maxInt64 then None else Some (int n)))"

definition FormatInt :: "int \<Rightarrow> string" where
  "FormatInt i = (if i < 0 then CHR ''-'' # nat_dec (nat (- i)) else nat_dec (nat i))"

lemma digit_val_digit [simp]: "n < 10 \<Longrightarrow> digit_val (digit n) = Some n"
  by (simp add: digit_val_def digit_def)

lemma digits_val_append: "digits_val n (xs @ ys) = (case digits_val n xs of None \<Rightarrow> None | Some m \<Rightarrow> digits_val m ys)"
  by (induction xs arbitrary: n) (auto split: option.splits)

lemma digits_val_nat_dec: "digits_val 0 (nat_dec n) = Some n"
proof (induction n rule: nat_dec.induct)
  case (1 n)
  show ?case
  proof (cases "n < 10")
    case True
    then show ?thesis by (simp add: nat_dec.simps [of n])
  next
    case False
    with 1 show ?thesis by (simp add: nat_dec.simps [of n] digits_val_append)
  qed
qed

lemma nat_dec_nonempty [simp]: "nat_dec n \<noteq> []"
  by (simp add: nat_dec.simps [of n])

lemma ParseUint_nat_dec: "n < 2 ^ bits \<Longrightarrow> ParseUint (nat_dec n) bits = Some n"
  by (simp add: ParseUint_def digits_val_nat_dec)

lemma digit_inj_range: "n < 10 \<Longrightarrow> (of_char (digit n) :: nat) = 48 + n"
  by (simp add: digit_def)

lemma nat_dec_digits: "c \<in> set (nat_dec n) \<Longrightarrow> 48 \<le> (of_char c :: nat) \<and> (of_char c :: nat) \<le> 57"
proof (induction n arbitrary: c rule: nat_dec.induct)
  case (1 n)
  show ?case
  proof (cases "n < 10")
    case True
    with "1.prems" show ?thesis by (auto simp: nat_dec.simps [of n] digit_inj_range)
  next
    case False
    with 1 show ?thesis by (auto simp: nat_dec.simps [of n] digit_inj_range)
  qed
qed

lemma nat_dec_chars [simp]:
  "CHR '':'' \<notin> set (nat_dec n)" "CHR '','' \<notin> set (nat_dec n)" "CHR ''-'' \<notin> set (nat_dec n)"
  "CHR ''/'' \<notin> set (nat_dec n)" "CHR ''+'' \<notin> set (nat_dec n)"
  by (auto dest!: nat_dec_digits)

lemma nat_dec_not_space: "c \<in> set (nat_dec n) \<Longrightarrow> \<not> isSpace c"
  by (auto simp: isSpace_def dest!: nat_dec_digits)

lemma ParseInt64_FormatInt:
  assumes "- maxInt64 - 1 \<le> i" "i \<le> maxInt64" shows "ParseInt64 (FormatInt i) = Some i"
proof (cases "i < 0")
  case True
  with assms have "ParseUint (nat_dec (nat (- i))) 64 = Some (nat (- i))"
    by (intro ParseUint_nat_dec) (simp add: maxInt64_def nat_less_iff)
  with True assms show ?thesis by (simp add: FormatInt_def ParseInt64_def)
next
  case False
  with assms have p: "ParseUint (nat_dec (nat i)) 64 = Some (nat i)"
    by (intro ParseUint_nat_dec) (simp add: maxInt64_def nat_less_iff)
  obtain c cs where c: "nat_dec (nat i) = c # cs" by (cases "nat_dec (nat i)") auto
  have "c \<noteq> CHR ''-''" "c \<noteq> CHR ''+''" using nat_dec_chars(3,5) [of "nat i"] c by auto
  with p c False assms show ?thesis by (simp add: FormatInt_def ParseInt64_def)
qed

section \<open>Hexadecimal\<close>

definition hexdigit :: "nat \<Rightarrow> char" where
  "hexdigit n = (if n < 10 then char_of (48 + n) else char_of (87 + n))"

definition hex_val :: "char \<Rightarrow> nat option" where
  "hex_val c =
     (let k = of_char c :: nat in
      if 48 \<le> k \<and> k \<le> 57 then Some (k - 48)
      else if 97 \<le> k \<and> k \<le> 102 then Some (k - 87)
      else if 65 \<le> k \<and> k \<le> 70 then Some (k - 55)
      else None)"

definition hex_byte :: "8 word \<Rightarrow> string" where
  "hex_byte b = [hexdigit (unat b div 16), hexdigit (unat b mod 16)]"

definition hexEncode :: "8 word list \<Rightarrow> string" where
  "hexEncode bs = concat (map hex_byte bs)"

fun hexDecode :: "string \<Rightarrow> 8 word list option" where
  "hexDecode [] = Some []"
| "hexDecode [c] = None"
| "hexDecode (c # d # cs) =
     (case hex_val c of None \<Rightarrow> None
      | Some h \<Rightarrow> (case hex_val d of None \<Rightarrow> None
        | Some l \<Rightarrow> (case hexDecode cs of None \<Rightarrow> None
          | Some bs \<Rightarrow> Some (of_nat (16 * h + l) # bs))))"

lemma of_char_hexdigit: "n < 16 \<Longrightarrow> (of_char (hexdigit n) :: nat) = (if n < 10 then 48 + n else 87 + n)"
  by (simp add: hexdigit_def)

lemma hex_val_hexdigit [simp]: "n < 16 \<Longrightarrow> hex_val (hexdigit n) = Some n"
  by (auto simp: hex_val_def of_char_hexdigit Let_def)

lemma unat_byte_div [simp]: "unat (b :: 8 word) div 16 < 16"
  using unsigned_less [of b, where ?'a = nat] by (simp add: less_mult_imp_div_less)

lemma hexDecode_hexEncode: "hexDecode (hexEncode bs) = Some bs"
proof (induction bs)
  case (Cons b bs)
  have "16 * (unat b div 16) + unat b mod 16 = unat b" by simp
  then have "(of_nat (16 * (unat b div 16) + unat b mod 16) :: 8 word) = b" by simp
  with Cons show ?case by (simp add: hexEncode_def hex_byte_def)
qed (simp add: hexEncode_def)

lemma length_hexEncode [simp]: "length (hexEncode bs) = 2 * length bs"
  by (induction bs) (auto simp: hexEncode_def hex_byte_def)

lemma hexEncode_Nil [simp]: "hexEncode [] = []"
  by (simp add: hexEncode_def)

lemma hexEncode_append: "hexEncode (xs @ ys) = hexEncode xs @ hexEncode ys"
  by (simp add: hexEncode_def)

lemma hexEncode_chars:
  assumes "c \<in> set (hexEncode bs)"
  shows "48 \<le> (of_char c :: nat) \<and> (of_char c :: nat) \<le> 57 \<or> 97 \<le> (of_char c :: nat) \<and> (of_char c :: nat) \<le> 102"
proof -
  from assms obtain b :: "8 word" where "c = hexdigit (unat b div 16) \<or> c = hexdigit (unat b mod 16)"
    by (auto simp: hexEncode_def hex_byte_def)
  then obtain n where "n < 16" "c = hexdigit n"
    using unat_byte_div [of b] mod_less_divisor [of 16 "unat b"] by fastforce
  then show ?thesis by (auto simp: of_char_hexdigit)
qed

end
