(* ===== verification/Bytes.thy ===== *)
theory Bytes
  imports Prelude
begin

text \<open>
  Byte strings: \<open>bytes.Compare\<close>, and fixed-width little-endian integers as
  \<open>encoding/binary\<close> reads and writes them.
\<close>

type_synonym byte = "8 word"

section \<open>Comparison of byte strings\<close>

text \<open>\<open>bytes_less a b\<close> is \<open>bytes.Compare(a, b) < 0\<close>.\<close>

fun bytes_less :: "byte list \<Rightarrow> byte list \<Rightarrow> bool" where
  "bytes_less _ [] = False"
| "bytes_less [] (_ # _) = True"
| "bytes_less (x # xs) (y # ys) = (x < y \<or> (x = y \<and> bytes_less xs ys))"

definition bytes_compare :: "byte list \<Rightarrow> byte list \<Rightarrow> int" where
  "bytes_compare a b = (if bytes_less a b then - 1 else if bytes_less b a then 1 else 0)"

lemma bytes_less_irrefl [simp]: "\<not> bytes_less a a"
  by (induction a) auto

lemma bytes_less_Nil [simp]: "bytes_less [] b \<longleftrightarrow> b \<noteq> []"
  by (cases b) auto

lemma bytes_less_trans: "bytes_less a b \<Longrightarrow> bytes_less b c \<Longrightarrow> bytes_less a c"
proof (induction a b arbitrary: c rule: bytes_less.induct)
  case (2 y ys)
  then show ?case by (cases c) auto
next
  case (3 x xs y ys)
  then show ?case by (cases c) auto
qed simp

lemma bytes_less_linear: "bytes_less a b \<or> a = b \<or> bytes_less b a"
proof (induction a b rule: bytes_less.induct)
  case (1 a)
  then show ?case by (cases a) auto
qed auto

lemma bytes_less_asym: "bytes_less a b \<Longrightarrow> \<not> bytes_less b a"
  using bytes_less_trans [of a b a] by auto

lemma bytes_not_less: "\<not> bytes_less a b \<longleftrightarrow> a = b \<or> bytes_less b a"
  using bytes_less_linear [of a b] bytes_less_asym [of a b] bytes_less_asym [of b a] by auto

lemma bytes_less_le_trans: "bytes_less a b \<Longrightarrow> \<not> bytes_less c b \<Longrightarrow> bytes_less a c"
  using bytes_less_trans [of a b c] bytes_not_less [of c b] by blast

lemma bytes_le_less_trans: "\<not> bytes_less b a \<Longrightarrow> bytes_less b c \<Longrightarrow> bytes_less a c"
  using bytes_less_trans [of a b c] bytes_not_less [of b a] by blast

lemma strict_weak_bytes_less: "strict_weak bytes_less"
proof -
  have neg: "\<not> bytes_less a c" if "\<not> bytes_less a b" "\<not> bytes_less b c" for a b c
    using that bytes_less_le_trans [of a c b] by blast
  show ?thesis unfolding strict_weak_def
    by (intro conjI allI impI) (simp, elim conjE, erule bytes_less_trans, assumption, elim conjE, erule neg, assumption)
qed

lemma bytes_compare_neg [simp]: "bytes_compare a b < 0 \<longleftrightarrow> bytes_less a b"
  by (simp add: bytes_compare_def)

lemma bytes_compare_zero [simp]: "bytes_compare a b = 0 \<longleftrightarrow> a = b"
  using bytes_less_linear [of a b] by (auto simp: bytes_compare_def)

lemma bytes_compare_nonpos [simp]: "bytes_compare a b \<le> 0 \<longleftrightarrow> \<not> bytes_less b a"
  using bytes_less_asym [of a b] by (auto simp: bytes_compare_def)

section \<open>Comparison of strings\<close>

text \<open>Go compares strings byte by byte.\<close>

definition char_byte :: "char \<Rightarrow> byte" where
  "char_byte c = of_nat (of_char c)"

definition str_less :: "string \<Rightarrow> string \<Rightarrow> bool" where
  "str_less a b = bytes_less (map char_byte a) (map char_byte b)"

lemma char_byte_inj: "char_byte c = char_byte d \<longleftrightarrow> c = d"
proof
  assume "char_byte c = char_byte d"
  then have "unat (of_nat (of_char c) :: byte) = unat (of_nat (of_char d) :: byte)" by (simp add: char_byte_def)
  then have "(of_char c :: nat) = of_char d" by (simp add: unat_of_nat)
  then show "c = d" by simp
qed simp

lemma str_less_irrefl [simp]: "\<not> str_less a a"
  by (simp add: str_less_def)

lemma str_less_trans: "str_less a b \<Longrightarrow> str_less b c \<Longrightarrow> str_less a c"
  unfolding str_less_def by (rule bytes_less_trans)

lemma str_less_linear: "str_less a b \<or> a = b \<or> str_less b a"
proof -
  have "map char_byte a = map char_byte b \<Longrightarrow> a = b"
    by (rule map_injective) (auto simp: inj_def char_byte_inj)
  then show ?thesis unfolding str_less_def using bytes_less_linear by blast
qed

lemma str_less_asym: "str_less a b \<Longrightarrow> \<not> str_less b a"
  using str_less_trans [of a b a] by auto

section \<open>Little-endian integers\<close>

fun le_enc :: "nat \<Rightarrow> nat \<Rightarrow> byte list" where
  "le_enc 0 v = []"
| "le_enc (Suc n) v = of_nat (v mod 256) # le_enc n (v div 256)"

fun le_dec :: "byte list \<Rightarrow> nat" where
  "le_dec [] = 0"
| "le_dec (b # bs) = unat b + 256 * le_dec bs"

lemma length_le_enc [simp]: "length (le_enc n v) = n"
  by (induction n arbitrary: v) auto

lemma unat_of_nat_byte [simp]: "unat (of_nat v :: byte) = v mod 256"
  by (simp add: unat_of_nat)

lemma le_dec_le_enc: "v < 256 ^ n \<Longrightarrow> le_dec (le_enc n v) = v"
proof (induction n arbitrary: v)
  case (Suc n)
  then have "v div 256 < 256 ^ n" by (simp add: less_mult_imp_div_less mult.commute)
  with Suc.IH [of "v div 256"] show ?case by simp
qed simp

lemma le_dec_bound: "le_dec bs < 256 ^ length bs"
proof (induction bs)
  case (Cons b bs)
  have "unat b < 256" using unsigned_less [of b, where ?'a = nat] by simp
  with Cons show ?case by simp
qed simp

lemma le_enc_le_dec: "le_enc (length bs) (le_dec bs) = bs"
proof (induction bs)
  case (Cons b bs)
  have "unat b < 256" using unsigned_less [of b, where ?'a = nat] by simp
  with Cons show ?case by simp
qed simp

text \<open>An \<open>int64\<close> travels as the unsigned number with the same bits.\<close>

definition u64_of_int :: "int \<Rightarrow> nat" where
  "u64_of_int i = nat (i mod 18446744073709551616)"

lemma u64_of_int_bound: "u64_of_int i < 256 ^ 8"
  by (simp add: u64_of_int_def nat_less_iff)

lemma int_u64_of_int: "int (u64_of_int i) = i mod 18446744073709551616"
  by (simp add: u64_of_int_def)

lemma wrap64_mod: "wrap64 (x mod 18446744073709551616) = wrap64 x"
  unfolding wrap64_def by (simp add: mod_add_left_eq)

lemma wrap64_mod_diff: "wrap64 (x mod 18446744073709551616 - y) = wrap64 (x - y)"
proof -
  have e: "z - y + 9223372036854775808 = z + (9223372036854775808 - y)" for z :: int by simp
  show ?thesis unfolding wrap64_def e by (simp only: mod_add_left_eq)
qed

lemma wrap64_u64: "wrap64 (int (u64_of_int i)) = wrap64 i"
  by (simp add: int_u64_of_int wrap64_mod)

end
