(* ===== verification/GtidTypes.thy ===== *)
theory GtidTypes
  imports Intervals GoStrings Bytes
begin

text \<open>
  The data of the GTID component (\<open>go/mysql/gtid.go\<close>, \<open>gtid_set.go\<close> and the three flavor
  files): the interfaces \<open>GTID\<close> and \<open>GTIDSet\<close> as tagged unions of their implementations. A
  nil interface value is \<open>None\<close>; a set that is a Go map is \<open>None\<close> when the map is nil.
\<close>

type_synonym sid = "byte list"

record mysql56_gtid =
  Server :: sid
  Sequence :: int

record mariadb_gtid =
  mDomain :: "32 word"
  mServer :: "32 word"
  mSequence :: "64 word"

record filepos_gtid =
  fpFile :: string
  fpPos :: int

datatype GTID = Mysql56GTID mysql56_gtid | MariadbGTID mariadb_gtid | FilePosGTID filepos_gtid

type_synonym m56map = "(sid, interval list) gomap"
type_synonym mdbmap = "(32 word, mariadb_gtid) gomap"

datatype GTIDSet = Mysql56GTIDSet "m56map option" | MariadbGTIDSet "mdbmap option"
  | FilePosGTIDSet filepos_gtid

text \<open>The errors the parsers return; the payload is the text they quote.\<close>

datatype gtid_error =
    InvalidSID string
  | InvalidSIDHex string
  | InvalidGTID string
  | InvalidSequence string
  | InvalidInterval string
  | IntervalStartNotPositive string
  | ExpectedUuidInterval string
  | InvalidDomain string
  | InvalidServer string
  | UnknownFlavor string
  | CannotReadNSIDs
  | CannotReadSID nat
  | CannotReadNIntervals nat
  | CannotReadStart nat nat
  | CannotReadEnd nat nat

text \<open>The entries of a possibly nil map: reading a nil map is reading an empty one.\<close>

definition entries :: "('k, 'v) gomap option \<Rightarrow> ('k, 'v) gomap" where
  "entries m = (case m of None \<Rightarrow> [] | Some es \<Rightarrow> es)"

lemma entries_simps [simp]: "entries None = []" "entries (Some m) = m"
  by (simp_all add: entries_def)

definition Mysql56FlavorID :: string where "Mysql56FlavorID = ''MySQL56''"
definition MariadbFlavorID :: string where "MariadbFlavorID = ''MariaDB''"
definition FilePosFlavorID :: string where "FilePosFlavorID = ''FilePos''"

lemmas flavor_defs = Mysql56FlavorID_def MariadbFlavorID_def FilePosFlavorID_def

end
