(* ===== verification/Gtid56.thy ===== *)
theory Gtid56
  imports GtidTypes
begin

text \<open>
  MySQL 5.6 GTIDs and GTID sets (\<open>go/mysql/mysql56_gtid.go\<close> and \<open>mysql56_gtid_set.go\<close>): the
  text forms and their parsers, the binary SID block, and the methods of \<open>Mysql56GTIDSet\<close>
  over the interval loops of theory \<open>Intervals\<close>. The abstraction is the set of
  (server, sequence number) pairs of a set.
\<close>

section \<open>Server identifiers and single GTIDs\<close>

definition sid_String :: "sid \<Rightarrow> string" where
  "sid_String sid =
     hexEncode (take 4 sid) @ ''-'' @ hexEncode (take 2 (drop 4 sid)) @ ''-'' @
     hexEncode (take 2 (drop 6 sid)) @ ''-'' @ hexEncode (take 2 (drop 8 sid)) @ ''-'' @
     hexEncode (take 6 (drop 10 sid))"

definition ParseSID :: "string \<Rightarrow> gtid_error + sid" where
  "ParseSID s =
     (if length s \<noteq> 36 \<or> s ! 8 \<noteq> CHR ''-'' \<or> s ! 13 \<noteq> CHR ''-'' \<or> s ! 18 \<noteq> CHR ''-'' \<or> s ! 23 \<noteq> CHR ''-''
      then Inl (InvalidSID s)
      else (let b = take 8 s @ take 4 (drop 9 s) @ take 4 (drop 14 s) @ take 4 (drop 19 s) @ drop 24 s
            in case hexDecode b of None \<Rightarrow> Inl (InvalidSIDHex s) | Some sid \<Rightarrow> Inr sid))"

definition parseMysql56GTID :: "string \<Rightarrow> gtid_error + GTID" where
  "parseMysql56GTID s =
     (case split CHR '':'' s of
        [p0, p1] \<Rightarrow>
          (case ParseSID p0 of Inl e \<Rightarrow> Inl e
           | Inr sid \<Rightarrow>
               (case ParseInt64 p1 of None \<Rightarrow> Inl (InvalidSequence p1)
                | Some seq \<Rightarrow> Inr (Mysql56GTID \<lparr>Server = sid, Sequence = seq\<rparr>)))
      | _ \<Rightarrow> Inl (InvalidGTID s))"

definition m56gtid_String :: "mysql56_gtid \<Rightarrow> string" where
  "m56gtid_String g = sid_String (Server g) @ '':'' @ FormatInt (Sequence g)"

section \<open>The text form of a set\<close>

definition parseInterval :: "string \<Rightarrow> gtid_error + interval" where
  "parseInterval s =
     (case cut CHR ''-'' s of (part0, part1, twoParts) \<Rightarrow>
        (case ParseUint part0 63 of None \<Rightarrow> Inl (InvalidInterval s)
         | Some st \<Rightarrow>
             if st < 1 then Inl (IntervalStartNotPositive s)
             else if twoParts then
               (case ParseUint part1 63 of None \<Rightarrow> Inl (InvalidInterval s)
                | Some en \<Rightarrow> Inr \<lparr>istart = int st, iend = int en\<rparr>)
             else Inr \<lparr>istart = int st, iend = int st\<rparr>))"

text \<open>The inner loop: the intervals after the server id, separated by colons.\<close>

function parse_intervals :: "interval list \<Rightarrow> string \<Rightarrow> gtid_error + interval list" where
  "parse_intervals ivs tail =
     (if tail = [] then Inr ivs
      else (case cut CHR '':'' tail of (head, tail', _) \<Rightarrow>
        (case parseInterval head of Inl e \<Rightarrow> Inl e
         | Inr iv \<Rightarrow>
             if iend iv < istart iv then parse_intervals ivs tail'
             else parse_intervals (ivs @ [iv]) tail')))"
  by pat_completeness auto

termination parse_intervals
  by (relation "measure (\<lambda>(ivs, tail). length tail)") (auto dest!: sym [of "(_, _)" "cut _ _"] dest: cut_shorter)

declare parse_intervals.simps [simp del]

text \<open>One \<open>uuid:interval[:interval]...\<close> group; \<open>s\<close> is the whole input, quoted in errors.\<close>

definition parse_uuid_set ::
  "interval sorter \<Rightarrow> string \<Rightarrow> m56map \<Rightarrow> string \<Rightarrow> gtid_error + m56map" where
  "parse_uuid_set sf s gs uuidSet =
     (case cut CHR '':'' uuidSet of (head, tail, ok) \<Rightarrow>
        if \<not> ok then Inl (ExpectedUuidInterval s)
        else (case ParseSID head of Inl e \<Rightarrow> Inl e
          | Inr sid \<Rightarrow>
              (case parse_intervals [] tail of Inl e \<Rightarrow> Inl e
               | Inr ivs \<Rightarrow>
                   if ivs = [] then Inr gs
                   else (let ivs' = (case map_of gs sid of Some old \<Rightarrow> old @ ivs | None \<Rightarrow> ivs)
                         in Inr (mput sid (sf (\<lambda>a b. istart a < istart b) ivs') gs)))))"

function parse_sets :: "interval sorter \<Rightarrow> string \<Rightarrow> m56map \<Rightarrow> string \<Rightarrow> gtid_error + m56map" where
  "parse_sets sf s gs input =
     (if input = [] then Inr gs
      else (case cut CHR '','' input of (uuidSet0, input', _) \<Rightarrow>
        (let uuidSet = trimSpace uuidSet0 in
         if uuidSet = [] then parse_sets sf s gs input'
         else (case parse_uuid_set sf s gs uuidSet of Inl e \<Rightarrow> Inl e
           | Inr gs' \<Rightarrow> parse_sets sf s gs' input'))))"
  by pat_completeness auto

termination parse_sets
  by (relation "measure (\<lambda>(sf, s, gs, input). length input)")
    (auto dest!: sym [of "(_, _)" "cut _ _"] dest: cut_shorter)

declare parse_sets.simps [simp del]

definition ParseMysql56GTIDSet :: "interval sorter \<Rightarrow> string \<Rightarrow> gtid_error + m56map" where
  "ParseMysql56GTIDSet sf s = parse_sets sf s [] s"

definition m56_SIDs :: "sid sorter \<Rightarrow> m56map option \<Rightarrow> sid list" where
  "m56_SIDs sfs gs = sfs bytes_less (map fst (entries gs))"

definition ivs_of :: "m56map option \<Rightarrow> sid \<Rightarrow> interval list" where
  "ivs_of gs sid = (case map_of (entries gs) sid of None \<Rightarrow> [] | Some ivs \<Rightarrow> ivs)"

definition iv_String :: "interval \<Rightarrow> string" where
  "iv_String iv =
     FormatInt (istart iv) @ (if iend iv \<noteq> istart iv then CHR ''-'' # FormatInt (iend iv) else [])"

definition sid_ivs_String :: "m56map option \<Rightarrow> sid \<Rightarrow> string" where
  "sid_ivs_String gs sid = sid_String sid @ concat (map (\<lambda>iv. CHR '':'' # iv_String iv) (ivs_of gs sid))"

definition m56_String :: "sid sorter \<Rightarrow> m56map option \<Rightarrow> string" where
  "m56_String sfs gs = join CHR '','' (map (sid_ivs_String gs) (m56_SIDs sfs gs))"

definition m56_Last :: "sid sorter \<Rightarrow> m56map option \<Rightarrow> string" where
  "m56_Last sfs gs =
     (if length (m56_SIDs sfs gs) > 0 then
        (let sid = last (m56_SIDs sfs gs); sequences = ivs_of gs sid in
         sid_String sid @ (if length sequences > 0 then CHR '':'' # FormatInt (iend (last sequences)) else []))
      else [])"

section \<open>The methods of a set\<close>

definition m56_ContainsGTID :: "m56map option \<Rightarrow> GTID option \<Rightarrow> bool" where
  "m56_ContainsGTID gs gtid =
     (case gtid of
        Some (Mysql56GTID g) \<Rightarrow> contains_seq (ivs_of gs (Server g)) (Sequence g)
      | _ \<Rightarrow> False)"

definition m56_Contains :: "m56map option \<Rightarrow> GTIDSet option \<Rightarrow> bool" where
  "m56_Contains gs other =
     (case other of
        Some (Mysql56GTIDSet other56) \<Rightarrow>
          list_all (\<lambda>(sid, otherIntervals). covers (ivs_of gs sid) otherIntervals) (entries other56)
      | _ \<Rightarrow> False)"

definition m56_Equal :: "m56map option \<Rightarrow> GTIDSet option \<Rightarrow> bool" where
  "m56_Equal gs other =
     (case other of
        Some (Mysql56GTIDSet other56) \<Rightarrow>
          length (entries gs) = length (entries other56) \<and>
          list_all (\<lambda>(sid, intervals).
            length intervals = length (ivs_of other56 sid) \<and> eq_ivs intervals (ivs_of other56 sid)) (entries gs)
      | _ \<Rightarrow> False)"

text \<open>
  \<open>AddGTID\<close>: the loop over the entries copies them, except those of the GTID's server; the
  flag \<open>added\<close> is shared by all rounds.
\<close>

fun add_entries :: "sid \<Rightarrow> int \<Rightarrow> bool \<Rightarrow> m56map \<Rightarrow> m56map \<Rightarrow> bool \<times> m56map" where
  "add_entries server q added newSet [] = (added, newSet)"
| "add_entries server q added newSet ((sid, intervals) # es) =
     (if sid = server then
        (case add_loop q added [] intervals of
           (added', newIntervals) \<Rightarrow> add_entries server q added' (mput sid newIntervals newSet) es)
      else add_entries server q added (mput sid intervals newSet) es)"

definition m56_AddGTID :: "m56map option \<Rightarrow> GTID option \<Rightarrow> m56map option" where
  "m56_AddGTID gs gtid =
     (case gtid of
        Some (Mysql56GTID g) \<Rightarrow>
          if m56_ContainsGTID gs gtid then gs
          else (case add_entries (Server g) (Sequence g) False [] (entries gs) of
            (added, newSet) \<Rightarrow>
              if \<not> added then
                Some (mput (Server g)
                  (ivs_of (Some newSet) (Server g) @ [\<lparr>istart = Sequence g, iend = Sequence g\<rparr>]) newSet)
              else Some newSet)
      | _ \<Rightarrow> gs)"

definition m56gtid_GTIDSet :: "mysql56_gtid \<Rightarrow> GTIDSet" where
  "m56gtid_GTIDSet g = Mysql56GTIDSet (m56_AddGTID (Some []) (Some (Mysql56GTID g)))"

fun intersect_entries :: "m56map \<Rightarrow> m56map \<Rightarrow> m56map \<Rightarrow> m56map" where
  "intersect_entries other newSet [] = newSet"
| "intersect_entries other newSet ((sid, intervals) # es) =
     (case map_of other sid of
        None \<Rightarrow> intersect_entries other newSet es
      | Some otherIntervals \<Rightarrow>
          (let ivs = intersect_loop intervals otherIntervals in
           intersect_entries other (if length ivs > 0 then mput sid ivs newSet else newSet) es))"

definition m56_Intersect :: "m56map option \<Rightarrow> GTIDSet option \<Rightarrow> m56map option" where
  "m56_Intersect gs other =
     (if gs = None \<or> other = None then Some []
      else (case other of
        Some (Mysql56GTIDSet mydbOther) \<Rightarrow> Some (intersect_entries (entries mydbOther) [] (entries gs))
      | _ \<Rightarrow> Some []))"

fun merge_entries :: "m56map \<Rightarrow> m56map \<Rightarrow> m56map \<Rightarrow> m56map" where
  "merge_entries other newSet [] = newSet"
| "merge_entries other newSet ((sid, intervals) # es) =
     (case map_of other sid of
        None \<Rightarrow> merge_entries other (mput sid intervals newSet) es
      | Some otherIntervals \<Rightarrow> merge_entries other (mput sid (merge_loop intervals otherIntervals) newSet) es)"

definition m56_Merge :: "m56map option \<Rightarrow> GTIDSet option \<Rightarrow> GTIDSet option" where
  "m56_Merge gs other =
     (if gs = None then None
      else if other = None then Some (Mysql56GTIDSet gs)
      else (case other of
        Some (Mysql56GTIDSet mydbOther) \<Rightarrow>
          Some (Mysql56GTIDSet (Some (merge_entries (entries mydbOther) [] (entries gs))))
      | _ \<Rightarrow> Some (Mysql56GTIDSet gs)))"

text \<open>\<open>TrimGTIDSet\<close> reads the last interval of the receiver's list: a panic if there is none.\<close>

fun trim_entries :: "m56map option \<Rightarrow> m56map \<Rightarrow> m56map \<Rightarrow> m56map outcome" where
  "trim_entries gs newSet [] = Ret newSet"
| "trim_entries gs newSet ((otherSID, otherIntervals) # es) =
     (case map_of (entries gs) otherSID of
        None \<Rightarrow> trim_entries gs newSet es
      | Some intervals \<Rightarrow>
          if intervals = [] then Panic
          else trim_entries gs (mput otherSID (trim_loop (iend (last intervals)) otherIntervals) newSet) es)"

definition m56_TrimGTIDSet :: "m56map option \<Rightarrow> GTIDSet option \<Rightarrow> GTIDSet option outcome" where
  "m56_TrimGTIDSet gs other =
     (if gs = None \<or> other = None then Ret None
      else (case other of
        Some (Mysql56GTIDSet mydbOther) \<Rightarrow>
          obind (trim_entries gs [] (entries mydbOther)) (\<lambda>m. Ret (Some (Mysql56GTIDSet (Some m))))
      | _ \<Rightarrow> Ret None))"

fun union_entries :: "m56map option \<Rightarrow> m56map \<Rightarrow> m56map \<Rightarrow> m56map" where
  "union_entries gs newSet [] = newSet"
| "union_entries gs newSet ((otherSID, otherIntervals) # es) =
     (case map_of (entries gs) otherSID of
        None \<Rightarrow> union_entries gs (mput otherSID otherIntervals newSet) es
      | Some intervals \<Rightarrow> union_entries gs (mput otherSID (union_loop [] intervals otherIntervals) newSet) es)"

fun union_rest :: "m56map \<Rightarrow> m56map \<Rightarrow> m56map" where
  "union_rest newSet [] = newSet"
| "union_rest newSet ((sid, intervals) # es) =
     union_rest (if map_of newSet sid = None then mput sid intervals newSet else newSet) es"

definition m56_Union :: "m56map option \<Rightarrow> GTIDSet option \<Rightarrow> GTIDSet option" where
  "m56_Union gs other =
     (if gs = None \<and> other \<noteq> None then other
      else if gs = None \<or> other = None then Some (Mysql56GTIDSet gs)
      else (case other of
        Some (Mysql56GTIDSet mydbOther) \<Rightarrow>
          Some (Mysql56GTIDSet (Some (union_rest (union_entries gs [] (entries mydbOther)) (entries gs))))
      | _ \<Rightarrow> Some (Mysql56GTIDSet gs)))"

text \<open>\<open>Difference\<close> for the intervals of one server that both sets list.\<close>

definition diff_ivs :: "interval list \<Rightarrow> interval list \<Rightarrow> interval list option outcome" where
  "diff_ivs intervals otherIntervals =
     (case intervals of
        [] \<Rightarrow> Ret None
      | iv # rest \<Rightarrow>
          (case otherIntervals of
             [] \<Rightarrow> Ret (Some rest)
           | p # others \<Rightarrow>
               obind (diff_loop [iv] rest p others) (\<lambda>(diffIntervals, rest').
                 (let ds = (if length rest' \<noteq> 0 then diffIntervals @ rest' else diffIntervals)
                  in Ret (if length ds = 0 then None else Some ds)))))"

fun difference_entries :: "m56map \<Rightarrow> m56map \<Rightarrow> m56map \<Rightarrow> m56map outcome" where
  "difference_entries other newSet [] = Ret newSet"
| "difference_entries other newSet ((sid, intervals) # es) =
     (case map_of other sid of
        None \<Rightarrow> difference_entries other (mput sid intervals newSet) es
      | Some otherIntervals \<Rightarrow>
          obind (diff_ivs intervals otherIntervals) (\<lambda>r.
            difference_entries other
              (case r of None \<Rightarrow> mdel sid newSet | Some ds \<Rightarrow> mput sid ds newSet) es))"

definition m56_Difference :: "m56map option \<Rightarrow> m56map option \<Rightarrow> m56map option outcome" where
  "m56_Difference gs other =
     (if other = None \<or> gs = None then Ret gs
      else obind (difference_entries (entries other) [] (entries gs)) (\<lambda>m. Ret (Some m)))"

definition Subtract :: "interval sorter \<Rightarrow> sid sorter \<Rightarrow> string \<Rightarrow> string \<Rightarrow> (gtid_error + string) outcome" where
  "Subtract sf sfs lhs rhs =
     (case ParseMysql56GTIDSet sf lhs of Inl e \<Rightarrow> Ret (Inl e)
      | Inr lhsSet \<Rightarrow>
          (case ParseMysql56GTIDSet sf rhs of Inl e \<Rightarrow> Ret (Inl e)
           | Inr rhsSet \<Rightarrow>
               obind (m56_Difference (Some lhsSet) (Some rhsSet)) (\<lambda>d. Ret (Inr (m56_String sfs d)))))"

section \<open>The binary SID block\<close>

definition ivs_block :: "interval list \<Rightarrow> byte list" where
  "ivs_block ivs =
     concat (map (\<lambda>iv. le_enc 8 (u64_of_int (istart iv)) @ le_enc 8 (u64_of_int (add64 (iend iv) 1))) ivs)"

definition sid_block :: "m56map option \<Rightarrow> sid \<Rightarrow> byte list" where
  "sid_block gs sid = sid @ le_enc 8 (length (ivs_of gs sid) mod 18446744073709551616) @ ivs_block (ivs_of gs sid)"

definition m56_SIDBlock :: "sid sorter \<Rightarrow> m56map option \<Rightarrow> byte list" where
  "m56_SIDBlock sfs gs =
     le_enc 8 (length (entries gs) mod 18446744073709551616) @ concat (map (sid_block gs) (m56_SIDs sfs gs))"

text \<open>\<open>binary.Read\<close> of eight bytes fails unless all of them are there.\<close>

definition read_u64 :: "byte list \<Rightarrow> (nat \<times> byte list) option" where
  "read_u64 buf = (if length buf < 8 then None else Some (le_dec (take 8 buf), drop 8 buf))"

text \<open>The loops count from \<open>i\<close> (and \<open>j\<close>) up; \<open>k\<close> rounds are left.\<close>

fun read_ivs :: "nat \<Rightarrow> sid \<Rightarrow> nat \<Rightarrow> nat \<Rightarrow> m56map \<Rightarrow> byte list \<Rightarrow> gtid_error + (m56map \<times> byte list)" where
  "read_ivs i sid j 0 gs buf = Inr (gs, buf)"
| "read_ivs i sid j (Suc k) gs buf =
     (case read_u64 buf of None \<Rightarrow> Inl (CannotReadStart i j)
      | Some (st, buf1) \<Rightarrow>
          (case read_u64 buf1 of None \<Rightarrow> Inl (CannotReadEnd i j)
           | Some (en, buf2) \<Rightarrow>
               read_ivs i sid (Suc j) k
                 (mput sid (ivs_of (Some gs) sid @ [\<lparr>istart = wrap64 (int st), iend = wrap64 (int en - 1)\<rparr>]) gs)
                 buf2))"

fun read_sids :: "nat \<Rightarrow> nat \<Rightarrow> m56map \<Rightarrow> byte list \<Rightarrow> gtid_error + m56map" where
  "read_sids i 0 gs buf = Inr gs"
| "read_sids i (Suc k) gs buf =
     (if length buf < 16 then Inl (CannotReadSID i)
      else (let sid = take 16 buf; buf1 = drop 16 buf in
        (case read_u64 buf1 of None \<Rightarrow> Inl (CannotReadNIntervals i)
         | Some (nIntervals, buf2) \<Rightarrow>
             (case read_ivs i sid 0 nIntervals gs buf2 of Inl e \<Rightarrow> Inl e
              | Inr (gs', buf3) \<Rightarrow> read_sids (Suc i) k gs' buf3))))"

definition NewMysql56GTIDSetFromSIDBlock :: "byte list \<Rightarrow> gtid_error + m56map" where
  "NewMysql56GTIDSetFromSIDBlock data =
     (case read_u64 data of None \<Rightarrow> Inl CannotReadNSIDs
      | Some (nSIDs, buf) \<Rightarrow> read_sids 0 nSIDs [] buf)"

section \<open>Well-formed sets and what they denote\<close>

definition m56_set :: "m56map option \<Rightarrow> (sid \<times> int) set" where
  "m56_set gs = {(sid, q). q \<in> ivs_set (ivs_of gs sid)}"

definition wf56 :: "m56map option \<Rightarrow> bool" where
  "wf56 gs \<longleftrightarrow> wf_map (entries gs) \<and> list_all (\<lambda>(sid, ivs). length sid = 16 \<and> normal ivs) (entries gs)"

text \<open>No server is listed without an interval.\<close>

definition no_empty :: "m56map option \<Rightarrow> bool" where
  "no_empty gs \<longleftrightarrow> list_all (\<lambda>(sid, ivs). ivs \<noteq> []) (entries gs)"

lemma mem_m56_set: "(sid, q) \<in> m56_set gs \<longleftrightarrow> q \<in> ivs_set (ivs_of gs sid)"
  by (simp add: m56_set_def)

lemma m56_set_eqI: "(\<And>sid. ivs_set (ivs_of a sid) = ivs_set (ivs_of b sid)) \<Longrightarrow> m56_set a = m56_set b"
  by (auto simp: m56_set_def)

lemma ivs_of_Some [simp]: "ivs_of (Some (mput k v m)) sid = (if sid = k then v else ivs_of (Some m) sid)"
  by (simp add: ivs_of_def)

lemma ivs_of_map_of: "map_of (entries gs) sid = Some ivs \<Longrightarrow> ivs_of gs sid = ivs"
  by (simp add: ivs_of_def)

lemma ivs_of_None: "map_of (entries gs) sid = None \<Longrightarrow> ivs_of gs sid = []"
  by (simp add: ivs_of_def)

lemma wf56_wf_map: "wf56 gs \<Longrightarrow> wf_map (entries gs)"
  by (simp add: wf56_def)

lemma wf56_entry: "wf56 gs \<Longrightarrow> (sid, ivs) \<in> set (entries gs) \<Longrightarrow> length sid = 16 \<and> normal ivs \<and> ivs_of gs sid = ivs"
  by (auto simp: wf56_def list_all_iff wf_map_mem [symmetric] ivs_of_def)

lemma wf56_normal: "wf56 gs \<Longrightarrow> normal (ivs_of gs sid)"
  by (auto simp: ivs_of_def wf56_def list_all_iff split: option.splits dest!: map_of_SomeD)

lemma wf56_mput:
  "wf56 (Some m) \<Longrightarrow> length sid = 16 \<Longrightarrow> normal ivs \<Longrightarrow> wf56 (Some (mput sid ivs m))"
proof -
  have "list_all P (mput k v m')" if "list_all P m'" "P (k, v)" for P and k :: sid and v :: "interval list" and m'
    using that by (induction k v m' rule: mput.induct) auto
  then show "wf56 (Some m) \<Longrightarrow> length sid = 16 \<Longrightarrow> normal ivs \<Longrightarrow> wf56 (Some (mput sid ivs m))"
    by (simp add: wf56_def)
qed

lemma wf56_mdel: "wf56 (Some m) \<Longrightarrow> wf56 (Some (mdel sid m))"
proof -
  have "list_all P (mdel k m')" if "list_all P m'" for P and k :: sid and m' :: m56map
    using that by (induction k m' rule: mdel.induct) auto
  then show "wf56 (Some m) \<Longrightarrow> wf56 (Some (mdel sid m))" by (simp add: wf56_def)
qed

lemma wf56_empty [simp]: "wf56 (Some [])" "wf56 None"
  by (simp_all add: wf56_def)

lemma wf56_Cons:
  "wf56 (Some ((sid, ivs) # es)) \<longleftrightarrow> length sid = 16 \<and> normal ivs \<and> map_of es sid = None \<and> wf56 (Some es)"
  by (auto simp: wf56_def wf_map_def map_of_eq_None_iff)

lemma wf56_lookup: "wf56 gs \<Longrightarrow> map_of (entries gs) sid = Some ivs \<Longrightarrow> length sid = 16 \<and> normal ivs"
  by (auto simp: wf56_def list_all_iff dest!: map_of_SomeD)

section \<open>Membership, inclusion and equality\<close>

lemma m56_ContainsGTID_iff:
  "wf56 gs \<Longrightarrow> m56_ContainsGTID gs (Some (Mysql56GTID g)) \<longleftrightarrow> (Server g, Sequence g) \<in> m56_set gs"
  by (simp add: m56_ContainsGTID_def mem_m56_set contains_seq_iff normal_sorted wf56_normal)

lemma m56_Contains_iff:
  assumes "wf56 a" "wf56 b"
  shows "m56_Contains a (Some (Mysql56GTIDSet b)) \<longleftrightarrow> m56_set b \<subseteq> m56_set a"
proof -
  have "m56_Contains a (Some (Mysql56GTIDSet b)) \<longleftrightarrow>
      (\<forall>(sid, ivs)\<in>set (entries b). ivs_set ivs \<subseteq> ivs_set (ivs_of a sid))"
  proof -
    have "covers (ivs_of a sid) ivs \<longleftrightarrow> ivs_set ivs \<subseteq> ivs_set (ivs_of a sid)"
      if "(sid, ivs) \<in> set (entries b)" for sid ivs
      using wf56_entry [OF assms(2) that] wf56_normal [OF assms(1)] by (simp add: covers_iff)
    then show ?thesis by (auto simp: m56_Contains_def list_all_iff intro!: ball_cong)
  qed
  also have "\<dots> \<longleftrightarrow> (\<forall>sid. ivs_set (ivs_of b sid) \<subseteq> ivs_set (ivs_of a sid))"
  proof
    assume *: "\<forall>(sid, ivs)\<in>set (entries b). ivs_set ivs \<subseteq> ivs_set (ivs_of a sid)"
    show "\<forall>sid. ivs_set (ivs_of b sid) \<subseteq> ivs_set (ivs_of a sid)"
    proof
      fix sid
      show "ivs_set (ivs_of b sid) \<subseteq> ivs_set (ivs_of a sid)"
        using * by (cases "map_of (entries b) sid") (auto simp: ivs_of_def dest: map_of_SomeD)
    qed
  next
    assume "\<forall>sid. ivs_set (ivs_of b sid) \<subseteq> ivs_set (ivs_of a sid)"
    then show "\<forall>(sid, ivs)\<in>set (entries b). ivs_set ivs \<subseteq> ivs_set (ivs_of a sid)"
      using wf56_entry [OF assms(2)] by fastforce
  qed
  also have "\<dots> \<longleftrightarrow> m56_set b \<subseteq> m56_set a" by (auto simp: m56_set_def)
  finally show ?thesis .
qed

lemma no_empty_dom:
  assumes "wf56 gs" "no_empty gs"
  shows "set (map fst (entries gs)) = fst ` m56_set gs"
proof -
  have "sid \<in> fst ` m56_set gs" if "(sid, ivs) \<in> set (entries gs)" for sid ivs
  proof -
    have "normal ivs" "ivs_of gs sid = ivs" "ivs \<noteq> []"
      using wf56_entry [OF assms(1) that] assms(2) that by (auto simp: no_empty_def list_all_iff)
    then have "(sid, istart (hd ivs)) \<in> m56_set gs"
      by (cases ivs) (auto simp: mem_m56_set wf_iv_nonempty)
    then show ?thesis by force
  qed
  moreover have "sid \<in> fst ` set (entries gs)" if "(sid, q) \<in> m56_set gs" for sid q
    using that by (cases "map_of (entries gs) sid") (auto simp: mem_m56_set ivs_of_def dest!: map_of_SomeD intro: rev_image_eqI)
  ultimately show ?thesis by fastforce
qed

lemma m56_set_ivs_of: "wf56 a \<Longrightarrow> wf56 b \<Longrightarrow> m56_set a = m56_set b \<Longrightarrow> ivs_of a sid = ivs_of b sid"
  by (rule normal_unique) (auto simp: wf56_normal m56_set_def set_eq_iff)

lemma m56_Equal_iff:
  assumes "wf56 a" "wf56 b" "no_empty a" "no_empty b"
  shows "m56_Equal a (Some (Mysql56GTIDSet b)) \<longleftrightarrow> m56_set a = m56_set b"
proof
  assume eq: "m56_set a = m56_set b"
  have "length (entries a) = length (entries b)"
    using wf_map_card [OF wf56_wf_map [OF assms(1)]] wf_map_card [OF wf56_wf_map [OF assms(2)]]
      no_empty_dom [OF assms(1,3)] no_empty_dom [OF assms(2,4)] eq by simp
  then show "m56_Equal a (Some (Mysql56GTIDSet b))"
    using wf56_entry [OF assms(1)] m56_set_ivs_of [OF assms(1,2) eq]
    by (auto simp: m56_Equal_def list_all_iff eq_ivs_iff)
next
  assume "m56_Equal a (Some (Mysql56GTIDSet b))"
  then have len: "length (entries a) = length (entries b)"
    and all: "(sid, ivs) \<in> set (entries a) \<Longrightarrow> ivs_of b sid = ivs" for sid ivs
    by (auto simp: m56_Equal_def list_all_iff eq_ivs_iff)
  have "fst ` set (entries a) \<subseteq> fst ` set (entries b)"
  proof
    fix sid assume "sid \<in> fst ` set (entries a)"
    then obtain ivs where i: "(sid, ivs) \<in> set (entries a)" by auto
    then have "ivs \<noteq> []" using assms(3) by (auto simp: no_empty_def list_all_iff)
    with all [OF i] show "sid \<in> fst ` set (entries b)"
      by (cases "map_of (entries b) sid") (auto simp: ivs_of_def dest!: map_of_SomeD intro: rev_image_eqI)
  qed
  then have dom: "fst ` set (entries a) = fst ` set (entries b)"
    using len assms(1,2) by (intro card_subset_eq) (simp_all add: wf56_wf_map wf_map_card)
  have "ivs_of a sid = ivs_of b sid" for sid
  proof (cases "map_of (entries a) sid")
    case None
    then have "map_of (entries b) sid = None" using dom by (simp add: map_of_eq_None_iff)
    with None show ?thesis by (simp add: ivs_of_def)
  next
    case (Some ivs)
    with all [of sid ivs] show ?thesis by (auto simp: ivs_of_def dest: map_of_SomeD)
  qed
  then show "m56_set a = m56_set b" by (simp add: m56_set_def)
qed

lemma wf56_alt:
  "wf56 (Some m) \<longleftrightarrow> wf_map m \<and> (\<forall>sid ivs. map_of m sid = Some ivs \<longrightarrow> length sid = 16 \<and> normal ivs)"
  by (auto simp: wf56_def list_all_iff wf_map_mem)

lemma no_empty_alt: "wf_map m \<Longrightarrow> no_empty (Some m) \<longleftrightarrow> (\<forall>sid ivs. map_of m sid = Some ivs \<longrightarrow> ivs \<noteq> [])"
  by (auto simp: no_empty_def list_all_iff wf_map_mem)

section \<open>AddGTID\<close>

lemma add_entries_get:
  assumes "wf_map es" "wf_map new"
  shows "fst (add_entries server q added new es) =
      (case map_of es server of None \<Rightarrow> added | Some ivs \<Rightarrow> fst (add_loop q added [] ivs))"
    and "map_of (snd (add_entries server q added new es)) k =
      (case map_of es k of None \<Rightarrow> map_of new k
       | Some ivs \<Rightarrow> Some (if k = server then snd (add_loop q added [] ivs) else ivs))"
    and "wf_map (snd (add_entries server q added new es))"
  using assms
  by (induction server q added new es rule: add_entries.induct)
    (auto simp: wf_map_Cons split: prod.splits option.splits)

lemma m56_AddGTID_get:
  assumes "wf56 gs" "\<not> m56_ContainsGTID gs (Some (Mysql56GTID g))"
  shows "\<exists>m. m56_AddGTID gs (Some (Mysql56GTID g)) = Some m \<and> wf_map m \<and>
    (\<forall>k. map_of m k = (if k = Server g then Some (add_ivs (Sequence g) (ivs_of gs k)) else map_of (entries gs) k))"
proof -
  obtain added new where r: "add_entries (Server g) (Sequence g) False [] (entries gs) = (added, new)"
    by (cases "add_entries (Server g) (Sequence g) False [] (entries gs)")
  note g = add_entries_get [OF wf56_wf_map [OF assms(1)] wf_map_Nil, where server = "Server g" and q = "Sequence g"
      and added = False, unfolded r]
  show ?thesis
  proof (cases "map_of (entries gs) (Server g)")
    case None
    with g assms(2) r show ?thesis
      by (auto simp: m56_AddGTID_def ivs_of_def add_ivs_def split: option.splits)
  next
    case (Some ivs)
    obtain a l where l: "add_loop (Sequence g) False [] ivs = (a, l)"
      by (cases "add_loop (Sequence g) False [] ivs")
    with Some g assms(2) r show ?thesis
      by (auto simp: m56_AddGTID_def ivs_of_def add_ivs_def split: option.splits)
  qed
qed

lemma m56_AddGTID_correct:
  assumes "wf56 gs" "length (Server g) = 16" "1 \<le> Sequence g" "Sequence g < maxInt64"
  shows "wf56 (m56_AddGTID gs (Some (Mysql56GTID g)))"
    and "m56_set (m56_AddGTID gs (Some (Mysql56GTID g))) = insert (Server g, Sequence g) (m56_set gs)"
proof -
  let ?r = "m56_AddGTID gs (Some (Mysql56GTID g))"
  have "wf56 ?r \<and> m56_set ?r = insert (Server g, Sequence g) (m56_set gs)"
  proof (cases "m56_ContainsGTID gs (Some (Mysql56GTID g))")
    case True
    with assms(1) show ?thesis by (auto simp: m56_AddGTID_def m56_ContainsGTID_iff)
  next
    case False
    then have q: "Sequence g \<notin> ivs_set (ivs_of gs (Server g))"
      using assms(1) by (simp add: m56_ContainsGTID_iff mem_m56_set)
    obtain m where m: "?r = Some m" "wf_map m"
      "\<And>k. map_of m k = (if k = Server g then Some (add_ivs (Sequence g) (ivs_of gs k)) else map_of (entries gs) k)"
      using m56_AddGTID_get [OF assms(1) False] by blast
    note add = add_ivs_correct [OF wf56_normal [OF assms(1)] q assms(3,4)]
    have "wf56 (Some m)"
      using m(2,3) add(1) assms(2) wf56_lookup [OF assms(1)] by (auto simp: wf56_alt split: if_splits)
    moreover have "ivs_of (Some m) k = (if k = Server g then add_ivs (Sequence g) (ivs_of gs k) else ivs_of gs k)" for k
      by (simp add: ivs_of_def m(3))
    then have "m56_set (Some m) = insert (Server g, Sequence g) (m56_set gs)"
      using add(2) by (auto simp: m56_set_def split: if_splits)
    ultimately show ?thesis using m(1) by simp
  qed
  then show "wf56 ?r" "m56_set ?r = insert (Server g, Sequence g) (m56_set gs)" by blast+
qed

lemma AddGTID_no_empty:
  assumes "wf56 gs" "no_empty gs" "length (Server g) = 16" "1 \<le> Sequence g" "Sequence g < maxInt64"
  shows "no_empty (m56_AddGTID gs (Some (Mysql56GTID g)))"
proof (cases "m56_ContainsGTID gs (Some (Mysql56GTID g))")
  case True
  with assms(2) show ?thesis by (simp add: m56_AddGTID_def)
next
  case False
  then have q: "Sequence g \<notin> ivs_set (ivs_of gs (Server g))"
    using assms(1) by (simp add: m56_ContainsGTID_iff mem_m56_set)
  obtain m where m: "m56_AddGTID gs (Some (Mysql56GTID g)) = Some m" "wf_map m"
      "\<And>k. map_of m k = (if k = Server g then Some (add_ivs (Sequence g) (ivs_of gs k)) else map_of (entries gs) k)"
    using m56_AddGTID_get [OF assms(1) False] by blast
  have "add_ivs (Sequence g) (ivs_of gs (Server g)) \<noteq> []"
    using add_ivs_correct(2) [OF wf56_normal [OF assms(1)] q assms(4,5)] by auto
  moreover have "no_empty (Some (entries gs))" using assms(2) by (simp add: no_empty_def)
  then have "ivs \<noteq> []" if "map_of (entries gs) k = Some ivs" for k ivs
    using that no_empty_alt [OF wf56_wf_map [OF assms(1)]] by blast
  ultimately show ?thesis using m by (auto simp: no_empty_alt split: if_splits)
qed

section \<open>Intersect, Union, TrimGTIDSet, Difference\<close>

lemma intersect_entries_get:
  assumes "wf_map es" "wf_map new"
  shows "map_of (intersect_entries other new es) k =
      (case map_of es k of None \<Rightarrow> map_of new k
       | Some ivs \<Rightarrow> (case map_of other k of None \<Rightarrow> map_of new k
           | Some os \<Rightarrow> if intersect_loop ivs os = [] then map_of new k else Some (intersect_loop ivs os)))"
    and "wf_map (intersect_entries other new es)"
  using assms
  by (induction es arbitrary: new) (auto simp: wf_map_Cons Let_def split: option.splits)

lemma m56_Intersect_correct:
  assumes "wf56 (Some a)" "wf56 (Some b)"
  shows "\<exists>m. m56_Intersect (Some a) (Some (Mysql56GTIDSet (Some b))) = Some m \<and> wf56 (Some m) \<and> no_empty (Some m) \<and>
    m56_set (Some m) = m56_set (Some a) \<inter> m56_set (Some b)"
proof -
  let ?m = "intersect_entries b [] a"
  note g = intersect_entries_get [of a "[]" b, OF wf56_wf_map [OF assms(1), simplified] wf_map_Nil]
  have "normal (intersect_loop ivs os)" if "map_of a k = Some ivs" "map_of b k = Some os" for k ivs os
    using that wf56_lookup [OF assms(1)] wf56_lookup [OF assms(2)] by (simp add: intersect_loop_normal)
  then have "wf56 (Some ?m)"
    using g wf56_lookup [OF assms(1)] by (auto simp: wf56_alt split: option.splits if_splits)
  moreover have "no_empty (Some ?m)"
    using g by (auto simp: no_empty_alt split: option.splits if_splits)
  moreover have "ivs_set (ivs_of (Some ?m) k) = ivs_set (ivs_of (Some a) k) \<inter> ivs_set (ivs_of (Some b) k)" for k
  proof -
    have "ivs_of (Some ?m) k = (case map_of a k of None \<Rightarrow> [] | Some ivs \<Rightarrow>
        (case map_of b k of None \<Rightarrow> [] | Some os \<Rightarrow> intersect_loop ivs os))"
      using g(1) by (auto simp: ivs_of_def split: option.splits)
    then show ?thesis
      using wf56_lookup [OF assms(1)] wf56_lookup [OF assms(2)]
      by (auto simp: ivs_of_def intersect_loop_set split: option.splits)
  qed
  ultimately show ?thesis by (auto simp: m56_Intersect_def m56_set_def)
qed

lemma union_entries_get:
  assumes "wf_map es" "wf_map new"
  shows "map_of (union_entries gs new es) k =
      (case map_of es k of None \<Rightarrow> map_of new k
       | Some os \<Rightarrow> Some (case map_of (entries gs) k of None \<Rightarrow> os | Some ivs \<Rightarrow> union_loop [] ivs os))"
    and "wf_map (union_entries gs new es)"
  using assms
  by (induction gs new es rule: union_entries.induct) (auto simp: wf_map_Cons split: option.splits)

lemma union_rest_get:
  assumes "wf_map es" "wf_map new"
  shows "map_of (union_rest new es) k = (case map_of new k of None \<Rightarrow> map_of es k | Some ivs \<Rightarrow> Some ivs)"
    and "wf_map (union_rest new es)"
  using assms
  by (induction new es rule: union_rest.induct) (auto simp: wf_map_Cons split: option.splits)

lemma m56_Union_correct:
  assumes "wf56 (Some a)" "wf56 (Some b)"
  shows "\<exists>m. m56_Union (Some a) (Some (Mysql56GTIDSet (Some b))) = Some (Mysql56GTIDSet (Some m)) \<and> wf56 (Some m) \<and>
    m56_set (Some m) = m56_set (Some a) \<union> m56_set (Some b) \<and>
    (\<forall>k. map_of m k = None \<longleftrightarrow> map_of a k = None \<and> map_of b k = None)"
proof -
  let ?n = "union_entries (Some a) [] b" and ?m = "union_rest (union_entries (Some a) [] b) a"
  note wf = wf56_wf_map [OF assms(1), simplified] wf56_wf_map [OF assms(2), simplified]
  note n = union_entries_get [OF wf(2) wf_map_Nil, of "Some a"]
  note m = union_rest_get [OF wf(1) n(2)]
  have get: "map_of ?m k = (case map_of b k of None \<Rightarrow> map_of a k
      | Some os \<Rightarrow> Some (case map_of a k of None \<Rightarrow> os | Some ivs \<Rightarrow> union_loop [] ivs os))" for k
    using m(1) n(1) by (simp split: option.splits)
  have "normal (union_loop [] ivs os)" if "map_of a k = Some ivs" "map_of b k = Some os" for k ivs os
    using that wf56_lookup [OF assms(1)] wf56_lookup [OF assms(2)] by (simp add: union_ivs_correct)
  then have "wf56 (Some ?m)"
    using get m(2) wf56_lookup [OF assms(1)] wf56_lookup [OF assms(2)]
    by (auto simp: wf56_alt split: option.splits)
  moreover have "ivs_set (ivs_of (Some ?m) k) = ivs_set (ivs_of (Some a) k) \<union> ivs_set (ivs_of (Some b) k)" for k
    using wf56_lookup [OF assms(1)] wf56_lookup [OF assms(2)]
    by (auto simp: ivs_of_def get union_ivs_correct split: option.splits)
  moreover have "map_of ?m k = None \<longleftrightarrow> map_of a k = None \<and> map_of b k = None" for k
    using get by (simp split: option.splits)
  ultimately show ?thesis by (auto simp: m56_Union_def m56_set_def)
qed

text \<open>Where a lookup in the result of the \<open>TrimGTIDSet\<close> and \<open>Difference\<close> loops comes from.\<close>

definition trim_get :: "m56map option \<Rightarrow> m56map \<Rightarrow> m56map \<Rightarrow> sid \<Rightarrow> interval list option" where
  "trim_get gs new es k =
     (case map_of es k of None \<Rightarrow> map_of new k
      | Some os \<Rightarrow> (case map_of (entries gs) k of None \<Rightarrow> map_of new k
          | Some ivs \<Rightarrow> Some (trim_loop (iend (last ivs)) os)))"

definition diff_get :: "m56map \<Rightarrow> m56map \<Rightarrow> m56map \<Rightarrow> sid \<Rightarrow> interval list option" where
  "diff_get other new es k =
     (case map_of es k of None \<Rightarrow> map_of new k
      | Some ivs \<Rightarrow> (case map_of other k of None \<Rightarrow> Some ivs
          | Some os \<Rightarrow> (case diff_ivs ivs os of Ret r \<Rightarrow> r | Panic \<Rightarrow> None)))"

lemma trim_entries_get:
  assumes "wf_map es" "wf_map new" "\<And>k ivs. map_of (entries gs) k = Some ivs \<Longrightarrow> ivs \<noteq> []"
  shows "\<exists>m. trim_entries gs new es = Ret m \<and> wf_map m \<and> (\<forall>k. map_of m k = trim_get gs new es k)"
  using assms
proof (induction es arbitrary: new)
  case Nil
  then show ?case by (simp add: trim_get_def)
next
  case (Cons e es)
  obtain k os where e: "e = (k, os)" by (cases e)
  have es: "wf_map es" "map_of es k = None" using Cons.prems(1) e by (simp_all add: wf_map_Cons)
  show ?case
  proof (cases "map_of (entries gs) k")
    case None
    then have "trim_get gs new (e # es) = trim_get gs new es"
      using e es by (auto simp: trim_get_def fun_eq_iff split: option.split)
    with Cons.IH [OF es(1) Cons.prems(2,3)] None e show ?thesis by simp
  next
    case (Some ivs)
    with Cons.prems(3) have ne: "ivs \<noteq> []" by blast
    let ?new = "mput k (trim_loop (iend (last ivs)) os) new"
    have "trim_get gs new (e # es) = trim_get gs ?new es"
      using e es Some by (auto simp: trim_get_def fun_eq_iff split: option.split)
    with Cons.IH [OF es(1), of ?new] Cons.prems(2,3) Some ne e show ?thesis by simp
  qed
qed

text \<open>The last sequence number a set has seen from a server.\<close>

definition last_seen :: "m56map option \<Rightarrow> sid \<Rightarrow> int" where
  "last_seen gs sid = iend (last (ivs_of gs sid))"

lemma m56_Trim_correct:
  assumes "wf56 (Some a)" "no_empty (Some a)" "wf56 (Some b)"
  shows "\<exists>m. m56_TrimGTIDSet (Some a) (Some (Mysql56GTIDSet (Some b))) = Ret (Some (Mysql56GTIDSet (Some m))) \<and>
    wf56 (Some m) \<and>
    m56_set (Some m) = {(sid, q) \<in> m56_set (Some b). map_of a sid \<noteq> None \<and> q \<le> last_seen (Some a) sid} \<and>
    (\<forall>k. map_of m k = None \<longleftrightarrow> map_of a k = None \<or> map_of b k = None)"
proof -
  have ne: "\<And>k ivs. map_of (entries (Some a)) k = Some ivs \<Longrightarrow> ivs \<noteq> []"
    using assms(1,2) no_empty_alt [of a] by (auto simp: wf56_wf_map [of "Some a", simplified])
  obtain m where m: "trim_entries (Some a) [] b = Ret m" "wf_map m" and
    get: "\<And>k. map_of m k = trim_get (Some a) [] b k"
    using trim_entries_get [where gs = "Some a", OF wf56_wf_map [OF assms(3), simplified] wf_map_Nil] ne by blast
  have "wf56 (Some m)"
    using m(2) wf56_lookup [OF assms(3)] trim_loop_correct
    by (auto simp: wf56_alt get trim_get_def split: option.splits)
  moreover have "ivs_set (ivs_of (Some m) k) =
      {q \<in> ivs_set (ivs_of (Some b) k). map_of a k \<noteq> None \<and> q \<le> last_seen (Some a) k}" for k
    using wf56_lookup [OF assms(3)] trim_loop_correct
    by (auto simp: ivs_of_def get trim_get_def last_seen_def split: option.splits)
  moreover have "map_of m k = None \<longleftrightarrow> map_of a k = None \<or> map_of b k = None" for k
    by (simp add: get trim_get_def split: option.splits)
  ultimately show ?thesis using m(1) by (auto simp: m56_TrimGTIDSet_def m56_set_def)
qed

lemma diff_ivs_correct:
  assumes "normal ivs" "normal os" "os \<noteq> []"
  shows "\<exists>r. diff_ivs ivs os = Ret r \<and> (case r of None \<Rightarrow> ivs_set ivs - ivs_set os = {}
    | Some ds \<Rightarrow> ds \<noteq> [] \<and> normal ds \<and> ivs_set ds = ivs_set ivs - ivs_set os)"
proof (cases ivs)
  case Nil
  then show ?thesis by (simp add: diff_ivs_def)
next
  case (Cons iv rest)
  obtain p others where os: "os = p # others" using assms(3) by (cases os) auto
  have "diff_spec [] iv rest (p # others) (diff_loop ([] @ [iv]) rest p others)"
    using assms Cons os by (intro diff_loop_correct) auto
  then obtain acc rest' where "diff_loop [iv] rest p others = Ret (acc, rest')" "normal (acc @ rest')"
    "ivs_set (acc @ rest') = ivs_set ivs - ivs_set os"
    using Cons os by (auto simp: diff_spec_def split: outcome.splits)
  then show ?thesis using Cons os by (auto simp: diff_ivs_def Let_def)
qed

lemma difference_entries_get:
  assumes "wf_map es" "wf_map new"
    "\<And>k ivs os. map_of es k = Some ivs \<Longrightarrow> map_of other k = Some os \<Longrightarrow> \<exists>r. diff_ivs ivs os = Ret r"
  shows "\<exists>m. difference_entries other new es = Ret m \<and> wf_map m \<and> (\<forall>k. map_of m k = diff_get other new es k)"
  using assms
proof (induction es arbitrary: new)
  case Nil
  then show ?case by (simp add: diff_get_def)
next
  case (Cons e es)
  obtain k ivs where e: "e = (k, ivs)" by (cases e)
  have es: "wf_map es" "map_of es k = None" using Cons.prems(1) e by (simp_all add: wf_map_Cons)
  have d: "\<exists>r. diff_ivs ivs' os = Ret r" if "map_of es l = Some ivs'" "map_of other l = Some os" for l ivs' os
    using Cons.prems(3) [of l ivs' os] that e es(2) by (cases "l = k") auto
  show ?case
  proof (cases "map_of other k")
    case None
    have "diff_get other new (e # es) = diff_get other (mput k ivs new) es"
      using e es None by (auto simp: diff_get_def fun_eq_iff split: option.split)
    with Cons.IH [OF es(1), of "mput k ivs new"] Cons.prems(2) d None e show ?thesis by simp
  next
    case (Some os)
    then obtain r where r: "diff_ivs ivs os = Ret r" using Cons.prems(3) [of k ivs os] e by auto
    define new' where "new' = (case r of None \<Rightarrow> mdel k new | Some ds \<Rightarrow> mput k ds new)"
    have new': "wf_map new'" "map_of new' l = (if l = k then r else map_of new l)" for l
      using Cons.prems(2) by (auto simp: new'_def split: option.splits)
    have "diff_get other new (e # es) = diff_get other new' es"
      using e es Some r by (auto simp: diff_get_def fun_eq_iff new' split: option.split)
    with Cons.IH [OF es(1) new'(1)] d Some r e show ?thesis by (simp add: new'_def)
  qed
qed

lemma m56_Difference_correct:
  assumes "wf56 (Some a)" "wf56 (Some b)" "no_empty (Some b)"
  shows "\<exists>m. m56_Difference (Some a) (Some b) = Ret (Some m) \<and> wf56 (Some m) \<and>
    m56_set (Some m) = m56_set (Some a) - m56_set (Some b)"
proof -
  note wf = wf56_wf_map [OF assms(1), simplified] wf56_wf_map [OF assms(2), simplified]
  have d: "\<exists>r. diff_ivs ivs os = Ret r \<and> (case r of None \<Rightarrow> ivs_set ivs - ivs_set os = {}
      | Some ds \<Rightarrow> ds \<noteq> [] \<and> normal ds \<and> ivs_set ds = ivs_set ivs - ivs_set os)"
    if "map_of a k = Some ivs" "map_of b k = Some os" for k ivs os
    using that wf56_lookup [OF assms(1)] wf56_lookup [OF assms(2)] assms(3) wf(2)
    by (intro diff_ivs_correct) (auto simp: no_empty_alt)
  have "\<exists>r. diff_ivs ivs os = Ret r" if "map_of a k = Some ivs" "map_of b k = Some os" for k ivs os
    using d [OF that] by blast
  then obtain m where m: "difference_entries b [] a = Ret m" "wf_map m" and
    get: "\<And>k. map_of m k = diff_get b [] a k"
    using difference_entries_get [OF wf(1) wf_map_Nil, of b] by blast
  have one: "(case diff_get b [] a k of None \<Rightarrow> ivs_set (ivs_of (Some a) k) - ivs_set (ivs_of (Some b) k) = {}
      | Some ds \<Rightarrow> length k = 16 \<and> normal ds \<and> ivs_set ds = ivs_set (ivs_of (Some a) k) - ivs_set (ivs_of (Some b) k))" for k
  proof (cases "map_of a k")
    case None
    then show ?thesis by (simp add: diff_get_def ivs_of_def)
  next
    case (Some ivs)
    note a = this
    show ?thesis
    proof (cases "map_of b k")
      case None
      with a wf56_lookup [OF assms(1)] show ?thesis by (simp add: diff_get_def ivs_of_def)
    next
      case (Some os)
      from d [OF a Some] obtain r where "diff_ivs ivs os = Ret r" "case r of None \<Rightarrow> ivs_set ivs - ivs_set os = {}
        | Some ds \<Rightarrow> ds \<noteq> [] \<and> normal ds \<and> ivs_set ds = ivs_set ivs - ivs_set os" by blast
      with a Some wf56_lookup [OF assms(1), of k ivs] show ?thesis
        by (simp add: diff_get_def ivs_of_def split: option.splits)
    qed
  qed
  have "length k = 16 \<and> normal ds" if "diff_get b [] a k = Some ds" for k ds
    using one [of k] that by simp
  then have "wf56 (Some m)"
    using m(2) by (simp add: wf56_alt get)
  moreover have "ivs_set (ivs_of (Some m) k) = ivs_set (ivs_of (Some a) k) - ivs_set (ivs_of (Some b) k)" for k
    using one [of k] by (auto simp: ivs_of_def [of "Some m"] get split: option.splits)
  ultimately show ?thesis using m(1) by (auto simp: m56_Difference_def m56_set_def)
qed

section \<open>Merge\<close>

lemma merge_entries_get:
  assumes "wf_map es" "wf_map new"
  shows "map_of (merge_entries other new es) k =
      (case map_of es k of None \<Rightarrow> map_of new k
       | Some ivs \<Rightarrow> Some (case map_of other k of None \<Rightarrow> ivs | Some os \<Rightarrow> merge_loop ivs os))"
  using assms
  by (induction other new es rule: merge_entries.induct) (auto simp: wf_map_Cons map_of_mput wf_map_mput split: option.splits)

lemma m56_Merge_covers:
  assumes "wf56 (Some a)"
  obtains m where "m56_Merge (Some a) (Some (Mysql56GTIDSet b)) = Some (Mysql56GTIDSet (Some m))"
    "m56_set (Some a) \<subseteq> m56_set (Some m)" "\<And>k. map_of m k = None \<longleftrightarrow> map_of a k = None"
proof
  let ?m = "merge_entries (entries b) [] a"
  show "m56_Merge (Some a) (Some (Mysql56GTIDSet b)) = Some (Mysql56GTIDSet (Some ?m))" by (simp add: m56_Merge_def)
  note g = merge_entries_get [OF wf56_wf_map [OF assms, simplified] wf_map_Nil, of "entries b"]
  show "map_of ?m k = None \<longleftrightarrow> map_of a k = None" for k by (simp add: g split: option.splits)
  have "ivs_set (ivs_of (Some a) k) \<subseteq> ivs_set (ivs_of (Some ?m) k)" for k
  proof (cases "map_of a k")
    case (Some ivs)
    then have "normal ivs" using wf56_lookup [OF assms] by simp
    then have "sorted_wrt (\<lambda>a b. istart a \<le> istart b) ivs"
      by (induction ivs) (force simp: wf_iv_def)+
    with Some show ?thesis by (auto simp: ivs_of_def g split: option.splits dest: subsetD [OF merge_loop_covers])
  qed (simp add: ivs_of_def)
  then show "m56_set (Some a) \<subseteq> m56_set (Some ?m)" by (auto simp: m56_set_def)
qed

section \<open>The last sequence number\<close>

lemma normal_last: "normal ivs \<Longrightarrow> ivs \<noteq> [] \<Longrightarrow> iend (last ivs) \<in> ivs_set ivs \<and> (\<forall>q\<in>ivs_set ivs. q \<le> iend (last ivs))"
proof (induction ivs)
  case (Cons iv ivs)
  show ?case
  proof (cases "ivs = []")
    case True
    with Cons.prems show ?thesis by (auto simp: iv_set_def wf_iv_def)
  next
    case False
    then have l: "last ivs \<in> set ivs" by simp
    with Cons.prems have "iend iv + 1 < istart (last ivs)" "istart (last ivs) \<le> iend (last ivs)"
      by (auto dest: normal_wf simp: wf_iv_def)
    then have "q \<le> iend (last ivs)" if "q \<in> iv_set iv" for q using that by (simp add: iv_set_def)
    with Cons.IH Cons.prems False show ?thesis by auto
  qed
qed simp

lemma last_seen_unique:
  assumes "wf56 gs" "ivs_of gs sid \<noteq> []" "(sid, q) \<in> m56_set gs" "\<And>p. (sid, p) \<in> m56_set gs \<Longrightarrow> p \<le> q"
  shows "last_seen gs sid = q"
  using normal_last [OF wf56_normal [OF assms(1)] assms(2)] assms(3,4)
  by (intro antisym) (auto simp: last_seen_def mem_m56_set)

lemma last_seen_mem:
  assumes "wf56 gs" "ivs_of gs sid \<noteq> []"
  shows "(sid, last_seen gs sid) \<in> m56_set gs" "(sid, q) \<in> m56_set gs \<Longrightarrow> q \<le> last_seen gs sid"
  using normal_last [OF wf56_normal [OF assms(1)] assms(2)] by (auto simp: last_seen_def mem_m56_set)

lemma no_empty_iff: "wf56 (Some m) \<Longrightarrow> no_empty (Some m) \<longleftrightarrow> (\<forall>k. map_of m k \<noteq> None \<longrightarrow> ivs_of (Some m) k \<noteq> [])"
  using no_empty_alt [of m] wf56_wf_map [of "Some m"] by (auto simp: ivs_of_def)

section \<open>Properties\<close>

text \<open>Two sets that overlap, used as concrete instances.\<close>

definition sampleA :: m56map where
  "sampleA = [(replicate 16 1, [\<lparr>istart = 1, iend = 3\<rparr>, \<lparr>istart = 5, iend = 6\<rparr>])]"

definition sampleB :: m56map where
  "sampleB = [(replicate 16 1, [\<lparr>istart = 2, iend = 5\<rparr>, \<lparr>istart = 9, iend = 9\<rparr>]), (replicate 16 2, [\<lparr>istart = 1, iend = 1\<rparr>])]"

lemma samples_wf:
  "wf56 (Some sampleA)" "wf56 (Some sampleB)" "no_empty (Some sampleA)" "no_empty (Some sampleB)"
  by (simp_all add: sampleA_def sampleB_def wf56_def no_empty_def wf_map_def wf_iv_def maxInt64_def numeral_eq_Suc)

text \<open>
  C18. On well-formed sets \<open>Contains\<close> decides the superset relation, and \<open>ContainsGTID\<close> membership.
\<close>

theorem Contains_decides_superset:
  assumes "wf56 a" "wf56 b"
  shows "(m56_Contains a (Some (Mysql56GTIDSet b)) \<longleftrightarrow> m56_set b \<subseteq> m56_set a) \<and>
    (m56_ContainsGTID a (Some (Mysql56GTID g)) \<longleftrightarrow> (Server g, Sequence g) \<in> m56_set a)"
  using m56_Contains_iff [OF assms] m56_ContainsGTID_iff [OF assms(1)] by blast

theorem Contains_decides_superset_witness:
  "wf56 (Some sampleA) \<and> wf56 (Some sampleB) \<and>
   (m56_Contains (Some sampleA) (Some (Mysql56GTIDSet (Some sampleB))) \<longleftrightarrow> m56_set (Some sampleB) \<subseteq> m56_set (Some sampleA)) \<and>
   \<not> m56_Contains (Some sampleA) (Some (Mysql56GTIDSet (Some sampleB)))"
proof -
  have "\<not> m56_Contains (Some sampleA) (Some (Mysql56GTIDSet (Some sampleB)))" by code_simp
  with Contains_decides_superset [OF samples_wf(1,2)] samples_wf(1,2) show ?thesis by blast
qed

text \<open>\<open>Equal\<close> holds exactly when both sets hold the same transactions.\<close>

theorem Equal_decides_equality:
  assumes "wf56 a" "wf56 b" "no_empty a" "no_empty b"
  shows "m56_Equal a (Some (Mysql56GTIDSet b)) \<longleftrightarrow> m56_set a = m56_set b"
  using assms by (rule m56_Equal_iff)

theorem Equal_decides_equality_witness:
  "wf56 (Some sampleA) \<and> wf56 (Some sampleB) \<and> no_empty (Some sampleA) \<and> no_empty (Some sampleB) \<and>
   (m56_Equal (Some sampleA) (Some (Mysql56GTIDSet (Some sampleB))) \<longleftrightarrow> m56_set (Some sampleA) = m56_set (Some sampleB)) \<and>
   \<not> m56_Equal (Some sampleA) (Some (Mysql56GTIDSet (Some sampleB)))"
proof -
  have "\<not> m56_Equal (Some sampleA) (Some (Mysql56GTIDSet (Some sampleB)))" by code_simp
  with Equal_decides_equality [OF samples_wf] samples_wf show ?thesis by blast
qed

text \<open>
  C17. \<open>AddGTID\<close> adds exactly the given transaction, and the result is again sorted, disjoint and
  fully merged.
\<close>

theorem AddGTID_inserts:
  assumes "wf56 gs" "length (Server g) = 16" "1 \<le> Sequence g" "Sequence g < maxInt64"
  shows "wf56 (m56_AddGTID gs (Some (Mysql56GTID g))) \<and>
    m56_set (m56_AddGTID gs (Some (Mysql56GTID g))) = insert (Server g, Sequence g) (m56_set gs)"
  using m56_AddGTID_correct [OF assms] by blast

theorem AddGTID_inserts_witness:
  "wf56 (Some sampleA) \<and>
   m56_set (m56_AddGTID (Some sampleA) (Some (Mysql56GTID \<lparr>Server = replicate 16 1, Sequence = 4\<rparr>))) =
     insert (replicate 16 1, 4) (m56_set (Some sampleA))"
  using AddGTID_inserts [OF samples_wf(1), of "\<lparr>Server = replicate 16 1, Sequence = 4\<rparr>"] samples_wf(1)
  by (simp add: maxInt64_def)

text \<open>
  C14. \<open>Union\<close> of two well-formed sets is a well-formed set of exactly the transactions of both.
\<close>

theorem Union_is_union:
  assumes "wf56 (Some a)" "wf56 (Some b)"
  shows "\<exists>m. m56_Union (Some a) (Some (Mysql56GTIDSet (Some b))) = Some (Mysql56GTIDSet (Some m)) \<and> wf56 (Some m) \<and>
    m56_set (Some m) = m56_set (Some a) \<union> m56_set (Some b)"
  using m56_Union_correct [OF assms] by blast

theorem Union_is_union_witness:
  "wf56 (Some sampleA) \<and> wf56 (Some sampleB) \<and>
   (\<exists>m. m56_Union (Some sampleA) (Some (Mysql56GTIDSet (Some sampleB))) = Some (Mysql56GTIDSet (Some m)) \<and>
     m56_set (Some m) = m56_set (Some sampleA) \<union> m56_set (Some sampleB))"
  using Union_is_union [OF samples_wf(1,2)] samples_wf(1,2) by blast

text \<open>
  C16. \<open>Intersect\<close> of two well-formed sets is a well-formed set of exactly the common transactions,
  with no server left without intervals.
\<close>

theorem Intersect_is_intersection:
  assumes "wf56 (Some a)" "wf56 (Some b)"
  shows "\<exists>m. m56_Intersect (Some a) (Some (Mysql56GTIDSet (Some b))) = Some m \<and> wf56 (Some m) \<and> no_empty (Some m) \<and>
    m56_set (Some m) = m56_set (Some a) \<inter> m56_set (Some b)"
  using m56_Intersect_correct [OF assms] .

theorem Intersect_is_intersection_witness:
  "wf56 (Some sampleA) \<and> wf56 (Some sampleB) \<and>
   (\<exists>m. m56_Intersect (Some sampleA) (Some (Mysql56GTIDSet (Some sampleB))) = Some m \<and>
     m56_set (Some m) = m56_set (Some sampleA) \<inter> m56_set (Some sampleB))"
  using Intersect_is_intersection [OF samples_wf(1,2)] samples_wf(1,2) by blast

text \<open>
  C15. \<open>Difference\<close> does not panic and returns exactly the transactions of the first set that are
  not in the second, provided the second lists no server without intervals.
\<close>

theorem Difference_is_difference:
  assumes "wf56 (Some a)" "wf56 (Some b)" "no_empty (Some b)"
  shows "\<exists>m. m56_Difference (Some a) (Some b) = Ret (Some m) \<and> wf56 (Some m) \<and>
    m56_set (Some m) = m56_set (Some a) - m56_set (Some b)"
  using m56_Difference_correct [OF assms] .

theorem Difference_is_difference_witness:
  "wf56 (Some sampleA) \<and> wf56 (Some sampleB) \<and> no_empty (Some sampleB) \<and>
   (\<exists>m. m56_Difference (Some sampleA) (Some sampleB) = Ret (Some m) \<and>
     m56_set (Some m) = m56_set (Some sampleA) - m56_set (Some sampleB))"
  using Difference_is_difference [OF samples_wf(1,2,4)] samples_wf(1,2,4) by blast

section \<open>Where the operations fall short\<close>

text \<open>A server with an empty list in the second set makes \<open>Difference\<close> drop the first interval.\<close>

lemma Difference_drops_interval:
  "m56_Difference (Some sampleA) (Some [(replicate 16 1, [])]) = Ret (Some [(replicate 16 1, [\<lparr>istart = 5, iend = 6\<rparr>])])"
  by code_simp

text \<open>\<open>Merge\<close> of the transactions 5-6 with 1-2 yields 1-6.\<close>

lemma Merge_invents_transactions:
  "m56_Merge (Some [(replicate 16 1, [\<lparr>istart = 5, iend = 6\<rparr>])])
     (Some (Mysql56GTIDSet (Some [(replicate 16 1, [\<lparr>istart = 1, iend = 2\<rparr>])]))) =
   Some (Mysql56GTIDSet (Some [(replicate 16 1, [\<lparr>istart = 1, iend = 6\<rparr>])]))"
  by code_simp

end
