(* ===== verification/Gtid56Text.thy ===== *)
theory Gtid56Text
  imports Gtid56
begin

text \<open>
  Round trips of the MySQL 5.6 GTID formats: server ids, single GTIDs, sets in their text
  form, and sets in the binary SID block.
\<close>

section \<open>Server ids and single GTIDs\<close>

lemma sid_String_length: "length sid = 16 \<Longrightarrow> length (sid_String sid) = 36"
  by (simp add: sid_String_def)

lemma sid_split:
  "length sid = 16 \<Longrightarrow>
     take 4 sid @ take 2 (drop 4 sid) @ take 2 (drop 6 sid) @ take 2 (drop 8 sid) @ take 6 (drop 10 sid) = sid"
proof -
  assume l: "length sid = 16"
  have d: "take n (drop m sid) @ drop (m + n) sid = drop m sid" for n m
    by (metis add.commute append_take_drop_id drop_drop)
  have "take 6 (drop 10 sid) = drop 10 sid" using l by simp
  then show ?thesis
    using d [of 2 4] d [of 2 6] d [of 2 8] by (simp add: append_take_drop_id)
qed

lemma ParseSID_String:
  assumes "length sid = 16" shows "ParseSID (sid_String sid) = Inr sid"
proof -
  let ?s = "sid_String sid"
  have l: "length ?s = 36" using assms by (rule sid_String_length)
  have dash: "?s ! 8 = CHR ''-''" "?s ! 13 = CHR ''-''" "?s ! 18 = CHR ''-''" "?s ! 23 = CHR ''-''"
    using assms by (simp_all add: sid_String_def nth_append)
  have parts: "take 8 ?s = hexEncode (take 4 sid)" "take 4 (drop 9 ?s) = hexEncode (take 2 (drop 4 sid))"
    "take 4 (drop 14 ?s) = hexEncode (take 2 (drop 6 sid))" "take 4 (drop 19 ?s) = hexEncode (take 2 (drop 8 sid))"
    "drop 24 ?s = hexEncode (take 6 (drop 10 sid))"
    using assms by (simp_all add: sid_String_def)
  have "take 8 ?s @ take 4 (drop 9 ?s) @ take 4 (drop 14 ?s) @ take 4 (drop 19 ?s) @ drop 24 ?s = hexEncode sid"
    unfolding parts hexEncode_append [symmetric] sid_split [OF assms] ..
  with l dash show ?thesis by (simp add: ParseSID_def hexDecode_hexEncode)
qed

lemma sid_String_chars:
  "c \<in> set (sid_String sid) \<Longrightarrow> c = CHR ''-'' \<or> 48 \<le> (of_char c :: nat) \<and> (of_char c :: nat) \<le> 102 \<and> (of_char c :: nat) \<noteq> 58"
  by (auto simp: sid_String_def dest!: hexEncode_chars)

lemma sid_String_no [simp]: "CHR '':'' \<notin> set (sid_String sid)" "CHR '','' \<notin> set (sid_String sid)"
  by (auto dest!: sid_String_chars)

lemma FormatInt_no [simp]: "CHR '':'' \<notin> set (FormatInt i)" "CHR '','' \<notin> set (FormatInt i)"
  by (auto simp: FormatInt_def)

lemma parseMysql56GTID_String:
  assumes "length (Server g) = 16" "- maxInt64 - 1 \<le> Sequence g" "Sequence g \<le> maxInt64"
  shows "parseMysql56GTID (m56gtid_String g) = Inr (Mysql56GTID g)"
proof -
  have "split CHR '':'' (m56gtid_String g) = [sid_String (Server g), FormatInt (Sequence g)]"
    by (simp add: m56gtid_String_def split_append split_notin)
  with assms show ?thesis
    by (simp add: parseMysql56GTID_def ParseSID_String ParseInt64_FormatInt)
qed

section \<open>The text form of a set\<close>

lemma ParseUint_FormatInt: "0 \<le> i \<Longrightarrow> i \<le> maxInt64 \<Longrightarrow> ParseUint (FormatInt i) 63 = Some (nat i)"
  by (simp add: FormatInt_def ParseUint_nat_dec maxInt64_def nat_less_iff)

lemma parseInterval_String:
  assumes "wf_iv iv" shows "parseInterval (iv_String iv) = Inr iv"
proof -
  have b: "1 \<le> istart iv" "istart iv \<le> maxInt64" "1 \<le> iend iv" "iend iv \<le> maxInt64" "0 \<le> istart iv"
    using assms by (auto simp: wf_iv_def)
  have p: "ParseUint (FormatInt (istart iv)) 63 = Some (nat (istart iv))"
    "ParseUint (FormatInt (iend iv)) 63 = Some (nat (iend iv))" using b by (simp_all add: ParseUint_FormatInt)
  have nodash: "CHR ''-'' \<notin> set (FormatInt (istart iv))" using b by (simp add: FormatInt_def)
  show ?thesis
  proof (cases "iend iv = istart iv")
    case True
    with p nodash b show ?thesis
      by (simp add: parseInterval_def iv_String_def cut_notin nat_less_iff)
  next
    case False
    with p nodash b show ?thesis
      by (simp add: parseInterval_def iv_String_def cut_append nat_less_iff)
  qed
qed

lemma iv_String_no [simp]: "CHR '':'' \<notin> set (iv_String iv)" "CHR '','' \<notin> set (iv_String iv)"
  by (auto simp: iv_String_def)

lemma iv_String_nonempty [simp]: "iv_String iv \<noteq> []"
  by (simp add: iv_String_def FormatInt_def)

lemma parse_intervals_Nil [simp]: "parse_intervals acc [] = Inr acc"
  by (simp add: parse_intervals.simps)

lemma parse_intervals_step:
  assumes "wf_iv iv" "s \<noteq> []" "cut CHR '':'' s = (iv_String iv, rest, ok)"
  shows "parse_intervals acc s = parse_intervals (acc @ [iv]) rest"
  using assms by (subst parse_intervals.simps) (simp add: parseInterval_String wf_iv_def)

lemma parse_intervals_join:
  "list_all wf_iv ivs \<Longrightarrow> parse_intervals acc (join CHR '':'' (map iv_String ivs)) = Inr (acc @ ivs)"
proof (induction ivs arbitrary: acc)
  case (Cons iv ivs)
  show ?case
  proof (cases ivs)
    case Nil
    with Cons.prems parse_intervals_step [of iv "iv_String iv" "[]" False acc] show ?thesis by (simp add: cut_notin)
  next
    case (Cons iv' ivs')
    let ?rest = "join CHR '':'' (map iv_String ivs)"
    have "parse_intervals acc (iv_String iv @ CHR '':'' # ?rest) = parse_intervals (acc @ [iv]) ?rest"
      using Cons.prems by (intro parse_intervals_step) (auto simp: cut_append)
    with Cons.IH Cons.prems Cons show ?thesis by simp
  qed
qed simp

lemma concat_colon_join:
  "ivs \<noteq> [] \<Longrightarrow> concat (map (\<lambda>iv. c # f iv) ivs) = c # join c (map f ivs)"
proof (induction ivs)
  case (Cons iv ivs)
  then show ?case by (cases ivs) auto
qed simp

lemma sort_normal:
  assumes "sort_func sf" "normal ivs" shows "sf (\<lambda>a b. istart a < istart b) ivs = ivs"
proof -
  let ?r = "sf (\<lambda>a b. istart a < istart b) ivs"
  have "sorting sf" using assms(1) by (simp add: sort_func_sorting)
  note srt = sorting.sf_sorted_key [OF this, of "\<lambda>a b. istart a < istart b" istart ivs, OF refl]
    and m = sorting.perm [OF this, of "\<lambda>a b. istart a < istart b" ivs]
  have "sorted_wrt (<) (map istart ivs)" using assms(2)
    by (induction ivs) (fastforce simp: wf_iv_def)+
  then have d: "distinct (map istart ivs)" "sorted (map istart ivs)" by (auto simp: strict_sorted_iff)
  have "distinct (map istart ?r)" using d(1) m by (metis mset_eq_imp_distinct_iff mset_map)
  moreover have "set ?r = set ivs" using m by (rule mset_eq_setD)
  ultimately show ?thesis
    using d srt by (intro map_sorted_distinct_set_unique [of istart]) (auto simp: distinct_map)
qed

lemma sid_ivs_String_eq:
  "ivs_of gs sid \<noteq> [] \<Longrightarrow> sid_ivs_String gs sid = sid_String sid @ CHR '':'' # join CHR '':'' (map iv_String (ivs_of gs sid))"
  by (simp add: sid_ivs_String_def concat_colon_join)

lemma parse_uuid_set_String:
  assumes "sort_func sf" "length sid = 16" "ivs_of gs sid \<noteq> []" "normal (ivs_of gs sid)" "map_of m sid = None"
  shows "parse_uuid_set sf s m (sid_ivs_String gs sid) = Inr (mput sid (ivs_of gs sid) m)"
  using assms
  by (simp add: parse_uuid_set_def sid_ivs_String_eq cut_append ParseSID_String parse_intervals_join normal_def
      sort_normal [unfolded normal_def])

lemma hexEncode_not_space: "c \<in> set (hexEncode bs) \<Longrightarrow> \<not> isSpace c"
  by (auto simp: isSpace_def dest!: hexEncode_chars)

lemma sid_ivs_String_not_space:
  "c \<in> set (sid_ivs_String gs sid) \<Longrightarrow> \<not> isSpace c"
  by (auto simp: sid_ivs_String_def sid_String_def iv_String_def FormatInt_def split: if_splits
      dest!: hexEncode_not_space nat_dec_not_space) (auto simp: isSpace_def)

lemma sid_ivs_String_no_comma: "CHR '','' \<notin> set (sid_ivs_String gs sid)"
  by (auto simp: sid_ivs_String_def)

lemma sid_ivs_String_nonempty: "sid_ivs_String gs sid \<noteq> []"
  by (simp add: sid_ivs_String_def sid_String_def)

lemma sid_ivs_String_trim: "trimSpace (sid_ivs_String gs sid) = sid_ivs_String gs sid"
  using sid_ivs_String_nonempty [of gs sid] sid_ivs_String_not_space [of _ gs sid]
  by (intro trimSpace_id) auto

definition printable56 :: "m56map option \<Rightarrow> sid \<Rightarrow> bool" where
  "printable56 gs sid \<longleftrightarrow> length sid = 16 \<and> ivs_of gs sid \<noteq> [] \<and> normal (ivs_of gs sid)"

lemma parse_sets_step:
  assumes "sort_func sf" "printable56 gs sid" "map_of m sid = None"
    and "input \<noteq> []" "cut CHR '','' input = (sid_ivs_String gs sid, rest, ok)"
  shows "parse_sets sf s m input = parse_sets sf s (mput sid (ivs_of gs sid) m) rest"
  using assms
  by (subst parse_sets.simps)
    (simp add: sid_ivs_String_trim sid_ivs_String_nonempty printable56_def parse_uuid_set_String)

lemma parse_sets_Nil [simp]: "parse_sets sf s m [] = Inr m"
  by (simp add: parse_sets.simps)

lemma parse_sets_join:
  assumes "sort_func sf" "\<And>sid. sid \<in> set sids \<Longrightarrow> printable56 gs sid \<and> map_of m sid = None"
    and "distinct sids"
  shows "parse_sets sf s m (join CHR '','' (map (sid_ivs_String gs) sids)) =
           Inr (fold (\<lambda>sid. mput sid (ivs_of gs sid)) sids m)"
  using assms
proof (induction sids arbitrary: m)
  case (Cons sid sids)
  let ?m = "mput sid (ivs_of gs sid) m"
  have ih: "parse_sets sf s ?m (join CHR '','' (map (sid_ivs_String gs) sids)) =
      Inr (fold (\<lambda>sid. mput sid (ivs_of gs sid)) sids ?m)"
    using Cons.prems by (intro Cons.IH) (auto simp: map_of_mput)
  note st = parse_sets_step [of sf gs sid m, where s = s]
  show ?case
  proof (cases sids)
    case Nil
    have "cut CHR '','' (sid_ivs_String gs sid) = (sid_ivs_String gs sid, [], False)"
      by (simp add: cut_notin sid_ivs_String_no_comma)
    with Nil st [of "sid_ivs_String gs sid" "[]" False] Cons.prems sid_ivs_String_nonempty [of gs sid]
    show ?thesis by simp
  next
    case (Cons sid' sids')
    have "cut CHR '','' (sid_ivs_String gs sid @ CHR '','' # join CHR '','' (map (sid_ivs_String gs) sids)) =
        (sid_ivs_String gs sid, join CHR '','' (map (sid_ivs_String gs) sids), True)"
      by (simp add: cut_append sid_ivs_String_no_comma)
    with st ih Cons.prems Cons show ?thesis by simp
  qed
qed simp

lemma m56_SIDs_keys:
  assumes "sort_func sfs" shows "mset (m56_SIDs sfs gs) = mset (map fst (entries gs))"
  using sorting.perm [of sfs bytes_less "map fst (entries gs)"] assms by (simp add: m56_SIDs_def sort_func_sorting)

lemma m56_SIDs_set: "sort_func sfs \<Longrightarrow> set (m56_SIDs sfs gs) = fst ` set (entries gs)"
  by (metis m56_SIDs_keys mset_eq_setD set_map)

lemma m56_SIDs_distinct: "sort_func sfs \<Longrightarrow> wf56 gs \<Longrightarrow> distinct (m56_SIDs sfs gs)"
  by (metis m56_SIDs_keys mset_eq_imp_distinct_iff wf56_wf_map wf_map_def)

lemma wf56_printable: "wf56 gs \<Longrightarrow> no_empty gs \<Longrightarrow> sid \<in> fst ` set (entries gs) \<Longrightarrow> printable56 gs sid"
  by (fastforce simp: printable56_def no_empty_def list_all_iff dest: wf56_entry)

lemma map_of_ivs_of: "no_empty gs \<Longrightarrow>
    (if k \<in> fst ` set (entries gs) then Some (ivs_of gs k) else None) = map_of (entries gs) k"
  by (cases "map_of (entries gs) k")
    (auto simp: ivs_of_def map_of_eq_None_iff intro: rev_image_eqI dest: map_of_SomeD simp flip: map_of_eq_None_iff)

lemma Parse_String:
  assumes "sort_func sf" "sort_func sfs" "wf56 gs" "no_empty gs"
  obtains m where "ParseMysql56GTIDSet sf (m56_String sfs gs) = Inr m" "wf_map m" "map_of m = map_of (entries gs)"
proof
  let ?m = "fold (\<lambda>sid. mput sid (ivs_of gs sid)) (m56_SIDs sfs gs) []"
  show "ParseMysql56GTIDSet sf (m56_String sfs gs) = Inr ?m"
    unfolding ParseMysql56GTIDSet_def m56_String_def
    using assms by (intro parse_sets_join) (auto simp: m56_SIDs_set m56_SIDs_distinct intro!: wf56_printable)
  show "wf_map ?m" by (rule wf_map_fold_mput) (simp add: wf_map_def)
  show "map_of ?m = map_of (entries gs)"
    using assms map_of_ivs_of [of gs, symmetric] by (simp add: fun_eq_iff map_of_fold_mput m56_SIDs_set)
qed

section \<open>The binary form of a set\<close>

lemma read_u64_le_enc: "v < 18446744073709551616 \<Longrightarrow> read_u64 (le_enc 8 v @ rest) = Some (v, rest)"
  by (simp add: read_u64_def le_dec_le_enc)

lemma ivs_block_Cons:
  "ivs_block (iv # ivs) = le_enc 8 (u64_of_int (istart iv)) @ le_enc 8 (u64_of_int (add64 (iend iv) 1)) @ ivs_block ivs"
  by (simp add: ivs_block_def)

lemma stored_interval:
  assumes "wf_iv iv"
  shows "wrap64 (int (u64_of_int (istart iv))) = istart iv"
    and "wrap64 (int (u64_of_int (add64 (iend iv) 1)) - 1) = iend iv"
proof -
  have b: "1 \<le> istart iv" "istart iv \<le> iend iv" "iend iv + 1 \<le> maxInt64" using assms by (auto simp: wf_iv_def)
  show "wrap64 (int (u64_of_int (istart iv))) = istart iv" using b by (simp add: wrap64_u64 wrap64_id maxInt64_def)
  have "int (u64_of_int (add64 (iend iv) 1)) = iend iv + 1"
    using b by (simp add: add64_id int_u64_of_int maxInt64_def)
  then show "wrap64 (int (u64_of_int (add64 (iend iv) 1)) - 1) = iend iv"
    using b by (simp add: wrap64_id maxInt64_def)
qed

lemma read_ivs_block:
  "list_all wf_iv ivs \<Longrightarrow>
   \<exists>m'. read_ivs i sid j (length ivs) m (ivs_block ivs @ rest) = Inr (m', rest) \<and>
     (wf_map m \<longrightarrow> wf_map m') \<and>
     map_of m' = (if ivs = [] then map_of m else (map_of m)(sid \<mapsto> ivs_of (Some m) sid @ ivs))"
proof (induction ivs arbitrary: j m)
  case Nil
  then show ?case by (simp add: ivs_block_def)
next
  case (Cons iv ivs)
  let ?m = "mput sid (ivs_of (Some m) sid @ [iv]) m"
  have "read_ivs i sid j (length (iv # ivs)) m (ivs_block (iv # ivs) @ rest) =
      read_ivs i sid (Suc j) (length ivs) ?m (ivs_block ivs @ rest)"
    using Cons.prems stored_interval [of iv]
    by (cases iv) (simp add: ivs_block_Cons read_u64_le_enc u64_of_int_bound [simplified])
  with Cons.IH [of "Suc j" ?m] Cons.prems show ?case
    by (auto simp: wf_map_mput map_of_mput fun_eq_iff split: if_splits)
qed

definition fits64 :: "m56map option \<Rightarrow> bool" where
  "fits64 gs \<longleftrightarrow> int (length (entries gs)) \<le> maxInt64 \<and> list_all (\<lambda>(sid, ivs). int (length ivs) \<le> maxInt64) (entries gs)"

lemma read_sids_block:
  assumes "\<And>sid. sid \<in> set sids \<Longrightarrow> printable56 gs sid \<and> int (length (ivs_of gs sid)) \<le> maxInt64 \<and> map_of m sid = None"
    and "distinct sids" "wf_map m"
  shows "\<exists>m'. read_sids i (length sids) m (concat (map (sid_block gs) sids)) = Inr m' \<and> wf_map m' \<and>
    map_of m' = (\<lambda>k. if k \<in> set sids then Some (ivs_of gs k) else map_of m k)"
  using assms
proof (induction sids arbitrary: i m)
  case (Cons sid sids)
  let ?ivs = "ivs_of gs sid" and ?rest = "concat (map (sid_block gs) sids)"
  have p: "printable56 gs sid" "int (length ?ivs) \<le> maxInt64" "map_of m sid = None" using Cons.prems by auto
  have n: "length ?ivs < 18446744073709551616" using p(2) by (simp add: maxInt64_def)
  obtain m1 where m1: "read_ivs i sid 0 (length ?ivs) m (ivs_block ?ivs @ ?rest) = Inr (m1, ?rest)" "wf_map m1"
      "map_of m1 = (map_of m)(sid \<mapsto> ?ivs)"
    using read_ivs_block [of ?ivs i sid 0 m ?rest] p Cons.prems
    by (auto simp: printable56_def normal_def ivs_of_def)
  have "length (sid_block gs sid @ ?rest) \<ge> 16" "take 16 (sid_block gs sid @ ?rest) = sid"
    "drop 16 (sid_block gs sid @ ?rest) = le_enc 8 (length ?ivs) @ ivs_block ?ivs @ ?rest"
    using p n by (auto simp: sid_block_def printable56_def)
  with m1 n have "read_sids i (length (sid # sids)) m (concat (map (sid_block gs) (sid # sids))) =
      read_sids (Suc i) (length sids) m1 ?rest"
    by (simp add: read_u64_le_enc Let_def)
  moreover have "\<exists>m'. read_sids (Suc i) (length sids) m1 ?rest = Inr m' \<and> wf_map m' \<and>
      map_of m' = (\<lambda>k. if k \<in> set sids then Some (ivs_of gs k) else map_of m1 k)"
    using Cons.prems m1 by (intro Cons.IH) auto
  ultimately show ?case using m1 Cons.prems(2) by (auto simp: fun_eq_iff)
qed simp

lemma SIDBlock_read:
  assumes "sort_func sfs" "wf56 gs" "no_empty gs" "fits64 gs"
  obtains m where "NewMysql56GTIDSetFromSIDBlock (m56_SIDBlock sfs gs) = Inr m" "wf_map m" "map_of m = map_of (entries gs)"
proof -
  let ?sids = "m56_SIDs sfs gs"
  have len: "length ?sids = length (entries gs)" using m56_SIDs_keys [OF assms(1), of gs] by (metis length_map mset_eq_length)
  have n: "length (entries gs) < 18446744073709551616" using assms(4) by (simp add: fits64_def maxInt64_def)
  have "\<exists>m'. read_sids 0 (length ?sids) [] (concat (map (sid_block gs) ?sids)) = Inr m' \<and> wf_map m' \<and>
      map_of m' = (\<lambda>k. if k \<in> set ?sids then Some (ivs_of gs k) else map_of [] k)"
  proof (rule read_sids_block)
    fix sid assume "sid \<in> set ?sids"
    then have k: "sid \<in> fst ` set (entries gs)" using assms(1) by (simp add: m56_SIDs_set)
    then show "printable56 gs sid \<and> int (length (ivs_of gs sid)) \<le> maxInt64 \<and> map_of [] sid = None"
      using assms wf56_printable [of gs sid]
      by (fastforce simp: fits64_def list_all_iff dest: wf56_entry)
  qed (use assms in \<open>auto simp: m56_SIDs_distinct wf_map_def\<close>)
  then show ?thesis
    using that n len assms map_of_ivs_of [of gs, symmetric]
    by (auto simp: NewMysql56GTIDSetFromSIDBlock_def m56_SIDBlock_def read_u64_le_enc m56_SIDs_set fun_eq_iff)
qed

lemma m56_String_nonempty:
  assumes "sort_func sfs" "(sid, q) \<in> m56_set gs"
  shows "m56_String sfs gs \<noteq> []"
proof -
  have "entries gs \<noteq> []" using assms(2) by (auto simp: mem_m56_set ivs_of_def)
  then have "m56_SIDs sfs gs \<noteq> []" using m56_SIDs_set [OF assms(1), of gs] by auto
  then obtain k ks where "m56_SIDs sfs gs = k # ks" by (cases "m56_SIDs sfs gs") auto
  then show ?thesis by (cases ks) (simp_all add: m56_String_def sid_ivs_String_nonempty)
qed

section \<open>Properties\<close>

text \<open>
  C19. Printing a well-formed set and parsing the text gives back the same intervals for every
  server, whatever sorting functions \<open>SortFunc\<close> and \<open>sort.Sort\<close> are.
\<close>

theorem parse_print_gtid_set:
  assumes "sort_func sf" "sort_func sfs" "wf56 gs" "no_empty gs"
  shows "\<exists>m. ParseMysql56GTIDSet sf (m56_String sfs gs) = Inr m \<and> wf_map m \<and> map_of m = map_of (entries gs)"
  using Parse_String [OF assms] by blast

theorem parse_print_gtid_set_witness:
  "sort_func (insertion_sort :: interval sorter) \<and> sort_func (insertion_sort :: sid sorter) \<and> wf56 (Some sampleB) \<and>
   (\<exists>m. ParseMysql56GTIDSet insertion_sort (m56_String insertion_sort (Some sampleB)) = Inr m \<and> map_of m = map_of sampleB)"
  using parse_print_gtid_set [OF sort_func_insertion_sort sort_func_insertion_sort samples_wf(2,4)] samples_wf(2)
  by (auto simp: sort_func_insertion_sort)

text \<open>
  Decoding the binary SID block of a well-formed set gives back the same intervals for every
  server; the half-open encoding of intervals loses nothing.
\<close>

theorem decode_encode_SIDBlock:
  assumes "sort_func sfs" "wf56 gs" "no_empty gs" "fits64 gs"
  shows "\<exists>m. NewMysql56GTIDSetFromSIDBlock (m56_SIDBlock sfs gs) = Inr m \<and> wf_map m \<and> map_of m = map_of (entries gs)"
  using SIDBlock_read [OF assms] by blast

theorem decode_encode_SIDBlock_witness:
  "sort_func (insertion_sort :: sid sorter) \<and> wf56 (Some sampleB) \<and> fits64 (Some sampleB) \<and>
   (\<exists>m. NewMysql56GTIDSetFromSIDBlock (m56_SIDBlock insertion_sort (Some sampleB)) = Inr m \<and> map_of m = map_of sampleB)"
proof -
  have "fits64 (Some sampleB)" by (simp add: fits64_def sampleB_def maxInt64_def)
  with decode_encode_SIDBlock [OF sort_func_insertion_sort samples_wf(2,4)] samples_wf(2)
  show ?thesis by (auto simp: sort_func_insertion_sort)
qed

end
