(* ===== verification/GtidSpec.thy ===== *)
theory GtidSpec
  imports Prelude
begin

text \<open>
  The contract of the \<open>GTIDSet\<close> interface (\<open>go/mysql/gtid_set.go\<close>), as locales over what a set
  denotes. A flavor provides the operations and the laws; the lemmas here are proved once
  from the laws and reach every flavor through its interpretation.
\<close>

section \<open>Containment and union\<close>

locale gtid_order =
  fixes abs :: "'a \<Rightarrow> 'e set" and inv :: "'a \<Rightarrow> bool"
    and contains :: "'a \<Rightarrow> 'a \<Rightarrow> bool" and union :: "'a \<Rightarrow> 'a \<Rightarrow> 'a"
  assumes contains_abs: "inv a \<Longrightarrow> inv b \<Longrightarrow> contains a b \<longleftrightarrow> abs b \<subseteq> abs a"
    and union_inv: "inv a \<Longrightarrow> inv b \<Longrightarrow> inv (union a b)"
    and union_abs: "inv a \<Longrightarrow> inv b \<Longrightarrow> abs (union a b) = abs a \<union> abs b"
begin

lemma contains_refl: "inv a \<Longrightarrow> contains a a"
  by (simp add: contains_abs)

lemma contains_trans: "inv a \<Longrightarrow> inv b \<Longrightarrow> inv c \<Longrightarrow> contains a b \<Longrightarrow> contains b c \<Longrightarrow> contains a c"
  by (simp add: contains_abs)

lemma union_upper: "inv a \<Longrightarrow> inv b \<Longrightarrow> contains (union a b) a \<and> contains (union a b) b"
  by (simp add: contains_abs union_inv union_abs)

lemma union_least: "inv a \<Longrightarrow> inv b \<Longrightarrow> inv c \<Longrightarrow> contains c (union a b) \<longleftrightarrow> contains c a \<and> contains c b"
  by (simp add: contains_abs union_inv union_abs)

lemma union_absorb: "inv a \<Longrightarrow> inv b \<Longrightarrow> contains a b \<Longrightarrow> abs (union a b) = abs a"
  by (auto simp: contains_abs union_abs)

text \<open>A set that has been enlarged only by what \<open>t\<close> already holds is as hard for \<open>t\<close> to reach as before.\<close>

lemma union_reach:
  "inv t \<Longrightarrow> inv a \<Longrightarrow> inv b \<Longrightarrow> abs b \<subseteq> abs t \<Longrightarrow> contains t (union a b) \<longleftrightarrow> contains t a"
  by (simp add: contains_abs union_inv union_abs)

end

section \<open>Adding one GTID\<close>

locale gtid_add = gtid_order abs inv contains union
  for abs :: "'a \<Rightarrow> 'e set" and inv :: "'a \<Rightarrow> bool"
    and contains :: "'a \<Rightarrow> 'a \<Rightarrow> bool" and union :: "'a \<Rightarrow> 'a \<Rightarrow> 'a" +
  fixes down :: "'g \<Rightarrow> 'e set" and valid :: "'g \<Rightarrow> bool"
    and has :: "'a \<Rightarrow> 'g \<Rightarrow> bool" and add :: "'a \<Rightarrow> 'g \<Rightarrow> 'a"
  assumes has_abs: "inv a \<Longrightarrow> has a g \<longleftrightarrow> down g \<subseteq> abs a"
    and add_inv: "inv a \<Longrightarrow> valid g \<Longrightarrow> inv (add a g)"
    and add_abs: "inv a \<Longrightarrow> valid g \<Longrightarrow> abs (add a g) = abs a \<union> down g"
begin

lemma add_has: "inv a \<Longrightarrow> valid g \<Longrightarrow> has (add a g) g"
  by (simp add: has_abs add_inv add_abs)

lemma add_contains: "inv a \<Longrightarrow> valid g \<Longrightarrow> contains (add a g) a"
  by (simp add: contains_abs add_inv add_abs)

lemma add_least: "inv a \<Longrightarrow> valid g \<Longrightarrow> inv c \<Longrightarrow> contains c (add a g) \<longleftrightarrow> contains c a \<and> has c g"
  by (simp add: contains_abs has_abs add_inv add_abs)

lemma has_mono: "inv a \<Longrightarrow> inv b \<Longrightarrow> contains b a \<Longrightarrow> has a g \<Longrightarrow> has b g"
  by (auto simp: contains_abs has_abs)

text \<open>The order in which GTIDs arrive does not matter.\<close>

lemma add_fold:
  assumes "inv a" "\<And>g. g \<in> set gs \<Longrightarrow> valid g"
  shows "inv (foldl add a gs) \<and> abs (foldl add a gs) = abs a \<union> \<Union> (down ` set gs)"
  using assms
proof (induction gs arbitrary: a)
  case (Cons g gs)
  then show ?case by (auto simp: add_inv add_abs)
qed simp

end

section \<open>Intersection\<close>

locale gtid_meet = gtid_order abs inv contains union
  for abs :: "'a \<Rightarrow> 'e set" and inv :: "'a \<Rightarrow> bool"
    and contains :: "'a \<Rightarrow> 'a \<Rightarrow> bool" and union :: "'a \<Rightarrow> 'a \<Rightarrow> 'a" +
  fixes meet :: "'a \<Rightarrow> 'a \<Rightarrow> 'a"
  assumes meet_inv: "inv a \<Longrightarrow> inv b \<Longrightarrow> inv (meet a b)"
    and meet_abs: "inv a \<Longrightarrow> inv b \<Longrightarrow> abs (meet a b) = abs a \<inter> abs b"
begin

lemma meet_greatest: "inv a \<Longrightarrow> inv b \<Longrightarrow> inv c \<Longrightarrow> contains (meet a b) c \<longleftrightarrow> contains a c \<and> contains b c"
  by (simp add: contains_abs meet_inv meet_abs)

lemma meet_lower: "inv a \<Longrightarrow> inv b \<Longrightarrow> contains a (meet a b) \<and> contains b (meet a b)"
  by (simp add: contains_abs meet_inv meet_abs)

lemma meet_fold:
  assumes "inv a" "\<And>b. b \<in> set bs \<Longrightarrow> inv b"
  shows "inv (foldl meet a bs) \<and> abs (foldl meet a bs) = \<Inter> (abs ` insert a (set bs))"
  using assms
proof (induction bs arbitrary: a)
  case (Cons b bs)
  then show ?case by (auto simp: meet_inv meet_abs)
qed simp

end

end
