(* ===== verification/Gtid56Order.thy ===== *)
theory Gtid56Order
  imports Gtid56 GtidSpec
begin

text \<open>
  The MySQL 5.6 flavor as an instance of the \<open>GTIDSet\<close> contract, on non-nil sets.
\<close>

definition m56_contains :: "m56map \<Rightarrow> m56map \<Rightarrow> bool" where
  "m56_contains a b = m56_Contains (Some a) (Some (Mysql56GTIDSet (Some b)))"

definition m56_union :: "m56map \<Rightarrow> m56map \<Rightarrow> m56map" where
  "m56_union a b = (case m56_Union (Some a) (Some (Mysql56GTIDSet (Some b))) of
     Some (Mysql56GTIDSet m) \<Rightarrow> entries m | _ \<Rightarrow> [])"

definition m56_add :: "m56map \<Rightarrow> mysql56_gtid \<Rightarrow> m56map" where
  "m56_add a g = entries (m56_AddGTID (Some a) (Some (Mysql56GTID g)))"

definition m56_meet :: "m56map \<Rightarrow> m56map \<Rightarrow> m56map" where
  "m56_meet a b = entries (m56_Intersect (Some a) (Some (Mysql56GTIDSet (Some b))))"

definition valid56 :: "mysql56_gtid \<Rightarrow> bool" where
  "valid56 g \<longleftrightarrow> length (Server g) = 16 \<and> 1 \<le> Sequence g \<and> Sequence g < maxInt64"

lemma m56_union_correct:
  assumes "wf56 (Some a)" "wf56 (Some b)"
  shows "wf56 (Some (m56_union a b))" "m56_set (Some (m56_union a b)) = m56_set (Some a) \<union> m56_set (Some b)"
proof -
  obtain m where m: "m56_Union (Some a) (Some (Mysql56GTIDSet (Some b))) = Some (Mysql56GTIDSet (Some m))" "wf56 (Some m)"
      "m56_set (Some m) = m56_set (Some a) \<union> m56_set (Some b)"
    using m56_Union_correct [OF assms] by blast
  then show "wf56 (Some (m56_union a b))" "m56_set (Some (m56_union a b)) = m56_set (Some a) \<union> m56_set (Some b)"
    by (simp_all add: m56_union_def)
qed

lemma m56_meet_correct:
  assumes "wf56 (Some a)" "wf56 (Some b)"
  shows "wf56 (Some (m56_meet a b))" "m56_set (Some (m56_meet a b)) = m56_set (Some a) \<inter> m56_set (Some b)"
proof -
  obtain m where "m56_Intersect (Some a) (Some (Mysql56GTIDSet (Some b))) = Some m" "wf56 (Some m)"
      "m56_set (Some m) = m56_set (Some a) \<inter> m56_set (Some b)"
    using m56_Intersect_correct [OF assms] by blast
  then show "wf56 (Some (m56_meet a b))" "m56_set (Some (m56_meet a b)) = m56_set (Some a) \<inter> m56_set (Some b)"
    by (simp_all add: m56_meet_def)
qed

lemma m56_AddGTID_Some: "\<exists>m. m56_AddGTID (Some a) (Some (Mysql56GTID g)) = Some m"
  by (auto simp: m56_AddGTID_def split: prod.splits)

lemma m56_add_correct:
  assumes "wf56 (Some a)" "valid56 g"
  shows "wf56 (Some (m56_add a g))" "m56_set (Some (m56_add a g)) = insert (Server g, Sequence g) (m56_set (Some a))"
proof -
  obtain m where "m56_AddGTID (Some a) (Some (Mysql56GTID g)) = Some m" using m56_AddGTID_Some by blast
  with m56_AddGTID_correct [of "Some a" g] assms
  show "wf56 (Some (m56_add a g))" "m56_set (Some (m56_add a g)) = insert (Server g, Sequence g) (m56_set (Some a))"
    by (simp_all add: m56_add_def valid56_def)
qed

interpretation m56: gtid_add "\<lambda>a. m56_set (Some a)" "\<lambda>a. wf56 (Some a)" m56_contains m56_union
    "\<lambda>g. {(Server g, Sequence g)}" valid56 "\<lambda>a g. m56_ContainsGTID (Some a) (Some (Mysql56GTID g))" m56_add
  by unfold_locales
    (simp_all add: m56_contains_def m56_Contains_iff m56_union_correct m56_ContainsGTID_iff m56_add_correct)

interpretation m56: gtid_meet "\<lambda>a. m56_set (Some a)" "\<lambda>a. wf56 (Some a)" m56_contains m56_union m56_meet
  by unfold_locales (simp_all add: m56_meet_correct)

end
