(* ===== verification/GtidMariadb.thy ===== *)
theory GtidMariadb
  imports GtidTypes GtidSpec
begin

text \<open>
  MariaDB GTIDs and sets of them (\<open>go/mysql/mariadb_gtid.go\<close>): one GTID per domain, standing for
  every sequence number of its domain up to its own.
\<close>

section \<open>Parsing and printing\<close>

definition mdbgtid_String :: "mariadb_gtid \<Rightarrow> string" where
  "mdbgtid_String g =
     nat_dec (unat (mDomain g)) @ CHR ''-'' # nat_dec (unat (mServer g)) @ CHR ''-'' # nat_dec (unat (mSequence g))"

definition parseMariadbGTID :: "string \<Rightarrow> gtid_error + mariadb_gtid" where
  "parseMariadbGTID s =
     (let parts = split CHR ''-'' s in
      if length parts \<noteq> 3 then Inl (InvalidGTID s)
      else (case ParseUint (parts ! 0) 32 of None \<Rightarrow> Inl (InvalidDomain (parts ! 0))
        | Some dom0 \<Rightarrow>
            (case ParseUint (parts ! 1) 32 of None \<Rightarrow> Inl (InvalidServer (parts ! 1))
             | Some srv \<Rightarrow>
                 (case ParseUint (parts ! 2) 64 of None \<Rightarrow> Inl (InvalidSequence (parts ! 2))
                  | Some sqn \<Rightarrow>
                      Inr \<lparr>mDomain = of_nat dom0, mServer = of_nat srv, mSequence = of_nat sqn\<rparr>))))"

fun parse_mdb_sets :: "mdbmap \<Rightarrow> string list \<Rightarrow> gtid_error + mdbmap" where
  "parse_mdb_sets gtidSet [] = Inr gtidSet"
| "parse_mdb_sets gtidSet (s # ss) =
     (let gtidString = trimSpace s in
      if gtidString = [] then parse_mdb_sets gtidSet ss
      else (case parseMariadbGTID gtidString of Inl e \<Rightarrow> Inl e
        | Inr mdbGTID \<Rightarrow> parse_mdb_sets (mput (mDomain mdbGTID) mdbGTID gtidSet) ss))"

definition parseMariadbGTIDSet :: "string \<Rightarrow> gtid_error + mdbmap" where
  "parseMariadbGTIDSet s = parse_mdb_sets [] (split CHR '','' s)"

text \<open>\<open>sort.Slice\<close> on the domains, which are distinct: any sort gives the same list.\<close>

definition mdb_domains :: "mdbmap option \<Rightarrow> 32 word list" where
  "mdb_domains gs = insertion_sort (<) (map fst (entries gs))"

definition mdb_lookup_String :: "mdbmap option \<Rightarrow> 32 word \<Rightarrow> string" where
  "mdb_lookup_String gs domain =
     mdbgtid_String (case map_of (entries gs) domain of Some g \<Rightarrow> g
       | None \<Rightarrow> \<lparr>mDomain = 0, mServer = 0, mSequence = 0\<rparr>)"

definition mdb_String :: "mdbmap option \<Rightarrow> string" where
  "mdb_String gs = join CHR '','' (map (mdb_lookup_String gs) (mdb_domains gs))"

text \<open>\<open>Last\<close> indexes the domains at \<open>len - 1\<close>: a panic on an empty set.\<close>

definition mdb_Last :: "mdbmap option \<Rightarrow> string outcome" where
  "mdb_Last gs = (if mdb_domains gs = [] then Panic else Ret (mdb_lookup_String gs (last (mdb_domains gs))))"

section \<open>The set operations\<close>

definition mdbgtid_GTIDSet :: "mariadb_gtid \<Rightarrow> mdbmap" where
  "mdbgtid_GTIDSet g = [(mDomain g, g)]"

definition mdb_ContainsGTID :: "mdbmap option \<Rightarrow> GTID option \<Rightarrow> bool" where
  "mdb_ContainsGTID gs other =
     (case other of None \<Rightarrow> True
      | Some (MariadbGTID mdbOther) \<Rightarrow>
          (case map_of (entries gs) (mDomain mdbOther) of None \<Rightarrow> False
           | Some gtid \<Rightarrow> mSequence gtid \<ge> mSequence mdbOther)
      | _ \<Rightarrow> False)"

definition mdb_Contains :: "mdbmap option \<Rightarrow> GTIDSet option \<Rightarrow> bool" where
  "mdb_Contains gs other =
     (case other of
        Some (MariadbGTIDSet mdbOther) \<Rightarrow>
          list_all (\<lambda>(_, gtid). mdb_ContainsGTID gs (Some (MariadbGTID gtid))) (entries mdbOther)
      | _ \<Rightarrow> False)"

definition mdb_Equal :: "mdbmap option \<Rightarrow> GTIDSet option \<Rightarrow> bool" where
  "mdb_Equal gs other =
     (case other of
        Some (MariadbGTIDSet mdbOther) \<Rightarrow>
          length (entries gs) = length (entries mdbOther) \<and>
          list_all (\<lambda>(domain, gtid). map_of (entries mdbOther) domain = Some gtid) (entries gs)
      | _ \<Rightarrow> False)"

definition addGTID :: "mdbmap \<Rightarrow> mariadb_gtid \<Rightarrow> mdbmap" where
  "addGTID gs otherGTID =
     (case map_of gs (mDomain otherGTID) of
        None \<Rightarrow> mput (mDomain otherGTID) otherGTID gs
      | Some gtid \<Rightarrow> if mSequence otherGTID > mSequence gtid then mput (mDomain otherGTID) otherGTID gs else gs)"

definition deepCopy :: "mdbmap option \<Rightarrow> mdbmap" where
  "deepCopy gs = foldl (\<lambda>newSet (domain, gtid). mput domain gtid newSet) [] (entries gs)"

definition mdb_AddGTID :: "mdbmap option \<Rightarrow> GTID option \<Rightarrow> mdbmap option" where
  "mdb_AddGTID gs other =
     (case other of Some (MariadbGTID mdbOther) \<Rightarrow> Some (addGTID (deepCopy gs) mdbOther) | _ \<Rightarrow> gs)"

fun mdb_intersect_entries :: "mdbmap \<Rightarrow> mdbmap \<Rightarrow> mdbmap" where
  "mdb_intersect_entries newSet [] = newSet"
| "mdb_intersect_entries newSet ((_, otherGTID) # es) =
     (case map_of newSet (mDomain otherGTID) of
        None \<Rightarrow> mdb_intersect_entries newSet es
      | Some gtid \<Rightarrow>
          mdb_intersect_entries
            (mput (mDomain otherGTID) (if mSequence otherGTID < mSequence gtid then otherGTID else gtid) newSet) es)"

definition mdb_Intersect :: "mdbmap option \<Rightarrow> GTIDSet option \<Rightarrow> GTIDSet option" where
  "mdb_Intersect gs other =
     (if gs = None then None
      else (case other of
        Some (MariadbGTIDSet mdbOther) \<Rightarrow> Some (MariadbGTIDSet (Some (mdb_intersect_entries [] (entries mdbOther))))
      | _ \<Rightarrow> None))"

definition mdb_Union :: "mdbmap option \<Rightarrow> GTIDSet option \<Rightarrow> GTIDSet option" where
  "mdb_Union gs other =
     (if gs = None \<and> other \<noteq> None then other
      else (case other of
        Some (MariadbGTIDSet mdbOther) \<Rightarrow>
          Some (MariadbGTIDSet (Some (foldl (\<lambda>newSet (_, otherGTID). addGTID newSet otherGTID) (deepCopy gs) (entries mdbOther))))
      | _ \<Rightarrow> Some (MariadbGTIDSet gs)))"

section \<open>What a set denotes\<close>

definition mdb_set :: "mdbmap \<Rightarrow> (32 word \<times> 64 word) set" where
  "mdb_set gs = {(d, q). \<exists>g. map_of gs d = Some g \<and> q \<le> mSequence g}"

definition wf_mdb :: "mdbmap \<Rightarrow> bool" where
  "wf_mdb gs \<longleftrightarrow> wf_map gs \<and> list_all (\<lambda>(d, g). mDomain g = d) gs"

lemma wf_mdb_get: "wf_mdb gs \<Longrightarrow> map_of gs d = Some g \<Longrightarrow> mDomain g = d"
  by (auto simp: wf_mdb_def list_all_iff dest: map_of_SomeD)

lemma wf_mdb_alt: "wf_mdb gs \<longleftrightarrow> wf_map gs \<and> (\<forall>d g. map_of gs d = Some g \<longrightarrow> mDomain g = d)"
  by (auto simp: wf_mdb_def list_all_iff wf_map_mem)

lemma mdb_ContainsGTID_iff:
  "mdb_ContainsGTID (Some gs) (Some (MariadbGTID g)) \<longleftrightarrow> {mDomain g} \<times> {.. mSequence g} \<subseteq> mdb_set gs"
  by (auto simp: mdb_ContainsGTID_def mdb_set_def split: option.splits)

lemma mdb_set_UN: "wf_mdb gs \<Longrightarrow> mdb_set gs = (\<Union>(d, g)\<in>set gs. {mDomain g} \<times> {.. mSequence g})"
  by (fastforce simp: mdb_set_def wf_mdb_def list_all_iff wf_map_mem)

lemma mdb_Contains_iff:
  assumes "wf_mdb b"
  shows "mdb_Contains (Some a) (Some (MariadbGTIDSet (Some b))) \<longleftrightarrow> mdb_set b \<subseteq> mdb_set a"
  unfolding mdb_set_UN [OF assms] by (fastforce simp: mdb_Contains_def list_all_iff mdb_ContainsGTID_iff)

lemma mdb_Equal_iff:
  assumes "wf_mdb a" "wf_mdb b"
  shows "mdb_Equal (Some a) (Some (MariadbGTIDSet (Some b))) \<longleftrightarrow> map_of a = map_of b"
proof -
  have w: "wf_map a" "wf_map b" using assms by (auto simp: wf_mdb_def)
  have le: "list_all (\<lambda>(d, g). map_of b d = Some g) a \<longleftrightarrow> map_of a \<subseteq>\<^sub>m map_of b"
  proof -
    have "list_all (\<lambda>(d, g). map_of b d = Some g) a \<longleftrightarrow> (\<forall>d g. map_of a d = Some g \<longrightarrow> map_of b d = Some g)"
      by (auto simp: list_all_iff wf_map_mem [OF w(1)])
    also have "\<dots> \<longleftrightarrow> map_of a \<subseteq>\<^sub>m map_of b" by (force simp: map_le_def dom_def)
    finally show ?thesis .
  qed
  have eq: "mdb_Equal (Some a) (Some (MariadbGTIDSet (Some b))) \<longleftrightarrow>
      card (dom (map_of a)) = card (dom (map_of b)) \<and> map_of a \<subseteq>\<^sub>m map_of b"
    using w wf_map_card [OF w(1)] wf_map_card [OF w(2)]
    by (simp add: mdb_Equal_def le dom_map_of_conv_image_fst)
  have "map_of a = map_of b" if "card (dom (map_of a)) = card (dom (map_of b))" "map_of a \<subseteq>\<^sub>m map_of b"
  proof -
    have "dom (map_of a) = dom (map_of b)"
      using that by (intro card_subset_eq) (auto simp: finite_dom_map_of map_le_implies_dom_le)
    with that(2) show ?thesis by (auto simp: map_le_def fun_eq_iff domIff) (metis domIff)
  qed
  with eq show ?thesis by auto
qed

lemma deepCopy_eq: "wf_map (entries gs) \<Longrightarrow> map_of (deepCopy gs) = map_of (entries gs) \<and> wf_map (deepCopy gs)"
proof -
  have "map_of (foldl (\<lambda>newSet (domain, gtid). mput domain gtid newSet) m es) k =
      (case map_of es k of None \<Rightarrow> map_of m k | Some g \<Rightarrow> Some g)" if "wf_map es" for m es :: mdbmap and k
    using that by (induction es arbitrary: m) (auto simp: map_of_mput wf_map_Cons split: option.splits)
  moreover have "wf_map m \<Longrightarrow> wf_map (foldl (\<lambda>newSet (domain, gtid). mput domain gtid newSet) m es)" for m es :: mdbmap
    by (induction es arbitrary: m) (auto simp: wf_map_mput)
  ultimately show "wf_map (entries gs) \<Longrightarrow> ?thesis" by (auto simp: deepCopy_def fun_eq_iff wf_map_Nil split: option.splits)
qed

lemma wf_mdb_deepCopy: "wf_mdb gs \<Longrightarrow> wf_mdb (deepCopy (Some gs)) \<and> mdb_set (deepCopy (Some gs)) = mdb_set gs"
  using deepCopy_eq [of "Some gs"] by (simp add: wf_mdb_alt mdb_set_def)

lemma addGTID_correct:
  assumes "wf_mdb gs"
  shows "wf_mdb (addGTID gs g) \<and> mdb_set (addGTID gs g) = mdb_set gs \<union> {mDomain g} \<times> {.. mSequence g}"
proof
  show "wf_mdb (addGTID gs g)"
    using assms by (auto simp: wf_mdb_alt addGTID_def wf_map_mput map_of_mput split: option.splits)
  show "mdb_set (addGTID gs g) = mdb_set gs \<union> {mDomain g} \<times> {.. mSequence g}"
    by (auto simp: mdb_set_def addGTID_def map_of_mput split: option.splits if_splits)
qed

lemma mdb_AddGTID_correct:
  assumes "wf_mdb gs"
  shows "wf_mdb (entries (mdb_AddGTID (Some gs) (Some (MariadbGTID g)))) \<and>
    mdb_set (entries (mdb_AddGTID (Some gs) (Some (MariadbGTID g)))) = mdb_set gs \<union> {mDomain g} \<times> {.. mSequence g}"
  using addGTID_correct [of "deepCopy (Some gs)" g] wf_mdb_deepCopy [OF assms] by (simp add: mdb_AddGTID_def)

lemma add_all_correct:
  assumes "wf_mdb gs"
  shows "wf_mdb (foldl (\<lambda>newSet (_, otherGTID). addGTID newSet otherGTID) gs es) \<and>
    mdb_set (foldl (\<lambda>newSet (_, otherGTID). addGTID newSet otherGTID) gs es) =
      mdb_set gs \<union> (\<Union>(d, g)\<in>set es. {mDomain g} \<times> {.. mSequence g})"
  using assms
proof (induction es arbitrary: gs)
  case (Cons e es)
  obtain d g where "e = (d, g)" by (cases e)
  with Cons.IH [of "addGTID gs g"] addGTID_correct [OF Cons.prems, of g] show ?case by auto
qed simp

lemma mdb_Union_correct:
  assumes "wf_mdb a" "wf_mdb b"
  shows "\<exists>m. mdb_Union (Some a) (Some (MariadbGTIDSet (Some b))) = Some (MariadbGTIDSet (Some m)) \<and> wf_mdb m \<and>
    mdb_set m = mdb_set a \<union> mdb_set b"
  using add_all_correct [of "deepCopy (Some a)" b] wf_mdb_deepCopy [OF assms(1)] mdb_set_UN [OF assms(2)]
  by (simp add: mdb_Union_def)

text \<open>\<open>Intersect\<close> looks each domain up in the set it is building, which stays empty.\<close>

lemma mdb_intersect_entries_Nil: "mdb_intersect_entries [] es = []"
  by (induction es) auto

section \<open>The text form\<close>

lemma parseMariadbGTID_String: "parseMariadbGTID (mdbgtid_String g) = Inr g"
proof -
  have "split CHR ''-'' (mdbgtid_String g) =
      [nat_dec (unat (mDomain g)), nat_dec (unat (mServer g)), nat_dec (unat (mSequence g))]"
    by (simp add: mdbgtid_String_def split_append split_notin)
  then show ?thesis
    using unsigned_less [of "mDomain g", where ?'a = nat] unsigned_less [of "mServer g", where ?'a = nat]
      unsigned_less [of "mSequence g", where ?'a = nat]
    by (simp add: parseMariadbGTID_def ParseUint_nat_dec)
qed

lemma mdbgtid_String_no_comma: "CHR '','' \<notin> set (mdbgtid_String g)"
  by (simp add: mdbgtid_String_def)

lemma mdbgtid_String_nonempty: "mdbgtid_String g \<noteq> []"
  by (simp add: mdbgtid_String_def)

lemma mdbgtid_String_trim: "trimSpace (mdbgtid_String g) = mdbgtid_String g"
proof -
  have "\<not> isSpace c" if "c \<in> set (mdbgtid_String g)" for c
    using that by (auto simp: mdbgtid_String_def dest: nat_dec_not_space) (auto simp: isSpace_def)
  then show ?thesis using mdbgtid_String_nonempty [of g] by (intro trimSpace_id) auto
qed

lemma parse_mdb_sets_map:
  "parse_mdb_sets m (map mdbgtid_String gs) = Inr (fold (\<lambda>g. mput (mDomain g) g) gs m)"
  by (induction gs arbitrary: m)
    (simp_all add: mdbgtid_String_trim mdbgtid_String_nonempty parseMariadbGTID_String)

lemma mdb_domains_set: "set (mdb_domains gs) = fst ` set (entries gs)"
  by (simp add: mdb_domains_def isort.set_sf)

lemma parse_mdb_String:
  assumes "wf_mdb gs"
  obtains m where "parseMariadbGTIDSet (mdb_String (Some gs)) = Inr m" "wf_map m" "map_of m = map_of gs"
proof (cases "gs = []")
  case True
  have "parseMariadbGTIDSet (mdb_String (Some gs)) = Inr []"
    using True by (simp add: mdb_String_def mdb_domains_def parseMariadbGTIDSet_def insertion_sort_def)
  with True that show ?thesis by simp
next
  case False
  let ?ds = "mdb_domains (Some gs)" and ?f = "\<lambda>d. the (map_of gs d)"
  have ds: "set ?ds = dom (map_of gs)" by (simp add: mdb_domains_set dom_map_of_conv_image_fst)
  with False have ne: "?ds \<noteq> []" by (auto simp: dom_map_of_conv_image_fst)
  have f: "mdb_lookup_String (Some gs) d = mdbgtid_String (?f d)" "mDomain (?f d) = d" if "d \<in> set ?ds" for d
    using that ds wf_mdb_get [OF assms] by (auto simp: mdb_lookup_String_def)
  have "split CHR '','' (mdb_String (Some gs)) = map mdbgtid_String (map ?f ?ds)"
    using ne f(1) unfolding mdb_String_def by (subst split_join) (auto simp: mdbgtid_String_no_comma)
  moreover have "fold (\<lambda>g. mput (mDomain g) g) (map ?f ?ds) m = fold (\<lambda>d. mput d (?f d)) ?ds m" for m
    unfolding fold_map using f(2) by (intro fold_cong) auto
  ultimately have "parseMariadbGTIDSet (mdb_String (Some gs)) = Inr (fold (\<lambda>d. mput d (?f d)) ?ds [])"
    by (simp only: parseMariadbGTIDSet_def parse_mdb_sets_map)
  moreover have "map_of (fold (\<lambda>d. mput d (?f d)) ?ds []) = map_of gs"
    using ds by (auto simp: fun_eq_iff map_of_fold_mput)
  moreover note wf_map_fold_mput [OF wf_map_Nil, of ?f ?ds]
  ultimately show ?thesis by (intro that)
qed

section \<open>The flavor as an instance of the interface\<close>

definition mdb_contains :: "mdbmap \<Rightarrow> mdbmap \<Rightarrow> bool" where
  "mdb_contains a b = mdb_Contains (Some a) (Some (MariadbGTIDSet (Some b)))"

definition mdb_union :: "mdbmap \<Rightarrow> mdbmap \<Rightarrow> mdbmap" where
  "mdb_union a b = (case mdb_Union (Some a) (Some (MariadbGTIDSet (Some b))) of
     Some (MariadbGTIDSet m) \<Rightarrow> entries m | _ \<Rightarrow> [])"

lemma mdb_union_correct: "wf_mdb a \<Longrightarrow> wf_mdb b \<Longrightarrow> wf_mdb (mdb_union a b) \<and> mdb_set (mdb_union a b) = mdb_set a \<union> mdb_set b"
  by (drule (1) mdb_Union_correct) (elim exE conjE, simp add: mdb_union_def)

interpretation mdb: gtid_add mdb_set wf_mdb mdb_contains mdb_union
    "\<lambda>g. {mDomain g} \<times> {.. mSequence g}" "\<lambda>_. True"
    "\<lambda>gs g. mdb_ContainsGTID (Some gs) (Some (MariadbGTID g))"
    "\<lambda>gs g. entries (mdb_AddGTID (Some gs) (Some (MariadbGTID g)))"
  by unfold_locales
    (simp_all add: mdb_contains_def mdb_Contains_iff mdb_union_correct mdb_ContainsGTID_iff mdb_AddGTID_correct)

section \<open>Properties\<close>

text \<open>
  C23. For MariaDB sets \<open>Contains\<close> is the superset relation on the transactions they stand for,
  \<open>Union\<close> gives exactly those of both sets, and \<open>AddGTID\<close> adds exactly those up to the GTID.
\<close>

theorem mariadb_set_operations:
  assumes "wf_mdb a" "wf_mdb b"
  shows "(mdb_Contains (Some a) (Some (MariadbGTIDSet (Some b))) \<longleftrightarrow> mdb_set b \<subseteq> mdb_set a) \<and>
    (\<exists>m. mdb_Union (Some a) (Some (MariadbGTIDSet (Some b))) = Some (MariadbGTIDSet (Some m)) \<and> wf_mdb m \<and>
      mdb_set m = mdb_set a \<union> mdb_set b) \<and>
    mdb_set (entries (mdb_AddGTID (Some a) (Some (MariadbGTID g)))) = mdb_set a \<union> {mDomain g} \<times> {.. mSequence g}"
  using mdb_Contains_iff [OF assms(2)] mdb_Union_correct [OF assms] mdb_AddGTID_correct [OF assms(1)] by blast

theorem mariadb_set_operations_witness:
  "wf_mdb [(1, \<lparr>mDomain = 1, mServer = 5, mSequence = 7\<rparr>)] \<and> wf_mdb [(2, \<lparr>mDomain = 2, mServer = 5, mSequence = 3\<rparr>)] \<and>
   mdb_set (entries (mdb_AddGTID (Some [(1, \<lparr>mDomain = 1, mServer = 5, mSequence = 7\<rparr>)])
       (Some (MariadbGTID \<lparr>mDomain = 1, mServer = 6, mSequence = 9\<rparr>)))) =
     mdb_set [(1, \<lparr>mDomain = 1, mServer = 5, mSequence = 7\<rparr>)] \<union> {1} \<times> {.. 9}"
proof -
  have "wf_mdb [(1, \<lparr>mDomain = 1, mServer = 5, mSequence = 7\<rparr>)]" "wf_mdb [(2, \<lparr>mDomain = 2, mServer = 5, mSequence = 3\<rparr>)]"
    by (simp_all add: wf_mdb_def wf_map_def)
  with mariadb_set_operations [OF this, of "\<lparr>mDomain = 1, mServer = 6, mSequence = 9\<rparr>"] show ?thesis by simp
qed

section \<open>Where the operations fall short\<close>

text \<open>The intersection with any MariaDB set is empty, also the one of a set with itself.\<close>

lemma mdb_Intersect_always_empty:
  "mdb_Intersect (Some a) (Some (MariadbGTIDSet b)) = Some (MariadbGTIDSet (Some []))"
  by (simp add: mdb_Intersect_def mdb_intersect_entries_Nil)

end
