(* ===== verification/GtidFilePos.thy ===== *)
theory GtidFilePos
  imports GtidTypes GtidSpec
begin

text \<open>
  Positions given by a binlog file name and an offset (\<open>go/mysql/filepos_gtid.go\<close>). The same
  struct is the GTID and the set: a position stands for everything up to it in the
  lexicographic order of file names, which Go compares byte by byte.
\<close>

definition parseFilePosGTID :: "string \<Rightarrow> gtid_error + filepos_gtid" where
  "parseFilePosGTID s =
     (let parts = split CHR '':'' s in
      if length parts \<noteq> 2 then Inl (InvalidGTID s)
      else (case ParseInt64 (parts ! 1) of None \<Rightarrow> Inl (InvalidGTID s)
        | Some pos \<Rightarrow> Inr \<lparr>fpFile = parts ! 0, fpPos = pos\<rparr>))"

definition ParseFilePosGTIDSet :: "string \<Rightarrow> gtid_error + filepos_gtid" where
  "ParseFilePosGTIDSet s = parseFilePosGTID s"

definition fp_String :: "filepos_gtid \<Rightarrow> string" where
  "fp_String gtid = fpFile gtid @ CHR '':'' # FormatInt (fpPos gtid)"

definition fp_Last :: "filepos_gtid \<Rightarrow> string" where
  "fp_Last gtid = fp_String gtid"

definition fp_GTIDSet :: "filepos_gtid \<Rightarrow> GTIDSet" where
  "fp_GTIDSet gtid = FilePosGTIDSet gtid"

definition fp_ContainsGTID :: "filepos_gtid \<Rightarrow> GTID option \<Rightarrow> bool" where
  "fp_ContainsGTID gtid other =
     (case other of None \<Rightarrow> True
      | Some (FilePosGTID filePosOther) \<Rightarrow>
          if str_less (fpFile filePosOther) (fpFile gtid) then True
          else if str_less (fpFile gtid) (fpFile filePosOther) then False
          else fpPos filePosOther \<le> fpPos gtid
      | _ \<Rightarrow> False)"

definition fp_Contains :: "filepos_gtid \<Rightarrow> GTIDSet option \<Rightarrow> bool" where
  "fp_Contains gtid other =
     (case other of Some (FilePosGTIDSet filePosOther) \<Rightarrow> fp_ContainsGTID gtid (Some (FilePosGTID filePosOther))
      | _ \<Rightarrow> False)"

definition fp_Equal :: "filepos_gtid \<Rightarrow> GTIDSet option \<Rightarrow> bool" where
  "fp_Equal gtid other = (case other of Some (FilePosGTIDSet filePosOther) \<Rightarrow> gtid = filePosOther | _ \<Rightarrow> False)"

definition fp_AddGTID :: "filepos_gtid \<Rightarrow> GTID option \<Rightarrow> filepos_gtid" where
  "fp_AddGTID gtid other = (case other of Some (FilePosGTID filePosOther) \<Rightarrow> filePosOther | _ \<Rightarrow> gtid)"

text \<open>\<open>Intersect\<close> compares the argument with itself, so it returns the argument.\<close>

definition fp_Intersect :: "filepos_gtid \<Rightarrow> GTIDSet option \<Rightarrow> GTIDSet option" where
  "fp_Intersect gtid other =
     (case other of
        Some (FilePosGTIDSet filePosOther) \<Rightarrow>
          if \<not> fp_Equal filePosOther other then None else Some (FilePosGTIDSet filePosOther)
      | _ \<Rightarrow> None)"

definition fp_Union :: "filepos_gtid \<Rightarrow> GTIDSet option \<Rightarrow> filepos_gtid" where
  "fp_Union gtid other =
     (case other of
        Some (FilePosGTIDSet filePosOther) \<Rightarrow> if fp_Contains gtid other then gtid else filePosOther
      | _ \<Rightarrow> gtid)"

section \<open>The order of positions\<close>

text \<open>The positions at or before a given one.\<close>

definition fp_set :: "filepos_gtid \<Rightarrow> (string \<times> int) set" where
  "fp_set g = {(f, p). str_less f (fpFile g) \<or> f = fpFile g \<and> p \<le> fpPos g}"

lemma fp_self: "(fpFile g, fpPos g) \<in> fp_set g"
  by (simp add: fp_set_def)

lemma fp_ContainsGTID_mem:
  "fp_ContainsGTID a (Some (FilePosGTID b)) \<longleftrightarrow> (fpFile b, fpPos b) \<in> fp_set a"
  using str_less_linear [of "fpFile b" "fpFile a"] str_less_asym [of "fpFile a" "fpFile b"]
  by (auto simp: fp_ContainsGTID_def fp_set_def)

lemma fp_set_down: "(fpFile b, fpPos b) \<in> fp_set a \<longleftrightarrow> fp_set b \<subseteq> fp_set a"
proof
  assume "(fpFile b, fpPos b) \<in> fp_set a"
  then show "fp_set b \<subseteq> fp_set a" by (auto simp: fp_set_def intro: str_less_trans)
next
  assume "fp_set b \<subseteq> fp_set a"
  then show "(fpFile b, fpPos b) \<in> fp_set a" using fp_self [of b] by blast
qed

lemma fp_Contains_iff: "fp_Contains a (Some (FilePosGTIDSet b)) \<longleftrightarrow> fp_set b \<subseteq> fp_set a"
  by (simp add: fp_Contains_def fp_ContainsGTID_mem fp_set_down)

lemma fp_set_linear: "fp_set a \<subseteq> fp_set b \<or> fp_set b \<subseteq> fp_set a"
  unfolding fp_set_down [symmetric] using str_less_linear [of "fpFile a" "fpFile b"] by (auto simp: fp_set_def)

lemma fp_Union_set: "fp_set (fp_Union a (Some (FilePosGTIDSet b))) = fp_set a \<union> fp_set b"
  using fp_set_linear [of a b] by (auto simp: fp_Union_def fp_Contains_iff)

lemma fp_set_inj: "fp_set a = fp_set b \<Longrightarrow> a = b"
proof -
  assume eq: "fp_set a = fp_set b"
  then have "(fpFile a, fpPos a) \<in> fp_set b" "(fpFile b, fpPos b) \<in> fp_set a" using fp_self by blast+
  then have ab: "str_less (fpFile a) (fpFile b) \<or> fpFile a = fpFile b \<and> fpPos a \<le> fpPos b"
    and ba: "str_less (fpFile b) (fpFile a) \<or> fpFile b = fpFile a \<and> fpPos b \<le> fpPos a"
    unfolding fp_set_def by blast+
  have "fpFile a = fpFile b" using ab ba str_less_asym by metis
  moreover from this have "fpPos a = fpPos b" using ab ba by simp
  ultimately show "a = b" by simp
qed

interpretation fp: gtid_order fp_set "\<lambda>_. True" "\<lambda>a b. fp_Contains a (Some (FilePosGTIDSet b))"
    "\<lambda>a b. fp_Union a (Some (FilePosGTIDSet b))"
  by unfold_locales (simp_all add: fp_Contains_iff fp_Union_set)

section \<open>The text form\<close>

lemma parseFilePos_String:
  assumes "CHR '':'' \<notin> set (fpFile g)" "- maxInt64 - 1 \<le> fpPos g" "fpPos g \<le> maxInt64"
  shows "parseFilePosGTID (fp_String g) = Inr g"
proof -
  have "CHR '':'' \<notin> set (FormatInt (fpPos g))" by (simp add: FormatInt_def)
  then have "split CHR '':'' (fp_String g) = [fpFile g, FormatInt (fpPos g)]"
    using assms by (simp add: fp_String_def split_append split_notin)
  with assms show ?thesis by (simp add: parseFilePosGTID_def ParseInt64_FormatInt)
qed

section \<open>Where the operations fall short\<close>

text \<open>The intersection is the argument, whichever of the two positions is further along.\<close>

lemma fp_Intersect_is_argument: "fp_Intersect a (Some (FilePosGTIDSet b)) = Some (FilePosGTIDSet b)"
  by (simp add: fp_Intersect_def fp_Equal_def)

text \<open>\<open>AddGTID\<close> of an older position moves back.\<close>

lemma fp_AddGTID_moves_back:
  "\<not> fp_ContainsGTID (fp_AddGTID \<lparr>fpFile = ''b'', fpPos = 9\<rparr> (Some (FilePosGTID \<lparr>fpFile = ''b'', fpPos = 4\<rparr>)))
       (Some (FilePosGTID \<lparr>fpFile = ''b'', fpPos = 9\<rparr>))"
  by (simp add: fp_ContainsGTID_def fp_AddGTID_def)

end
