(* ===== verification/Position.thy ===== *)
theory Position
  imports Gtid56Text Gtid56Order GtidMariadb GtidFilePos
begin

text \<open>
  The \<open>GTID\<close> and \<open>GTIDSet\<close> interfaces as dispatch over the three flavors, and replication
  positions (\<open>go/mysql/gtid.go\<close>, \<open>go/mysql/gtid_set.go\<close>, \<open>go/mysql/replication_position.go\<close>).
  A position is a possibly nil \<open>GTIDSet\<close>. A method call on a nil interface is a panic.
\<close>

section \<open>Dispatch\<close>

definition gtid_Flavor :: "GTID \<Rightarrow> string" where
  "gtid_Flavor g = (case g of Mysql56GTID _ \<Rightarrow> Mysql56FlavorID | MariadbGTID _ \<Rightarrow> MariadbFlavorID
     | FilePosGTID _ \<Rightarrow> FilePosFlavorID)"

definition gtid_String :: "GTID \<Rightarrow> string" where
  "gtid_String g = (case g of Mysql56GTID a \<Rightarrow> m56gtid_String a | MariadbGTID a \<Rightarrow> mdbgtid_String a
     | FilePosGTID a \<Rightarrow> fp_String a)"

definition gtid_GTIDSet :: "GTID \<Rightarrow> GTIDSet" where
  "gtid_GTIDSet g = (case g of Mysql56GTID a \<Rightarrow> m56gtid_GTIDSet a
     | MariadbGTID a \<Rightarrow> MariadbGTIDSet (Some (mdbgtid_GTIDSet a)) | FilePosGTID a \<Rightarrow> fp_GTIDSet a)"

definition gs_Flavor :: "GTIDSet \<Rightarrow> string" where
  "gs_Flavor s = (case s of Mysql56GTIDSet _ \<Rightarrow> Mysql56FlavorID | MariadbGTIDSet _ \<Rightarrow> MariadbFlavorID
     | FilePosGTIDSet _ \<Rightarrow> FilePosFlavorID)"

definition gs_String :: "sid sorter \<Rightarrow> GTIDSet \<Rightarrow> string" where
  "gs_String sfs s = (case s of Mysql56GTIDSet a \<Rightarrow> m56_String sfs a | MariadbGTIDSet a \<Rightarrow> mdb_String a
     | FilePosGTIDSet a \<Rightarrow> fp_String a)"

definition gs_ContainsGTID :: "GTIDSet \<Rightarrow> GTID option \<Rightarrow> bool" where
  "gs_ContainsGTID s g = (case s of Mysql56GTIDSet a \<Rightarrow> m56_ContainsGTID a g | MariadbGTIDSet a \<Rightarrow> mdb_ContainsGTID a g
     | FilePosGTIDSet a \<Rightarrow> fp_ContainsGTID a g)"

definition gs_Contains :: "GTIDSet \<Rightarrow> GTIDSet option \<Rightarrow> bool" where
  "gs_Contains s b = (case s of Mysql56GTIDSet a \<Rightarrow> m56_Contains a b | MariadbGTIDSet a \<Rightarrow> mdb_Contains a b
     | FilePosGTIDSet a \<Rightarrow> fp_Contains a b)"

definition gs_Equal :: "GTIDSet \<Rightarrow> GTIDSet option \<Rightarrow> bool" where
  "gs_Equal s b = (case s of Mysql56GTIDSet a \<Rightarrow> m56_Equal a b | MariadbGTIDSet a \<Rightarrow> mdb_Equal a b
     | FilePosGTIDSet a \<Rightarrow> fp_Equal a b)"

definition gs_AddGTID :: "GTIDSet \<Rightarrow> GTID option \<Rightarrow> GTIDSet" where
  "gs_AddGTID s g = (case s of Mysql56GTIDSet a \<Rightarrow> Mysql56GTIDSet (m56_AddGTID a g)
     | MariadbGTIDSet a \<Rightarrow> MariadbGTIDSet (mdb_AddGTID a g) | FilePosGTIDSet a \<Rightarrow> FilePosGTIDSet (fp_AddGTID a g))"

definition gs_Union :: "GTIDSet \<Rightarrow> GTIDSet option \<Rightarrow> GTIDSet option" where
  "gs_Union s b = (case s of Mysql56GTIDSet a \<Rightarrow> m56_Union a b | MariadbGTIDSet a \<Rightarrow> mdb_Union a b
     | FilePosGTIDSet a \<Rightarrow> Some (FilePosGTIDSet (fp_Union a b)))"

definition gs_Intersect :: "GTIDSet \<Rightarrow> GTIDSet option \<Rightarrow> GTIDSet option" where
  "gs_Intersect s b = (case s of Mysql56GTIDSet a \<Rightarrow> Some (Mysql56GTIDSet (m56_Intersect a b))
     | MariadbGTIDSet a \<Rightarrow> mdb_Intersect a b | FilePosGTIDSet a \<Rightarrow> fp_Intersect a b)"

section \<open>Parsers by flavor\<close>

definition ParseGTID :: "string \<Rightarrow> string \<Rightarrow> gtid_error + GTID" where
  "ParseGTID flavor value =
     (if flavor = Mysql56FlavorID then parseMysql56GTID value
      else if flavor = MariadbFlavorID then map_sum id MariadbGTID (parseMariadbGTID value)
      else if flavor = FilePosFlavorID then map_sum id FilePosGTID (parseFilePosGTID value)
      else Inl (UnknownFlavor flavor))"

definition MustParseGTID :: "string \<Rightarrow> string \<Rightarrow> GTID outcome" where
  "MustParseGTID flavor value = (case ParseGTID flavor value of Inl _ \<Rightarrow> Panic | Inr g \<Rightarrow> Ret g)"

definition EncodeGTID :: "GTID option \<Rightarrow> string" where
  "EncodeGTID gtid = (case gtid of None \<Rightarrow> [] | Some g \<Rightarrow> gtid_Flavor g @ CHR ''/'' # gtid_String g)"

definition DecodeGTID :: "string \<Rightarrow> gtid_error + GTID option" where
  "DecodeGTID s =
     (if s = [] then Inr None
      else (case cut CHR ''/'' s of (p0, p1, ok) \<Rightarrow>
        map_sum id Some (if \<not> ok then ParseGTID [] s else ParseGTID p0 p1)))"

type_synonym position = "GTIDSet option"

definition ParsePosition :: "interval sorter \<Rightarrow> string \<Rightarrow> string \<Rightarrow> gtid_error + position" where
  "ParsePosition sf flavor value =
     (if flavor = Mysql56FlavorID then map_sum id (Some \<circ> Mysql56GTIDSet \<circ> Some) (ParseMysql56GTIDSet sf value)
      else if flavor = MariadbFlavorID then map_sum id (Some \<circ> MariadbGTIDSet \<circ> Some) (parseMariadbGTIDSet value)
      else if flavor = FilePosFlavorID then map_sum id (Some \<circ> FilePosGTIDSet) (ParseFilePosGTIDSet value)
      else Inl (UnknownFlavor flavor))"

definition MustParsePosition :: "interval sorter \<Rightarrow> string \<Rightarrow> string \<Rightarrow> position outcome" where
  "MustParsePosition sf flavor value = (case ParsePosition sf flavor value of Inl _ \<Rightarrow> Panic | Inr rp \<Rightarrow> Ret rp)"

definition EncodePosition :: "sid sorter \<Rightarrow> position \<Rightarrow> string" where
  "EncodePosition sfs rp = (case rp of None \<Rightarrow> [] | Some s \<Rightarrow> gs_Flavor s @ CHR ''/'' # gs_String sfs s)"

definition DecodePosition :: "interval sorter \<Rightarrow> string \<Rightarrow> gtid_error + position" where
  "DecodePosition sf s =
     (if s = [] then Inr None
      else (case cut CHR ''/'' s of (flav, gtid, ok) \<Rightarrow>
        if \<not> ok then ParsePosition sf [] s else ParsePosition sf flav gtid))"

section \<open>Comparing positions\<close>

definition pos_Equal :: "position \<Rightarrow> position \<Rightarrow> bool" where
  "pos_Equal rp other = (case rp of None \<Rightarrow> other = None | Some s \<Rightarrow> gs_Equal s other)"

definition AtLeast :: "position \<Rightarrow> position \<Rightarrow> bool" where
  "AtLeast rp other =
     (if other = None then True else (case rp of None \<Rightarrow> False | Some s \<Rightarrow> gs_Contains s other))"

definition pos_String :: "sid sorter \<Rightarrow> position \<Rightarrow> string" where
  "pos_String sfs rp = (case rp of None \<Rightarrow> ''<nil>'' | Some s \<Rightarrow> gs_String sfs s)"

definition IsZero :: "position \<Rightarrow> bool" where
  "IsZero rp \<longleftrightarrow> rp = None"

definition AppendGTID :: "position \<Rightarrow> GTID option \<Rightarrow> position" where
  "AppendGTID rp gtid =
     (case gtid of None \<Rightarrow> rp
      | Some g \<Rightarrow> (case rp of None \<Rightarrow> Some (gtid_GTIDSet g) | Some s \<Rightarrow> Some (gs_AddGTID s gtid)))"

definition MatchesFlavor :: "position \<Rightarrow> string \<Rightarrow> bool" where
  "MatchesFlavor rp flavor =
     (if flavor = Mysql56FlavorID then (case rp of Some (Mysql56GTIDSet _) \<Rightarrow> True | _ \<Rightarrow> False)
      else if flavor = MariadbFlavorID then (case rp of Some (MariadbGTIDSet _) \<Rightarrow> True | _ \<Rightarrow> False)
      else if flavor = FilePosFlavorID then (case rp of Some (FilePosGTIDSet _) \<Rightarrow> True | _ \<Rightarrow> False)
      else False)"

definition Comparable :: "position \<Rightarrow> position \<Rightarrow> bool outcome" where
  "Comparable rp other =
     (case rp of None \<Rightarrow> Panic
      | Some s \<Rightarrow>
          if gs_Contains s other then Ret True
          else (case other of None \<Rightarrow> Panic | Some t \<Rightarrow> Ret (gs_Contains t rp)))"

fun comparable_with :: "position \<Rightarrow> position list \<Rightarrow> bool outcome" where
  "comparable_with p [] = Ret True"
| "comparable_with p (q # qs) = obind (Comparable p q) (\<lambda>c. if \<not> c then Ret False else comparable_with p qs)"

fun AllPositionsComparable :: "position list \<Rightarrow> bool outcome" where
  "AllPositionsComparable [] = Ret True"
| "AllPositionsComparable (p # ps) =
     obind (comparable_with p ps) (\<lambda>c. if \<not> c then Ret False else AllPositionsComparable ps)"

section \<open>What a position denotes\<close>

datatype tx = Tx56 sid int | TxMdb "32 word" "64 word" | TxFile string int

definition gs_set :: "GTIDSet \<Rightarrow> tx set" where
  "gs_set s = (case s of Mysql56GTIDSet a \<Rightarrow> (\<lambda>(sid, q). Tx56 sid q) ` m56_set a
     | MariadbGTIDSet a \<Rightarrow> (\<lambda>(d, q). TxMdb d q) ` mdb_set (entries a)
     | FilePosGTIDSet a \<Rightarrow> (\<lambda>(f, p). TxFile f p) ` fp_set a)"

definition wf_gs :: "GTIDSet \<Rightarrow> bool" where
  "wf_gs s = (case s of Mysql56GTIDSet a \<Rightarrow> wf56 a | MariadbGTIDSet a \<Rightarrow> wf_mdb (entries a) | FilePosGTIDSet a \<Rightarrow> True)"

definition wf_pos :: "position \<Rightarrow> bool" where
  "wf_pos rp = (case rp of None \<Rightarrow> True | Some s \<Rightarrow> wf_gs s)"

text \<open>A set as the parsers and operations build it: no server without an interval.\<close>

definition proper_gs :: "GTIDSet \<Rightarrow> bool" where
  "proper_gs s \<longleftrightarrow> wf_gs s \<and> (case s of Mysql56GTIDSet a \<Rightarrow> no_empty a | _ \<Rightarrow> True)"

definition proper_pos :: "position \<Rightarrow> bool" where
  "proper_pos rp = (case rp of None \<Rightarrow> True | Some s \<Rightarrow> proper_gs s)"

lemma tx_inj: "inj (\<lambda>(sid, q). Tx56 sid q)" "inj (\<lambda>(d, q). TxMdb d q)" "inj (\<lambda>(f, p). TxFile f p)"
  by (auto simp: inj_def)

lemma mdb_Contains_entries: "mdb_Contains gs (Some (MariadbGTIDSet b)) = mdb_Contains (Some (entries gs)) (Some (MariadbGTIDSet (Some (entries b))))"
  by (simp add: mdb_Contains_def mdb_ContainsGTID_def)

lemma gs_Contains_other_flavor: "gs_Flavor a \<noteq> gs_Flavor b \<Longrightarrow> \<not> gs_Contains a (Some b)"
  by (cases a; cases b)
    (simp_all add: gs_Flavor_def gs_Contains_def m56_Contains_def mdb_Contains_def fp_Contains_def)

lemma gs_Contains_same_flavor:
  assumes "wf_gs a" "wf_gs b" "gs_Flavor a = gs_Flavor b"
  shows "gs_Contains a (Some b) \<longleftrightarrow> gs_set b \<subseteq> gs_set a"
proof (cases a)
  case (Mysql56GTIDSet x)
  then obtain y where "b = Mysql56GTIDSet y" using assms(3) by (cases b) (simp_all add: gs_Flavor_def flavor_defs)
  with Mysql56GTIDSet assms show ?thesis
    by (simp add: gs_Contains_def gs_set_def wf_gs_def m56_Contains_iff inj_image_subset_iff [OF tx_inj(1)])
next
  case (MariadbGTIDSet x)
  then obtain y where "b = MariadbGTIDSet y" using assms(3) by (cases b) (simp_all add: gs_Flavor_def flavor_defs)
  with MariadbGTIDSet assms mdb_Contains_entries [of x y] show ?thesis
    by (simp add: gs_Contains_def gs_set_def wf_gs_def mdb_Contains_iff inj_image_subset_iff [OF tx_inj(2)])
next
  case (FilePosGTIDSet x)
  then obtain y where "b = FilePosGTIDSet y" using assms(3) by (cases b) (simp_all add: gs_Flavor_def flavor_defs)
  with FilePosGTIDSet show ?thesis
    by (simp add: gs_Contains_def gs_set_def fp_Contains_iff inj_image_subset_iff [OF tx_inj(3)])
qed

lemma gs_Contains_iff:
  assumes "wf_gs a" "wf_gs b"
  shows "gs_Contains a (Some b) \<longleftrightarrow> gs_Flavor a = gs_Flavor b \<and> gs_set b \<subseteq> gs_set a"
  using gs_Contains_other_flavor gs_Contains_same_flavor [OF assms] by blast

lemma AtLeast_refl: "wf_pos rp \<Longrightarrow> AtLeast rp rp"
  by (cases rp) (auto simp: AtLeast_def wf_pos_def gs_Contains_iff)

lemma AtLeast_None: "AtLeast rp None"
  by (simp add: AtLeast_def)

lemma AtLeast_trans: "wf_pos a \<Longrightarrow> wf_pos b \<Longrightarrow> wf_pos c \<Longrightarrow> AtLeast a b \<Longrightarrow> AtLeast b c \<Longrightarrow> AtLeast a c"
  by (cases a; cases b; cases c) (auto simp: AtLeast_def wf_pos_def gs_Contains_iff)

lemma Equal_AtLeast:
  assumes "proper_pos a" "proper_pos b" "pos_Equal a b" shows "AtLeast a b \<and> AtLeast b a"
proof (cases a)
  case None
  with assms show ?thesis by (simp add: pos_Equal_def AtLeast_def)
next
  case (Some s)
  with assms obtain t where b: "b = Some t" "gs_Equal s (Some t)"
    by (cases b; cases s) (auto simp: pos_Equal_def gs_Equal_def m56_Equal_def mdb_Equal_def fp_Equal_def)
  have p: "proper_gs s" "proper_gs t" using assms Some b by (simp_all add: proper_pos_def)
  then have w: "wf_gs s" "wf_gs t" by (simp_all add: proper_gs_def)
  have "gs_Flavor s = gs_Flavor t \<and> gs_set s = gs_set t"
  proof (cases s)
    case (Mysql56GTIDSet x)
    with b obtain y where y: "t = Mysql56GTIDSet y" "m56_Equal x (Some (Mysql56GTIDSet y))"
      by (cases t) (auto simp: gs_Equal_def m56_Equal_def)
    with p Mysql56GTIDSet m56_Equal_iff [of x y] show ?thesis
      by (simp add: proper_gs_def gs_Flavor_def gs_set_def wf_gs_def)
  next
    case (MariadbGTIDSet x)
    with b obtain y where y: "t = MariadbGTIDSet y" "mdb_Equal x (Some (MariadbGTIDSet y))"
      by (cases t) (auto simp: gs_Equal_def mdb_Equal_def)
    then have "mdb_Equal (Some (entries x)) (Some (MariadbGTIDSet (Some (entries y))))" by (simp add: mdb_Equal_def)
    with w y MariadbGTIDSet have "map_of (entries x) = map_of (entries y)" by (simp add: mdb_Equal_iff wf_gs_def)
    with y MariadbGTIDSet show ?thesis by (simp add: gs_Flavor_def gs_set_def mdb_set_def)
  next
    case (FilePosGTIDSet x)
    with b show ?thesis by (cases t) (auto simp: gs_Equal_def fp_Equal_def)
  qed
  with w Some b show ?thesis by (simp add: AtLeast_def gs_Contains_iff)
qed

section \<open>Appending a GTID\<close>

text \<open>The transactions a GTID stands for: itself, or all of its domain up to it.\<close>

definition gtid_down :: "GTID \<Rightarrow> tx set" where
  "gtid_down g = (case g of Mysql56GTID a \<Rightarrow> {Tx56 (Server a) (Sequence a)}
     | MariadbGTID a \<Rightarrow> TxMdb (mDomain a) ` {.. mSequence a}
     | FilePosGTID a \<Rightarrow> (\<lambda>(f, p). TxFile f p) ` fp_set a)"

definition valid_gtid :: "GTID \<Rightarrow> bool" where
  "valid_gtid g = (case g of Mysql56GTID a \<Rightarrow> valid56 a | _ \<Rightarrow> True)"

definition pos_set :: "position \<Rightarrow> tx set" where
  "pos_set rp = (case rp of None \<Rightarrow> {} | Some s \<Rightarrow> gs_set s)"

lemma mdb_AddGTID_entries:
  assumes "wf_mdb (entries gs)"
  shows "wf_mdb (entries (mdb_AddGTID gs (Some (MariadbGTID g))))"
    "mdb_set (entries (mdb_AddGTID gs (Some (MariadbGTID g)))) = mdb_set (entries gs) \<union> {mDomain g} \<times> {.. mSequence g}"
proof -
  have "deepCopy gs = deepCopy (Some (entries gs))" by (simp add: deepCopy_def)
  then have "mdb_AddGTID gs (Some (MariadbGTID g)) = mdb_AddGTID (Some (entries gs)) (Some (MariadbGTID g))"
    by (simp add: mdb_AddGTID_def)
  then show "wf_mdb (entries (mdb_AddGTID gs (Some (MariadbGTID g))))"
    "mdb_set (entries (mdb_AddGTID gs (Some (MariadbGTID g)))) = mdb_set (entries gs) \<union> {mDomain g} \<times> {.. mSequence g}"
    using mdb_AddGTID_correct [OF assms, of g] by simp_all
qed

lemma gs_AddGTID_correct:
  assumes "wf_gs s" "valid_gtid g" "gs_Flavor s = gtid_Flavor g" "gtid_Flavor g \<noteq> FilePosFlavorID"
  shows "wf_gs (gs_AddGTID s (Some g)) \<and> gs_Flavor (gs_AddGTID s (Some g)) = gs_Flavor s \<and>
    gs_set (gs_AddGTID s (Some g)) = gs_set s \<union> gtid_down g"
proof (cases g)
  case (Mysql56GTID a)
  then obtain x where "s = Mysql56GTIDSet x"
    using assms(3) by (cases s) (simp_all add: gs_Flavor_def gtid_Flavor_def flavor_defs)
  with Mysql56GTID assms m56_AddGTID_correct [of x a] show ?thesis
    by (simp add: gs_AddGTID_def gs_Flavor_def wf_gs_def gs_set_def gtid_down_def valid_gtid_def valid56_def)
next
  case (MariadbGTID a)
  then obtain x where "s = MariadbGTIDSet x"
    using assms(3) by (cases s) (simp_all add: gs_Flavor_def gtid_Flavor_def flavor_defs)
  with MariadbGTID assms mdb_AddGTID_entries [of x a] show ?thesis
    by (auto simp: gs_AddGTID_def gs_Flavor_def wf_gs_def gs_set_def gtid_down_def image_Un)
next
  case (FilePosGTID a)
  with assms show ?thesis by (simp add: gtid_Flavor_def)
qed

lemma m56_set_empty [simp]: "m56_set (Some []) = {}"
  by (simp add: m56_set_def ivs_of_def)

lemma gtid_GTIDSet_correct:
  assumes "valid_gtid g"
  shows "wf_gs (gtid_GTIDSet g) \<and> gs_Flavor (gtid_GTIDSet g) = gtid_Flavor g \<and> gs_set (gtid_GTIDSet g) = gtid_down g"
proof (cases g)
  case (Mysql56GTID a)
  have "wf56 (Some [])" by (simp add: wf56_def)
  with Mysql56GTID assms m56_AddGTID_correct [of "Some []" a] show ?thesis
    by (simp add: gtid_GTIDSet_def m56gtid_GTIDSet_def gs_Flavor_def gtid_Flavor_def wf_gs_def gs_set_def gtid_down_def
        valid_gtid_def valid56_def)
next
  case (MariadbGTID a)
  have "mdb_set [(mDomain a, a)] = {mDomain a} \<times> {.. mSequence a}" by (auto simp: mdb_set_def split: if_splits)
  with MariadbGTID show ?thesis
    by (auto simp: gtid_GTIDSet_def mdbgtid_GTIDSet_def gs_Flavor_def gtid_Flavor_def wf_gs_def gs_set_def gtid_down_def
        wf_mdb_def wf_map_def)
next
  case (FilePosGTID a)
  then show ?thesis
    by (simp add: gtid_GTIDSet_def fp_GTIDSet_def gs_Flavor_def gtid_Flavor_def wf_gs_def gs_set_def gtid_down_def)
qed

text \<open>The position and the GTID are of one flavor.\<close>

definition same_flavor :: "position \<Rightarrow> GTID \<Rightarrow> bool" where
  "same_flavor rp g = (case rp of None \<Rightarrow> True | Some s \<Rightarrow> gs_Flavor s = gtid_Flavor g)"

lemma AppendGTID_set:
  assumes "wf_pos rp" "valid_gtid g" "same_flavor rp g" "gtid_Flavor g \<noteq> FilePosFlavorID"
  shows "wf_pos (AppendGTID rp (Some g)) \<and> pos_set (AppendGTID rp (Some g)) = pos_set rp \<union> gtid_down g \<and>
    AtLeast (AppendGTID rp (Some g)) rp"
proof (cases rp)
  case None
  with gtid_GTIDSet_correct [OF assms(2)] show ?thesis
    by (simp add: AppendGTID_def wf_pos_def pos_set_def AtLeast_def)
next
  case (Some s)
  with gs_AddGTID_correct [of s g] assms show ?thesis
    by (simp add: AppendGTID_def wf_pos_def pos_set_def same_flavor_def AtLeast_def gs_Contains_iff)
qed

section \<open>Encoding\<close>

lemma flavor_no_slash:
  "CHR ''/'' \<notin> set Mysql56FlavorID" "CHR ''/'' \<notin> set MariadbFlavorID" "CHR ''/'' \<notin> set FilePosFlavorID"
  by (simp_all add: flavor_defs)

lemma DecodePosition_Encode:
  "DecodePosition sf (EncodePosition sfs (Some s)) = ParsePosition sf (gs_Flavor s) (gs_String sfs s)"
proof -
  have "CHR ''/'' \<notin> set (gs_Flavor s)" by (cases s) (simp_all add: gs_Flavor_def flavor_no_slash)
  then show ?thesis by (simp add: DecodePosition_def EncodePosition_def cut_append)
qed

text \<open>File names the text form can carry, and offsets of an \<open>int\<close>.\<close>

definition printable_gs :: "GTIDSet \<Rightarrow> bool" where
  "printable_gs s \<longleftrightarrow> proper_gs s \<and>
     (case s of FilePosGTIDSet g \<Rightarrow> CHR '':'' \<notin> set (fpFile g) \<and> - maxInt64 - 1 \<le> fpPos g \<and> fpPos g \<le> maxInt64
      | _ \<Rightarrow> True)"

lemma wf56_cong: "wf_map m \<Longrightarrow> wf56 gs \<Longrightarrow> map_of m = map_of (entries gs) \<Longrightarrow> wf56 (Some m)"
  by (cases gs) (auto simp: wf56_alt)

lemma no_empty_cong: "wf_map m \<Longrightarrow> wf56 gs \<Longrightarrow> no_empty gs \<Longrightarrow> map_of m = map_of (entries gs) \<Longrightarrow> no_empty (Some m)"
  using no_empty_alt [of m] no_empty_alt [of "entries gs"] wf56_wf_map [of gs]
  by (cases gs) (auto simp: no_empty_def)

lemma m56_set_cong: "map_of (entries a) = map_of (entries b) \<Longrightarrow> m56_set a = m56_set b"
  by (simp add: m56_set_def ivs_of_def)

lemma ParsePosition_String:
  assumes "sort_func sf" "sort_func sfs" "printable_gs s"
  obtains t where "ParsePosition sf (gs_Flavor s) (gs_String sfs s) = Inr (Some t)" "gs_Equal s (Some t)" "proper_gs t"
proof (cases s)
  case (Mysql56GTIDSet x)
  then have x: "wf56 x" "no_empty x" using assms(3) by (simp_all add: printable_gs_def proper_gs_def wf_gs_def)
  obtain m where m: "ParseMysql56GTIDSet sf (m56_String sfs x) = Inr m" "wf_map m" "map_of m = map_of (entries x)"
    using Parse_String [OF assms(1,2) x] .
  note mw = wf56_cong [OF m(2) x(1) m(3)] no_empty_cong [OF m(2) x m(3)]
  have "m56_Equal x (Some (Mysql56GTIDSet (Some m)))"
    using m56_Equal_iff [OF x(1) mw(1) x(2) mw(2)] m56_set_cong [of x "Some m"] m(3) by simp
  with m mw Mysql56GTIDSet show ?thesis
    by (intro that [of "Mysql56GTIDSet (Some m)"])
      (simp_all add: ParsePosition_def gs_Flavor_def gs_String_def gs_Equal_def proper_gs_def wf_gs_def)
next
  case (MariadbGTIDSet x)
  then have x: "wf_mdb (entries x)" using assms(3) by (simp add: printable_gs_def proper_gs_def wf_gs_def)
  obtain m where m: "parseMariadbGTIDSet (mdb_String (Some (entries x))) = Inr m" "wf_map m" "map_of m = map_of (entries x)"
    using parse_mdb_String [OF x] .
  have w: "wf_mdb m" using x m(2,3) by (simp add: wf_mdb_alt)
  have e: "mdb_String x = mdb_String (Some (entries x))"
    "mdb_Equal x (Some (MariadbGTIDSet (Some m))) = mdb_Equal (Some (entries x)) (Some (MariadbGTIDSet (Some m)))"
    by (simp_all add: mdb_String_def mdb_domains_def mdb_lookup_String_def [abs_def] mdb_Equal_def)
  with m w x MariadbGTIDSet show ?thesis
    by (intro that [of "MariadbGTIDSet (Some m)"])
      (simp_all add: ParsePosition_def gs_Flavor_def gs_String_def gs_Equal_def proper_gs_def wf_gs_def flavor_defs
        mdb_Equal_iff)
next
  case (FilePosGTIDSet g)
  then have "parseFilePosGTID (fp_String g) = Inr g" using assms(3) by (intro parseFilePos_String) (auto simp: printable_gs_def)
  with FilePosGTIDSet show ?thesis
    by (intro that [of s])
      (simp_all add: ParsePosition_def ParseFilePosGTIDSet_def gs_Flavor_def gs_String_def gs_Equal_def fp_Equal_def
        flavor_defs proper_gs_def wf_gs_def)
qed

section \<open>Comparability\<close>

definition comparable :: "position \<Rightarrow> position \<Rightarrow> bool" where
  "comparable p q \<longleftrightarrow> AtLeast p q \<or> AtLeast q p"

lemma Comparable_eq: "p \<noteq> None \<Longrightarrow> q \<noteq> None \<Longrightarrow> Comparable p q = Ret (comparable p q)"
  by (auto simp: Comparable_def comparable_def AtLeast_def split: option.splits)

lemma comparable_with_eq:
  "p \<noteq> None \<Longrightarrow> None \<notin> set qs \<Longrightarrow> comparable_with p qs = Ret (list_all (comparable p) qs)"
  by (induction qs) (auto simp: Comparable_eq)

lemma AllPositionsComparable_eq:
  "None \<notin> set ps \<Longrightarrow> AllPositionsComparable ps = Ret (sorted_wrt comparable ps)"
  by (induction ps) (auto simp: comparable_with_eq list_all_iff)

section \<open>Properties\<close>



text \<open>
  The position after replicating a GTID (MySQL 5.6 or MariaDB) is the old one together with
  exactly the transactions the GTID stands for, and it is at least the old one.
\<close>

theorem AppendGTID_advances:
  assumes "wf_pos rp" "valid_gtid g" "same_flavor rp g" "gtid_Flavor g \<noteq> FilePosFlavorID"
  shows "wf_pos (AppendGTID rp (Some g)) \<and> pos_set (AppendGTID rp (Some g)) = pos_set rp \<union> gtid_down g \<and>
    AtLeast (AppendGTID rp (Some g)) rp"
  using assms by (rule AppendGTID_set)

theorem AppendGTID_advances_witness:
  "wf_pos (Some (Mysql56GTIDSet (Some sampleA))) \<and>
   AtLeast (AppendGTID (Some (Mysql56GTIDSet (Some sampleA))) (Some (Mysql56GTID \<lparr>Server = replicate 16 1, Sequence = 4\<rparr>)))
     (Some (Mysql56GTIDSet (Some sampleA)))"
proof -
  have "wf_pos (Some (Mysql56GTIDSet (Some sampleA)))" using samples_wf by (simp add: wf_pos_def wf_gs_def)
  moreover have "valid_gtid (Mysql56GTID \<lparr>Server = replicate 16 1, Sequence = 4\<rparr>)"
    by (simp add: valid_gtid_def valid56_def maxInt64_def)
  ultimately show ?thesis
    using AppendGTID_advances [of "Some (Mysql56GTIDSet (Some sampleA))" "Mysql56GTID \<lparr>Server = replicate 16 1, Sequence = 4\<rparr>"]
    by (simp add: same_flavor_def gs_Flavor_def gtid_Flavor_def flavor_defs)
qed

text \<open>
  C21. Decoding an encoded position gives back a position of the same flavor that is \<open>Equal\<close> to it,
  for all three flavors; the empty string stands for the nil position.
\<close>

theorem decode_encode_position:
  assumes "sort_func sf" "sort_func sfs" "\<And>s. rp = Some s \<Longrightarrow> printable_gs s"
  shows "\<exists>rp'. DecodePosition sf (EncodePosition sfs rp) = Inr rp' \<and> pos_Equal rp rp' \<and> proper_pos rp'"
proof (cases rp)
  case None
  then show ?thesis by (simp add: EncodePosition_def DecodePosition_def pos_Equal_def proper_pos_def)
next
  case (Some s)
  then obtain t where "ParsePosition sf (gs_Flavor s) (gs_String sfs s) = Inr (Some t)" "gs_Equal s (Some t)" "proper_gs t"
    using ParsePosition_String [OF assms(1,2)] assms(3) by blast
  with Some show ?thesis by (simp add: DecodePosition_Encode pos_Equal_def proper_pos_def)
qed

theorem decode_encode_position_witness:
  "printable_gs (Mysql56GTIDSet (Some sampleB)) \<and>
   (\<exists>rp'. DecodePosition insertion_sort (EncodePosition insertion_sort (Some (Mysql56GTIDSet (Some sampleB)))) = Inr rp' \<and>
     pos_Equal (Some (Mysql56GTIDSet (Some sampleB))) rp')"
proof -
  have "printable_gs (Mysql56GTIDSet (Some sampleB))" using samples_wf by (simp add: printable_gs_def proper_gs_def wf_gs_def)
  with decode_encode_position [OF sort_func_insertion_sort sort_func_insertion_sort, of "Some (Mysql56GTIDSet (Some sampleB))"]
  show ?thesis by auto
qed

text \<open>
  On non-nil positions \<open>AllPositionsComparable\<close> returns, without a panic, whether of any two
  positions of the list one is at least the other.
\<close>

theorem AllPositionsComparable_pairs:
  assumes "None \<notin> set ps"
  shows "AllPositionsComparable ps =
    Ret (\<forall>i j. i < j \<and> j < length ps \<longrightarrow> AtLeast (ps ! i) (ps ! j) \<or> AtLeast (ps ! j) (ps ! i))"
  using AllPositionsComparable_eq [OF assms] by (auto simp: sorted_wrt_iff_nth_less comparable_def)

theorem AllPositionsComparable_pairs_witness:
  "None \<notin> set [Some (Mysql56GTIDSet (Some sampleA)), Some (Mysql56GTIDSet (Some sampleB))] \<and>
   AllPositionsComparable [Some (Mysql56GTIDSet (Some sampleA)), Some (Mysql56GTIDSet (Some sampleB))] = Ret False \<and>
   \<not> AtLeast (Some (Mysql56GTIDSet (Some sampleA))) (Some (Mysql56GTIDSet (Some sampleB)))"
proof -
  have "AllPositionsComparable [Some (Mysql56GTIDSet (Some sampleA)), Some (Mysql56GTIDSet (Some sampleB))] = Ret False"
    by code_simp
  with AllPositionsComparable_pairs [of "[Some (Mysql56GTIDSet (Some sampleA)), Some (Mysql56GTIDSet (Some sampleB))]"]
  show ?thesis by (auto simp: less_Suc_eq)
qed

end
