(* ===== verification/LastSeenGtid.thy ===== *)
theory LastSeenGtid
  imports Position
begin

text \<open>
  The GTIDs a client session has seen (\<open>go/vt/vtgate/last_seen_gtid.go\<close>), and their compression
  by what every replica reports. The mutex is not modelled: each method runs under it.
  A pointer is \<open>None\<close> when nil; an interface value is \<open>None\<close> when nil.
\<close>

record last_seen_gtid =
  lsFlavor :: string
  lsSet :: "GTIDSet option"

definition NewLastSeenGtid :: "string \<Rightarrow> string + last_seen_gtid" where
  "NewLastSeenGtid flavor =
     (if flavor = MariadbFlavorID then Inr \<lparr>lsFlavor = flavor, lsSet = Some (MariadbGTIDSet (Some []))\<rparr>
      else if flavor = Mysql56FlavorID then Inr \<lparr>lsFlavor = flavor, lsSet = Some (Mysql56GTIDSet (Some []))\<rparr>
      else Inl (''unsupported flavor: '' @ flavor))"

definition AddGtid :: "last_seen_gtid \<Rightarrow> string \<Rightarrow> (gtid_error option \<times> last_seen_gtid) outcome" where
  "AddGtid g gtidStr =
     (case ParseGTID (lsFlavor g) gtidStr of
        Inl err \<Rightarrow> Ret (Some err, g)
      | Inr parsedGtid \<Rightarrow>
          (case lsSet g of None \<Rightarrow> Panic
           | Some s \<Rightarrow> Ret (None, g\<lparr>lsSet := Some (gs_AddGTID s (Some parsedGtid))\<rparr>)))"

definition MergeGtidSets :: "last_seen_gtid \<Rightarrow> GTIDSet option option \<Rightarrow> last_seen_gtid outcome" where
  "MergeGtidSets g gs =
     (case gs of None \<Rightarrow> Ret g
      | Some s \<Rightarrow>
          (case lsSet g of
             Some (Mysql56GTIDSet localSet) \<Rightarrow>
               (case s of
                  Some (Mysql56GTIDSet other) \<Rightarrow>
                    obind (m56_TrimGTIDSet localSet (Some (Mysql56GTIDSet other)))
                      (\<lambda>remainSets. Ret (g\<lparr>lsSet := gs_Union (Mysql56GTIDSet localSet) remainSets\<rparr>))
                | _ \<Rightarrow> Ret g)
           | _ \<Rightarrow> Ret g))"

fun intersect_all :: "GTIDSet option \<Rightarrow> GTIDSet option option list \<Rightarrow> GTIDSet option outcome" where
  "intersect_all joinGtidSet [] = Ret joinGtidSet"
| "intersect_all joinGtidSet (p # ps) =
     (case (joinGtidSet, p) of
        (Some j, Some s) \<Rightarrow> intersect_all (gs_Intersect j s) ps
      | _ \<Rightarrow> Panic)"

definition CompressWithGtidSets :: "last_seen_gtid \<Rightarrow> GTIDSet option option list \<Rightarrow> last_seen_gtid outcome" where
  "CompressWithGtidSets g sets =
     (case sets of [] \<Rightarrow> Ret g
      | None # _ \<Rightarrow> Panic
      | Some s # ps \<Rightarrow> obind (intersect_all s ps) (\<lambda>joinGtidSet. MergeGtidSets g (Some joinGtidSet)))"

definition GetMaxIntervals :: "last_seen_gtid \<Rightarrow> int" where
  "GetMaxIntervals g =
     (case lsSet g of
        Some (Mysql56GTIDSet localSet) \<Rightarrow>
          foldl (\<lambda>maxLen (_, intervals). if maxLen > int (length intervals) then maxLen else int (length intervals))
            0 (entries localSet)
      | _ \<Rightarrow> - 1)"

definition ls_String :: "sid sorter \<Rightarrow> last_seen_gtid \<Rightarrow> string outcome" where
  "ls_String sfs g = (case lsSet g of None \<Rightarrow> Panic | Some s \<Rightarrow> Ret (gs_String sfs s))"

definition ls_Position :: "last_seen_gtid \<Rightarrow> position" where
  "ls_Position g = lsSet g"

section \<open>Compression\<close>

text \<open>What the replicas report, as the method receives it.\<close>

definition reported :: "m56map list \<Rightarrow> GTIDSet option option list" where
  "reported ts = map (\<lambda>t. Some (Some (Mysql56GTIDSet (Some t)))) ts"

lemma intersect_all_reported:
  "intersect_all (Some (Mysql56GTIDSet (Some a))) (reported ts) = Ret (Some (Mysql56GTIDSet (Some (foldl m56_meet a ts))))"
proof (induction ts arbitrary: a)
  case (Cons t ts)
  have "gs_Intersect (Mysql56GTIDSet (Some a)) (Some (Mysql56GTIDSet (Some t))) = Some (Mysql56GTIDSet (Some (m56_meet a t)))"
    by (simp add: gs_Intersect_def m56_meet_def m56_Intersect_def)
  with Cons.IH show ?case by (simp add: reported_def)
qed (simp add: reported_def)

lemma MergeGtidSets_correct:
  assumes l: "wf56 (Some l)" "no_empty (Some l)" and b: "wf56 (Some b)" and g: "lsSet g = Some (Mysql56GTIDSet (Some l))"
  obtains r l' where "MergeGtidSets g (Some (Some (Mysql56GTIDSet (Some b)))) = Ret (g\<lparr>lsSet := Some (Mysql56GTIDSet (Some l'))\<rparr>)"
    "l' = m56_union l r" "wf56 (Some r)" "wf56 (Some l')" "no_empty (Some l')"
    "m56_set (Some r) = {(sid, q) \<in> m56_set (Some b). map_of l sid \<noteq> None \<and> q \<le> last_seen (Some l) sid}"
proof -
  obtain r where r: "m56_TrimGTIDSet (Some l) (Some (Mysql56GTIDSet (Some b))) = Ret (Some (Mysql56GTIDSet (Some r)))"
      "wf56 (Some r)" "m56_set (Some r) = {(sid, q) \<in> m56_set (Some b). map_of l sid \<noteq> None \<and> q \<le> last_seen (Some l) sid}"
      "\<And>k. map_of r k = None \<longleftrightarrow> map_of l k = None \<or> map_of b k = None"
    using m56_Trim_correct [OF l b] by blast
  obtain m where m: "m56_Union (Some l) (Some (Mysql56GTIDSet (Some r))) = Some (Mysql56GTIDSet (Some m))" "wf56 (Some m)"
      "m56_set (Some m) = m56_set (Some l) \<union> m56_set (Some r)"
      "\<And>k. map_of m k = None \<longleftrightarrow> map_of l k = None \<and> map_of r k = None"
    using m56_Union_correct [OF l(1) r(2)] by blast
  have "ivs_of (Some m) k \<noteq> []" if "map_of m k \<noteq> None" for k
  proof -
    have "map_of l k \<noteq> None" using that m(4) [of k] r(4) [of k] by argo
    then have "ivs_of (Some l) k \<noteq> []" using l no_empty_iff [OF l(1)] by blast
    then have "(k, last_seen (Some l) k) \<in> m56_set (Some m)" using last_seen_mem(1) [OF l(1)] m(3) by blast
    then show ?thesis by (auto simp: mem_m56_set)
  qed
  then have "no_empty (Some m)" using m(2) by (simp add: no_empty_iff)
  with g r m show ?thesis
    by (intro that [of m r]) (simp_all add: MergeGtidSets_def gs_Union_def m56_union_def)
qed

lemma Compress_correct:
  assumes l: "wf56 (Some l)" "no_empty (Some l)" and ts: "ts \<noteq> []" "\<And>t. t \<in> set ts \<Longrightarrow> wf56 (Some t)"
    and g: "lsSet g = Some (Mysql56GTIDSet (Some l))"
  obtains l' where "CompressWithGtidSets g (reported ts) = Ret (g\<lparr>lsSet := Some (Mysql56GTIDSet (Some l'))\<rparr>)"
    "wf56 (Some l')" "no_empty (Some l')" "m56_set (Some l) \<subseteq> m56_set (Some l')"
    "m56_set (Some l') \<subseteq> m56_set (Some l) \<union> (\<Inter>t\<in>set ts. m56_set (Some t))"
    "\<And>t. t \<in> set ts \<Longrightarrow> m56_contains t l' \<longleftrightarrow> m56_contains t l"
    "\<And>sid. last_seen (Some l') sid = last_seen (Some l) sid"
proof -
  obtain t0 ts' where t0: "ts = t0 # ts'" using ts(1) by (cases ts) auto
  let ?b = "foldl m56_meet t0 ts'"
  have b: "wf56 (Some ?b)" "m56_set (Some ?b) = (\<Inter>t\<in>set ts. m56_set (Some t))"
    using m56.meet_fold [of t0 ts'] ts(2) t0 by auto
  obtain r l' where m: "MergeGtidSets g (Some (Some (Mysql56GTIDSet (Some ?b)))) = Ret (g\<lparr>lsSet := Some (Mysql56GTIDSet (Some l'))\<rparr>)"
      "l' = m56_union l r" "wf56 (Some r)" "wf56 (Some l')" "no_empty (Some l')"
      "m56_set (Some r) = {(sid, q) \<in> m56_set (Some ?b). map_of l sid \<noteq> None \<and> q \<le> last_seen (Some l) sid}"
    using MergeGtidSets_correct [OF l b(1) g] .
  have u: "m56_set (Some l') = m56_set (Some l) \<union> m56_set (Some r)" using m56.union_abs [OF l(1) m(3)] m(2) by simp
  have "CompressWithGtidSets g (reported ts) = Ret (g\<lparr>lsSet := Some (Mysql56GTIDSet (Some l'))\<rparr>)"
    using m(1) intersect_all_reported [of t0 ts'] t0 by (simp add: CompressWithGtidSets_def reported_def)
  moreover have "m56_contains t l' \<longleftrightarrow> m56_contains t l" if "t \<in> set ts" for t
    unfolding m(2) using that b(2) m(6) by (intro m56.union_reach ts(2) l(1) m(3)) auto
  moreover have "last_seen (Some l') sid = last_seen (Some l) sid" for sid
  proof (cases "ivs_of (Some l) sid = []")
    case True
    then have "map_of l sid = None" using l(2) no_empty_iff [OF l(1)] by blast
    then have "(sid, q) \<notin> m56_set (Some l')" for q using True u m(6) by (auto simp: mem_m56_set)
    then have "ivs_of (Some l') sid = []" using last_seen_mem(1) [OF m(4), of sid] by blast
    with True show ?thesis by (simp add: last_seen_def)
  next
    case False
    note s = last_seen_mem [OF l(1) False]
    have "(sid, last_seen (Some l) sid) \<in> m56_set (Some l')" using s(1) u by blast
    moreover from this have "ivs_of (Some l') sid \<noteq> []" by (auto simp: mem_m56_set)
    moreover have "p \<le> last_seen (Some l) sid" if "(sid, p) \<in> m56_set (Some l')" for p
      using that u s(2) m(6) by auto
    ultimately show ?thesis by (intro last_seen_unique [OF m(4)]) auto
  qed
  moreover have "m56_set (Some l) \<subseteq> m56_set (Some l')" "m56_set (Some l') \<subseteq> m56_set (Some l) \<union> (\<Inter>t\<in>set ts. m56_set (Some t))"
    using u m(6) b(2) by auto
  ultimately show ?thesis by (intro that [of l'] m(4,5))
qed

section \<open>Properties\<close>

text \<open>
  C2. Compressing the session's GTIDs by what the replicas report never loses a transaction the
  session has seen, adds only transactions that every replica has, leaves the last sequence number
  of every server as it was, and changes for no reporting replica whether it has caught up with
  the session.
\<close>

theorem compression_keeps_reads_consistent:
  assumes "wf56 (Some l)" "no_empty (Some l)" "ts \<noteq> []" "list_all (\<lambda>t. wf56 (Some t)) ts"
    and "lsSet g = Some (Mysql56GTIDSet (Some l))"
  shows "\<exists>l'. CompressWithGtidSets g (reported ts) = Ret (g\<lparr>lsSet := Some (Mysql56GTIDSet (Some l'))\<rparr>) \<and>
    wf56 (Some l') \<and> no_empty (Some l') \<and> m56_set (Some l) \<subseteq> m56_set (Some l') \<and>
    m56_set (Some l') \<subseteq> m56_set (Some l) \<union> (\<Inter>t\<in>set ts. m56_set (Some t)) \<and>
    (\<forall>sid. last_seen (Some l') sid = last_seen (Some l) sid) \<and>
    (\<forall>t\<in>set ts. AtLeast (Some (Mysql56GTIDSet (Some t))) (Some (Mysql56GTIDSet (Some l'))) \<longleftrightarrow>
      AtLeast (Some (Mysql56GTIDSet (Some t))) (Some (Mysql56GTIDSet (Some l))))"
proof -
  have at: "AtLeast (Some (Mysql56GTIDSet (Some t))) (Some (Mysql56GTIDSet (Some x))) \<longleftrightarrow> m56_contains t x" for t x
    by (simp add: AtLeast_def gs_Contains_def m56_contains_def)
  have "\<And>t. t \<in> set ts \<Longrightarrow> wf56 (Some t)" using assms(4) by (simp add: list_all_iff)
  from Compress_correct [OF assms(1,2,3) this assms(5)] show ?thesis unfolding at by metis
qed

theorem compression_keeps_reads_consistent_witness:
  "CompressWithGtidSets \<lparr>lsFlavor = Mysql56FlavorID, lsSet = Some (Mysql56GTIDSet (Some sampleA))\<rparr> (reported [sampleB]) =
     Ret \<lparr>lsFlavor = Mysql56FlavorID, lsSet = Some (Mysql56GTIDSet (Some [(replicate 16 1, [\<lparr>istart = 1, iend = 6\<rparr>])]))\<rparr> \<and>
   m56_set (Some sampleA) \<subseteq> m56_set (Some [(replicate 16 1, [\<lparr>istart = 1, iend = 6\<rparr>])])"
proof -
  let ?g = "\<lparr>lsFlavor = Mysql56FlavorID, lsSet = Some (Mysql56GTIDSet (Some sampleA))\<rparr>"
  have r: "CompressWithGtidSets ?g (reported [sampleB]) =
      Ret \<lparr>lsFlavor = Mysql56FlavorID, lsSet = Some (Mysql56GTIDSet (Some [(replicate 16 1, [\<lparr>istart = 1, iend = 6\<rparr>])]))\<rparr>"
    by code_simp
  from compression_keeps_reads_consistent [OF samples_wf(1,3), of "[sampleB]" ?g] samples_wf(2) r show ?thesis by auto
qed

section \<open>Where the operations fall short\<close>

text \<open>
  The comment on \<open>MergeGtidSets\<close> promises not to increase the number of segments; a gap below the
  first one does.
\<close>

lemma Merge_more_segments:
  "GetMaxIntervals \<lparr>lsFlavor = Mysql56FlavorID, lsSet = Some (Mysql56GTIDSet (Some [(replicate 16 1, [\<lparr>istart = 5, iend = 6\<rparr>])]))\<rparr> = 1 \<and>
   (\<exists>g'. MergeGtidSets \<lparr>lsFlavor = Mysql56FlavorID, lsSet = Some (Mysql56GTIDSet (Some [(replicate 16 1, [\<lparr>istart = 5, iend = 6\<rparr>])]))\<rparr>
       (Some (Some (Mysql56GTIDSet (Some [(replicate 16 1, [\<lparr>istart = 1, iend = 2\<rparr>])])))) = Ret g' \<and> GetMaxIntervals g' = 2)"
  (is "?a \<and> ?b")
proof
  show ?a by code_simp
  have "MergeGtidSets \<lparr>lsFlavor = Mysql56FlavorID, lsSet = Some (Mysql56GTIDSet (Some [(replicate 16 1, [\<lparr>istart = 5, iend = 6\<rparr>])]))\<rparr>
       (Some (Some (Mysql56GTIDSet (Some [(replicate 16 1, [\<lparr>istart = 1, iend = 2\<rparr>])])))) =
     Ret \<lparr>lsFlavor = Mysql56FlavorID, lsSet = Some (Mysql56GTIDSet (Some [(replicate 16 1, [\<lparr>istart = 1, iend = 2\<rparr>, \<lparr>istart = 5, iend = 6\<rparr>])]))\<rparr>"
    by code_simp
  then show ?b by (auto simp: GetMaxIntervals_def)
qed

end
