(* ===== verification/Encoding.thy ===== *)
theory Encoding
  imports Bytes
begin

unbundle bit_operations_syntax

text \<open>
  The encoding of values in MySQL packets (\<open>go/mysql/encoding.go\<close>). A buffer is a byte list, a
  position a Go \<open>int\<close> with its wrap-around, and a string its bytes. Writing returns the buffer and
  the next position; reading returns the value, the next position and the \<open>ok\<close> flag. An index or
  slice out of range is a panic.
\<close>

section \<open>Buffers\<close>

definition put_byte :: "byte list \<Rightarrow> int \<Rightarrow> byte \<Rightarrow> byte list outcome" where
  "put_byte data pos b =
     (if 0 \<le> pos \<and> pos < int (length data) then Ret (data[nat pos := b]) else Panic)"

fun put_bytes :: "byte list \<Rightarrow> int \<Rightarrow> byte list \<Rightarrow> byte list outcome" where
  "put_bytes data pos [] = Ret data"
| "put_bytes data pos (b # bs) = obind (put_byte data pos b) (\<lambda>d. put_bytes d (add64 pos 1) bs)"

text \<open>\<open>copy(data[pos:], value)\<close>: the buffer and how many bytes were copied.\<close>

definition copy_at :: "byte list \<Rightarrow> int \<Rightarrow> byte list \<Rightarrow> (byte list \<times> int) outcome" where
  "copy_at data pos value =
     (if 0 \<le> pos \<and> pos \<le> int (length data) then
        (let p = nat pos; n = min (length data - p) (length value) in
         Ret (take p data @ take n value @ drop (p + n) data, int n))
      else Panic)"

definition slice :: "byte list \<Rightarrow> int \<Rightarrow> int \<Rightarrow> byte list outcome" where
  "slice data a b =
     (if 0 \<le> a \<and> a \<le> b \<and> b \<le> int (length data) then Ret (take (nat (b - a)) (drop (nat a) data)) else Panic)"

definition get_byte :: "byte list \<Rightarrow> int \<Rightarrow> byte outcome" where
  "get_byte data pos = (if 0 \<le> pos \<and> pos < int (length data) then Ret (data ! nat pos) else Panic)"

definition get_bytes :: "byte list \<Rightarrow> int \<Rightarrow> nat \<Rightarrow> byte list outcome" where
  "get_bytes data pos n =
     (if 0 \<le> pos \<and> pos + int n \<le> int (length data) then Ret (take n (drop (nat pos) data)) else Panic)"

text \<open>\<open>byte(i >> k)\<close> and \<open>uint64(b) << k\<close>.\<close>

definition byte_of :: "'a::len word \<Rightarrow> nat \<Rightarrow> byte" where
  "byte_of i k = ucast (drop_bit k i)"

definition shl64 :: "byte \<Rightarrow> nat \<Rightarrow> 64 word" where
  "shl64 b k = push_bit k (ucast b)"

section \<open>Writing\<close>

definition lenEncIntSize :: "64 word \<Rightarrow> int" where
  "lenEncIntSize i = (if i < 251 then 1 else if i < 65536 then 3 else if i < 16777216 then 4 else 9)"

definition writeLenEncInt :: "byte list \<Rightarrow> int \<Rightarrow> 64 word \<Rightarrow> (byte list \<times> int) outcome" where
  "writeLenEncInt data pos i =
     (if i < 251 then
        obind (put_bytes data pos [byte_of i 0]) (\<lambda>d. Ret (d, add64 pos 1))
      else if i < 65536 then
        obind (put_bytes data pos [0xfc, byte_of i 0, byte_of i 8]) (\<lambda>d. Ret (d, add64 pos 3))
      else if i < 16777216 then
        obind (put_bytes data pos [0xfd, byte_of i 0, byte_of i 8, byte_of i 16]) (\<lambda>d. Ret (d, add64 pos 4))
      else
        obind (put_bytes data pos [0xfe, byte_of i 0, byte_of i 8, byte_of i 16, byte_of i 24, byte_of i 32,
            byte_of i 40, byte_of i 48, byte_of i 56]) (\<lambda>d. Ret (d, add64 pos 9)))"

definition lenNullString :: "byte list \<Rightarrow> int" where
  "lenNullString value = int (length value) + 1"

definition lenEOFString :: "byte list \<Rightarrow> int" where
  "lenEOFString value = int (length value)"

definition writeNullString :: "byte list \<Rightarrow> int \<Rightarrow> byte list \<Rightarrow> (byte list \<times> int) outcome" where
  "writeNullString data pos value =
     obind (copy_at data pos value) (\<lambda>(d, n).
       obind (put_byte d (add64 pos n) 0) (\<lambda>d'. Ret (d', add64 (add64 pos n) 1)))"

definition writeEOFString :: "byte list \<Rightarrow> int \<Rightarrow> byte list \<Rightarrow> (byte list \<times> int) outcome" where
  "writeEOFString data pos value = obind (copy_at data pos value) (\<lambda>(d, n). Ret (d, add64 pos n))"

definition writeByte :: "byte list \<Rightarrow> int \<Rightarrow> byte \<Rightarrow> (byte list \<times> int) outcome" where
  "writeByte data pos value = obind (put_byte data pos value) (\<lambda>d. Ret (d, add64 pos 1))"

definition writeUint16 :: "byte list \<Rightarrow> int \<Rightarrow> 16 word \<Rightarrow> (byte list \<times> int) outcome" where
  "writeUint16 data pos value =
     obind (put_bytes data pos [byte_of value 0, byte_of value 8]) (\<lambda>d. Ret (d, add64 pos 2))"

definition writeUint32 :: "byte list \<Rightarrow> int \<Rightarrow> 32 word \<Rightarrow> (byte list \<times> int) outcome" where
  "writeUint32 data pos value =
     obind (put_bytes data pos [byte_of value 0, byte_of value 8, byte_of value 16, byte_of value 24])
       (\<lambda>d. Ret (d, add64 pos 4))"

definition writeUint64 :: "byte list \<Rightarrow> int \<Rightarrow> 64 word \<Rightarrow> (byte list \<times> int) outcome" where
  "writeUint64 data pos value =
     obind (put_bytes data pos [byte_of value 0, byte_of value 8, byte_of value 16, byte_of value 24,
         byte_of value 32, byte_of value 40, byte_of value 48, byte_of value 56])
       (\<lambda>d. Ret (d, add64 pos 8))"

definition lenEncStringSize :: "byte list \<Rightarrow> int" where
  "lenEncStringSize value = lenEncIntSize (of_nat (length value)) + int (length value)"

definition writeLenEncString :: "byte list \<Rightarrow> int \<Rightarrow> byte list \<Rightarrow> (byte list \<times> int) outcome" where
  "writeLenEncString data pos value =
     obind (writeLenEncInt data pos (of_nat (length value))) (\<lambda>(d, p). writeEOFString d p value)"

definition writeZeroes :: "byte list \<Rightarrow> int \<Rightarrow> int \<Rightarrow> (byte list \<times> int) outcome" where
  "writeZeroes data pos n = obind (put_bytes data pos (replicate (nat n) 0)) (\<lambda>d. Ret (d, add64 pos n))"

section \<open>Reading\<close>

definition readByte :: "byte list \<Rightarrow> int \<Rightarrow> (byte \<times> int \<times> bool) outcome" where
  "readByte data pos =
     (if pos \<ge> int (length data) then Ret (0, 0, False)
      else obind (get_byte data pos) (\<lambda>b. Ret (b, add64 pos 1, True)))"

definition readBytes :: "byte list \<Rightarrow> int \<Rightarrow> int \<Rightarrow> (byte list \<times> int \<times> bool) outcome" where
  "readBytes data pos sz =
     (if sub64 (add64 pos sz) 1 \<ge> int (length data) then Ret ([], 0, False)
      else obind (slice data pos (add64 pos sz)) (\<lambda>r. Ret (r, add64 pos sz, True)))"

text \<open>\<open>make([]byte, sz)\<close> panics on a negative sz, as the slice does.\<close>

definition readBytesCopy :: "byte list \<Rightarrow> int \<Rightarrow> int \<Rightarrow> (byte list \<times> int \<times> bool) outcome" where
  "readBytesCopy data pos sz =
     (if sub64 (add64 pos sz) 1 \<ge> int (length data) then Ret ([], 0, False)
      else if sz < 0 then Panic
      else obind (slice data pos (add64 pos sz)) (\<lambda>r. Ret (r, add64 pos sz, True)))"

definition readNullString :: "byte list \<Rightarrow> int \<Rightarrow> (byte list \<times> int \<times> bool) outcome" where
  "readNullString data pos =
     obind (slice data pos (int (length data))) (\<lambda>rest.
       if 0 \<notin> set rest then Ret ([], 0, False)
       else (let str = takeWhile (\<lambda>b. b \<noteq> 0) rest in
         Ret (str, add64 (add64 pos (int (length str))) 1, True)))"

definition readEOFString :: "byte list \<Rightarrow> int \<Rightarrow> (byte list \<times> int \<times> bool) outcome" where
  "readEOFString data pos =
     obind (slice data pos (int (length data))) (\<lambda>rest. Ret (rest, sub64 (int (length data)) pos, True))"

definition readUint8 :: "byte list \<Rightarrow> int \<Rightarrow> (byte \<times> int \<times> bool) outcome" where
  "readUint8 data pos = readByte data pos"

definition readUint16 :: "byte list \<Rightarrow> int \<Rightarrow> (16 word \<times> int \<times> bool) outcome" where
  "readUint16 data pos =
     (if add64 pos 1 \<ge> int (length data) then Ret (0, 0, False)
      else obind (slice data pos (add64 pos 2)) (\<lambda>r. Ret (of_nat (le_dec r), add64 pos 2, True)))"

definition readUint32 :: "byte list \<Rightarrow> int \<Rightarrow> (32 word \<times> int \<times> bool) outcome" where
  "readUint32 data pos =
     (if add64 pos 3 \<ge> int (length data) then Ret (0, 0, False)
      else obind (slice data pos (add64 pos 4)) (\<lambda>r. Ret (of_nat (le_dec r), add64 pos 4, True)))"

definition readUint64 :: "byte list \<Rightarrow> int \<Rightarrow> (64 word \<times> int \<times> bool) outcome" where
  "readUint64 data pos =
     (if add64 pos 7 \<ge> int (length data) then Ret (0, 0, False)
      else obind (slice data pos (add64 pos 8)) (\<lambda>r. Ret (of_nat (le_dec r), add64 pos 8, True)))"

definition readLenEncInt :: "byte list \<Rightarrow> int \<Rightarrow> (64 word \<times> int \<times> bool) outcome" where
  "readLenEncInt data pos =
     (if pos \<ge> int (length data) then Ret (0, 0, False)
      else obind (get_byte data pos) (\<lambda>first.
        if first = 0xfc then
          (if add64 pos 2 \<ge> int (length data) then Ret (0, 0, False)
           else obind (get_bytes data (pos + 1) 2) (\<lambda>d.
             Ret (shl64 (d ! 0) 0 OR shl64 (d ! 1) 8, add64 pos 3, True)))
        else if first = 0xfd then
          (if add64 pos 3 \<ge> int (length data) then Ret (0, 0, False)
           else obind (get_bytes data (pos + 1) 3) (\<lambda>d.
             Ret (shl64 (d ! 0) 0 OR shl64 (d ! 1) 8 OR shl64 (d ! 2) 16, add64 pos 4, True)))
        else if first = 0xfe then
          (if add64 pos 8 \<ge> int (length data) then Ret (0, 0, False)
           else obind (get_bytes data (pos + 1) 8) (\<lambda>d.
             Ret (shl64 (d ! 0) 0 OR shl64 (d ! 1) 8 OR shl64 (d ! 2) 16 OR shl64 (d ! 3) 24 OR shl64 (d ! 4) 32 OR
               shl64 (d ! 5) 40 OR shl64 (d ! 6) 48 OR shl64 (d ! 7) 56, add64 pos 9, True)))
        else Ret (ucast first, add64 pos 1, True)))"

text \<open>
  \<open>int(sz)\<close> of a \<open>uint64\<close> is the two's complement reading. \<open>pos+s-1\<close> wraps, and a negative
  sz passes the length check.
\<close>

definition readLenEncString :: "byte list \<Rightarrow> int \<Rightarrow> (byte list \<times> int \<times> bool) outcome" where
  "readLenEncString data pos =
     obind (readLenEncInt data pos) (\<lambda>(sz, p, ok).
       if \<not> ok then Ret ([], 0, False)
       else (let s = sint sz in
         if sub64 (add64 p s) 1 \<ge> int (length data) then Ret ([], 0, False)
         else obind (slice data p (add64 p s)) (\<lambda>r. Ret (r, add64 p s, True))))"

definition skipLenEncString :: "byte list \<Rightarrow> int \<Rightarrow> (int \<times> bool) outcome" where
  "skipLenEncString data pos =
     obind (readLenEncInt data pos) (\<lambda>(sz, p, ok).
       if \<not> ok then Ret (0, False)
       else (let s = sint sz in
         if sub64 (add64 p s) 1 \<ge> int (length data) then Ret (0, False)
         else Ret (add64 p s, True)))"

definition readLenEncStringAsBytes :: "byte list \<Rightarrow> int \<Rightarrow> (byte list \<times> int \<times> bool) outcome" where
  "readLenEncStringAsBytes data pos =
     obind (readLenEncInt data pos) (\<lambda>(sz, p, ok).
       if \<not> ok then Ret ([], 0, False)
       else (let s = sint sz in
         if sub64 (add64 p s) 1 \<ge> int (length data) then Ret ([], 0, False)
         else obind (slice data p (add64 p s)) (\<lambda>r. Ret (r, add64 p s, True))))"

definition readLenEncStringAsBytesCopy :: "byte list \<Rightarrow> int \<Rightarrow> (byte list \<times> int \<times> bool) outcome" where
  "readLenEncStringAsBytesCopy data pos =
     obind (readLenEncInt data pos) (\<lambda>(sz, p, ok).
       if \<not> ok then Ret ([], 0, False)
       else (let s = sint sz in
         if sub64 (add64 p s) 1 \<ge> int (length data) then Ret ([], 0, False)
         else if s < 0 then Panic
         else obind (slice data p (add64 p s)) (\<lambda>r. Ret (r, add64 p s, True))))"

section \<open>The coder\<close>

record coder =
  cdata :: "byte list"
  cpos :: int

text \<open>A read moves the position to what the function returns, also on failure.\<close>

definition coder_read :: "(byte list \<Rightarrow> int \<Rightarrow> ('a \<times> int \<times> bool) outcome) \<Rightarrow> coder \<Rightarrow> (coder \<times> 'a \<times> bool) outcome" where
  "coder_read rd d = obind (rd (cdata d) (cpos d)) (\<lambda>(res, newPos, ok). Ret (d\<lparr>cpos := newPos\<rparr>, res, ok))"

definition coder_write :: "(byte list \<Rightarrow> int \<Rightarrow> (byte list \<times> int) outcome) \<Rightarrow> coder \<Rightarrow> coder outcome" where
  "coder_write wr d = obind (wr (cdata d) (cpos d)) (\<lambda>(data, newPos). Ret (d\<lparr>cdata := data, cpos := newPos\<rparr>))"

definition coder_readLenEncInt :: "coder \<Rightarrow> (coder \<times> 64 word \<times> bool) outcome" where
  "coder_readLenEncInt = coder_read readLenEncInt"

definition coder_readUint16 :: "coder \<Rightarrow> (coder \<times> 16 word \<times> bool) outcome" where
  "coder_readUint16 = coder_read readUint16"

definition coder_readByte :: "coder \<Rightarrow> (coder \<times> byte \<times> bool) outcome" where
  "coder_readByte = coder_read readByte"

definition coder_readLenEncString :: "coder \<Rightarrow> (coder \<times> byte list \<times> bool) outcome" where
  "coder_readLenEncString = coder_read readLenEncString"

definition coder_readLenEncInfo :: "coder \<Rightarrow> (coder \<times> byte list \<times> bool) outcome" where
  "coder_readLenEncInfo d =
     obind (readLenEncString (cdata d) (cpos d)) (\<lambda>(res, newPos, ok).
       Ret (if ok then d\<lparr>cpos := newPos\<rparr> else d, res, ok))"

definition coder_writeByte :: "byte \<Rightarrow> coder \<Rightarrow> coder outcome" where
  "coder_writeByte value = coder_write (\<lambda>data pos. writeByte data pos value)"

definition coder_writeLenEncInt :: "64 word \<Rightarrow> coder \<Rightarrow> coder outcome" where
  "coder_writeLenEncInt i = coder_write (\<lambda>data pos. writeLenEncInt data pos i)"

definition coder_writeUint16 :: "16 word \<Rightarrow> coder \<Rightarrow> coder outcome" where
  "coder_writeUint16 value = coder_write (\<lambda>data pos. writeUint16 data pos value)"

definition coder_writeUint32 :: "32 word \<Rightarrow> coder \<Rightarrow> coder outcome" where
  "coder_writeUint32 value = coder_write (\<lambda>data pos. writeUint32 data pos value)"

definition coder_writeLenEncString :: "byte list \<Rightarrow> coder \<Rightarrow> coder outcome" where
  "coder_writeLenEncString value = coder_write (\<lambda>data pos. writeLenEncString data pos value)"

definition coder_writeEOFString :: "byte list \<Rightarrow> coder \<Rightarrow> coder outcome" where
  "coder_writeEOFString value = coder_write (\<lambda>data pos. writeEOFString data pos value)"

section \<open>Writing into a buffer with enough room\<close>

text \<open>The buffer with \<open>bs\<close> written at \<open>pos\<close>.\<close>

definition patch :: "byte list \<Rightarrow> int \<Rightarrow> byte list \<Rightarrow> byte list" where
  "patch data pos bs = take (nat pos) data @ bs @ drop (nat pos + length bs) data"

definition room :: "byte list \<Rightarrow> int \<Rightarrow> int \<Rightarrow> bool" where
  "room data pos n \<longleftrightarrow> 0 \<le> pos \<and> pos + n \<le> int (length data) \<and> int (length data) \<le> maxInt64"

lemma room_nat:
  assumes "room data pos n" "0 \<le> n" obtains p where "pos = int p" "p \<le> length data"
  using assms by (auto simp: room_def elim: nonneg_int_cases)

lemma length_patch:
  assumes "room data pos (int (length bs))" shows "length (patch data pos bs) = length data"
proof -
  obtain p where p: "pos = int p" "p \<le> length data" using assms by (rule room_nat) simp
  then have "p + length bs \<le> length data" using assms by (simp add: room_def)
  with p show ?thesis by (simp add: patch_def)
qed

lemma put_bytes_patch:
  "room data pos (int (length bs)) \<Longrightarrow> put_bytes data pos bs = Ret (patch data pos bs)"
proof (induction bs arbitrary: data pos)
  case Nil
  then show ?case by (simp add: patch_def)
next
  case (Cons b bs)
  let ?d = "data[nat pos := b]"
  have r: "0 \<le> pos" "pos + 1 + int (length bs) \<le> int (length data)" "int (length data) \<le> maxInt64"
    using Cons.prems by (auto simp: room_def)
  then have a: "add64 pos 1 = pos + 1" by (simp add: add64_id)
  have "room ?d (pos + 1) (int (length bs))" using r by (simp add: room_def)
  then have "put_bytes data pos (b # bs) = Ret (patch ?d (pos + 1) bs)"
    using Cons.IH r a by (simp add: put_byte_def)
  moreover have "nat (pos + 1) = Suc (nat pos)" using r by simp
  moreover have "take (Suc (nat pos)) ?d = take (nat pos) data @ [b]"
    using r by (simp add: take_Suc_conv_app_nth)
  moreover have "drop (Suc (nat pos + length bs)) ?d = drop (Suc (nat pos + length bs)) data" by simp
  ultimately show ?case by (simp add: patch_def)
qed

lemma put_bytes_no_room:
  assumes "0 \<le> pos" "int (length data) \<le> maxInt64" "int (length data) < pos + int (length bs)" "pos \<le> int (length data)"
  shows "put_bytes data pos bs = Panic"
  using assms
proof (induction bs arbitrary: data pos)
  case (Cons b bs)
  show ?case
  proof (cases "pos < int (length data)")
    case True
    then have "add64 pos 1 = pos + 1" using Cons.prems by (simp add: add64_id)
    with Cons.IH [of "pos + 1" "data[nat pos := b]"] Cons.prems True show ?thesis by (simp add: put_byte_def)
  qed (simp add: put_byte_def)
qed simp

lemma copy_at_patch:
  "room data pos (int (length bs)) \<Longrightarrow> copy_at data pos bs = Ret (patch data pos bs, int (length bs))"
  by (auto simp: copy_at_def room_def patch_def Let_def min_def)

lemma patch_patch:
  assumes "room data pos (int (length a) + int (length b))"
  shows "patch (patch data pos a) (pos + int (length a)) b = patch data pos (a @ b)"
proof -
  obtain p where "pos = int p" "p \<le> length data" using assms by (rule room_nat) simp
  then show ?thesis by (simp add: patch_def nat_int_add add.commute add.left_commute)
qed

lemma slice_patch:
  assumes "room data pos (int (length bs))"
  shows "slice (patch data pos bs) pos (pos + int (length bs)) = Ret bs"
proof -
  obtain p where p: "pos = int p" "p \<le> length data" using assms by (rule room_nat) simp
  have "take (length bs) (drop p (patch data pos bs)) = bs" using p by (simp add: patch_def)
  then show ?thesis using length_patch [OF assms] assms p by (simp add: slice_def room_def)
qed

lemma nth_patch:
  assumes "room data pos (int (length bs))" "k < length bs"
  shows "patch data pos bs ! nat (pos + int k) = bs ! k"
proof -
  obtain p where "pos = int p" "p \<le> length data" using assms(1) by (rule room_nat) simp
  then show ?thesis using assms(2) by (simp add: patch_def nth_append nat_int_add)
qed

section \<open>Little-endian integers of words\<close>

lemma byte_of_div: "byte_of i k = of_nat (unat i div 2 ^ k)"
proof -
  have "unat (drop_bit k i) = drop_bit k (unat i)"
    by (rule bit_eqI) (auto simp: bit_simps)
  then have "unat (drop_bit k i) = unat i div 2 ^ k" by (simp only: drop_bit_eq_div)
  then show ?thesis unfolding byte_of_def by (metis of_nat_unat)
qed

lemma le_enc_bytes:
  "le_enc 2 (unat (v :: 16 word)) = [byte_of v 0, byte_of v 8]"
  "le_enc 4 (unat (u :: 32 word)) = [byte_of u 0, byte_of u 8, byte_of u 16, byte_of u 24]"
  "le_enc 8 (unat (w :: 64 word)) = [byte_of w 0, byte_of w 8, byte_of w 16, byte_of w 24,
     byte_of w 32, byte_of w 40, byte_of w 48, byte_of w 56]"
proof -
  have m: "(of_nat (x mod 256) :: byte) = of_nat x" for x by (simp add: unsigned_of_nat word_unat_eq_iff)
  have e: "(2::nat) = Suc (Suc 0)" "(4::nat) = Suc (Suc (Suc (Suc 0)))"
    "(8::nat) = Suc (Suc (Suc (Suc (Suc (Suc (Suc (Suc 0)))))))" by simp_all
  show "le_enc 2 (unat v) = [byte_of v 0, byte_of v 8]"
    unfolding e(1) le_enc.simps m by (simp add: byte_of_div)
  show "le_enc 4 (unat u) = [byte_of u 0, byte_of u 8, byte_of u 16, byte_of u 24]"
    unfolding e(2) le_enc.simps m by (simp add: byte_of_div div_mult2_eq [symmetric])
  show "le_enc 8 (unat w) = [byte_of w 0, byte_of w 8, byte_of w 16, byte_of w 24,
     byte_of w 32, byte_of w 40, byte_of w 48, byte_of w 56]"
    unfolding e(3) le_enc.simps m by (simp add: byte_of_div div_mult2_eq [symmetric])
qed

lemma bit_chunk:
  fixes i :: "64 word"
  shows "bit (shl64 (byte_of i k) k) n \<longleftrightarrow> k \<le> n \<and> n < k + 8 \<and> bit i n"
  by (cases "n < 64")
    (auto simp: byte_of_def shl64_def bit_simps not_less less_diff_conv2 add.commute dest: bit_imp_le_length)

lemma bit_bound:
  fixes i :: "64 word"
  assumes "unat i < 2 ^ k" "bit i n" shows "n < k"
proof (rule ccontr)
  assume "\<not> n < k"
  moreover have "take_bit k (unat i) = unat i" using assms(1) by (rule take_bit_nat_eq_self)
  ultimately have "\<not> bit (unat i) n" by (metis bit_take_bit_iff)
  with assms(2) show False by (auto simp: bit_unsigned_iff dest: bit_imp_le_length)
qed

lemma lenenc_bits:
  fixes i :: "64 word"
  shows "i < 251 \<Longrightarrow> ucast (byte_of i 0) = i"
    and "i < 65536 \<Longrightarrow> shl64 (byte_of i 0) 0 OR shl64 (byte_of i 8) 8 = i"
    and "i < 16777216 \<Longrightarrow> shl64 (byte_of i 0) 0 OR shl64 (byte_of i 8) 8 OR shl64 (byte_of i 16) 16 = i"
    and "shl64 (byte_of i 0) 0 OR shl64 (byte_of i 8) 8 OR shl64 (byte_of i 16) 16 OR shl64 (byte_of i 24) 24 OR
      shl64 (byte_of i 32) 32 OR shl64 (byte_of i 40) 40 OR shl64 (byte_of i 48) 48 OR shl64 (byte_of i 56) 56 = i"
proof -
  show "ucast (byte_of i 0) = i" if "i < 251"
  proof -
    have "\<And>n. bit i n \<Longrightarrow> n < 8" using that bit_bound [of i 8] by (simp add: word_less_nat_alt)
    then show ?thesis by (intro bit_word_eqI) (auto simp: byte_of_def bit_simps)
  qed
  show "shl64 (byte_of i 0) 0 OR shl64 (byte_of i 8) 8 = i" if "i < 65536"
  proof (rule bit_word_eqI)
    fix n
    have "bit i n \<Longrightarrow> n < 16" using that bit_bound [of i 16] by (simp add: word_less_nat_alt)
    then show "bit (shl64 (byte_of i 0) 0 OR shl64 (byte_of i 8) 8) n = bit i n"
      unfolding bit_or_iff bit_chunk by (cases "bit i n") (simp_all, arith)
  qed
  show "shl64 (byte_of i 0) 0 OR shl64 (byte_of i 8) 8 OR shl64 (byte_of i 16) 16 = i" if "i < 16777216"
  proof (rule bit_word_eqI)
    fix n
    have "bit i n \<Longrightarrow> n < 24" using that bit_bound [of i 24] by (simp add: word_less_nat_alt)
    then show "bit (shl64 (byte_of i 0) 0 OR shl64 (byte_of i 8) 8 OR shl64 (byte_of i 16) 16) n = bit i n"
      unfolding bit_or_iff bit_chunk by (cases "bit i n") (simp_all, arith)
  qed
  show "shl64 (byte_of i 0) 0 OR shl64 (byte_of i 8) 8 OR shl64 (byte_of i 16) 16 OR shl64 (byte_of i 24) 24 OR
      shl64 (byte_of i 32) 32 OR shl64 (byte_of i 40) 40 OR shl64 (byte_of i 48) 48 OR shl64 (byte_of i 56) 56 = i"
  proof (rule bit_word_eqI)
    fix n assume "n < LENGTH(64)"
    then show "bit (shl64 (byte_of i 0) 0 OR shl64 (byte_of i 8) 8 OR shl64 (byte_of i 16) 16 OR shl64 (byte_of i 24) 24 OR
      shl64 (byte_of i 32) 32 OR shl64 (byte_of i 40) 40 OR shl64 (byte_of i 48) 48 OR shl64 (byte_of i 56) 56) n = bit i n"
      unfolding bit_or_iff bit_chunk by (cases "bit i n") (simp_all, arith)
  qed
qed

section \<open>Round trips\<close>

definition lenenc_bytes :: "64 word \<Rightarrow> byte list" where
  "lenenc_bytes i =
     (if i < 251 then [byte_of i 0]
      else if i < 65536 then [0xfc, byte_of i 0, byte_of i 8]
      else if i < 16777216 then [0xfd, byte_of i 0, byte_of i 8, byte_of i 16]
      else [0xfe, byte_of i 0, byte_of i 8, byte_of i 16, byte_of i 24, byte_of i 32, byte_of i 40, byte_of i 48, byte_of i 56])"

lemma length_lenenc_bytes: "int (length (lenenc_bytes i)) = lenEncIntSize i"
  by (simp add: lenenc_bytes_def lenEncIntSize_def)

lemma lenEncIntSize_pos: "0 < lenEncIntSize i"
  by (simp add: lenEncIntSize_def)

lemma room_add64: "room data pos n \<Longrightarrow> 0 \<le> n \<Longrightarrow> add64 pos n = pos + n"
  by (simp add: room_def add64_id)

lemma writeLenEncInt_patch:
  assumes "room data pos (lenEncIntSize i)"
  shows "writeLenEncInt data pos i = Ret (patch data pos (lenenc_bytes i), pos + lenEncIntSize i)"
proof -
  have p: "put_bytes data pos (lenenc_bytes i) = Ret (patch data pos (lenenc_bytes i))"
    using assms by (intro put_bytes_patch) (simp add: length_lenenc_bytes)
  have "writeLenEncInt data pos i = obind (put_bytes data pos (lenenc_bytes i)) (\<lambda>d. Ret (d, add64 pos (lenEncIntSize i)))"
    by (simp add: writeLenEncInt_def lenenc_bytes_def lenEncIntSize_def)
  then show ?thesis using p room_add64 [OF assms] lenEncIntSize_pos [of i] by simp
qed

text \<open>The buffer has the bytes \<open>bs\<close> at \<open>pos\<close>.\<close>

definition holds :: "byte list \<Rightarrow> int \<Rightarrow> byte list \<Rightarrow> bool" where
  "holds data pos bs \<longleftrightarrow> room data pos (int (length bs)) \<and> (\<forall>k<length bs. data ! nat (pos + int k) = bs ! k)"

lemma holds_nth: "holds data pos bs \<Longrightarrow> k < length bs \<Longrightarrow> data ! nat (pos + int k) = bs ! k"
  by (simp add: holds_def)

lemma holds_patch:
  assumes "room data pos (int (length bs))" shows "holds (patch data pos bs) pos bs"
  using assms nth_patch [OF assms] length_patch [OF assms] by (simp add: holds_def room_def)

lemma holds_append: "holds data pos (a @ b) \<Longrightarrow> holds data pos a \<and> holds data (pos + int (length a)) b"
proof
  assume h: "holds data pos (a @ b)"
  then show "holds data pos a" by (auto simp: holds_def room_def nth_append)
  have "data ! nat (pos + int (length a) + int k) = b ! k" if "k < length b" for k
    using holds_nth [OF h, of "length a + k"] that by (simp add: add.assoc)
  then show "holds data (pos + int (length a)) b" using h by (auto simp: holds_def room_def)
qed

lemma holds_slice:
  assumes "holds data pos bs" shows "slice data pos (pos + int (length bs)) = Ret bs"
proof -
  have r: "room data pos (int (length bs))" using assms by (simp add: holds_def)
  obtain p where p: "pos = int p" "p \<le> length data" using r by (rule room_nat) simp
  have len: "p + length bs \<le> length data" using r p by (simp add: room_def)
  have "take (length bs) (drop p data) = bs"
    using assms p len by (intro nth_equalityI) (auto simp: holds_def nat_int_add)
  with r p show ?thesis by (simp add: slice_def room_def)
qed

lemma holds_get_bytes:
  assumes "holds data pos bs" shows "get_bytes data pos (length bs) = Ret bs"
proof -
  have "0 \<le> pos" "pos + int (length bs) \<le> int (length data)" using assms by (auto simp: holds_def room_def)
  with holds_slice [OF assms] show ?thesis by (simp add: slice_def get_bytes_def)
qed

lemma holds_Cons:
  assumes "holds data pos (b # bs)"
  shows "get_byte data pos = Ret b" "n = length bs \<Longrightarrow> get_bytes data (pos + 1) n = Ret bs"
    "pos + 1 + int (length bs) \<le> int (length data)" "0 \<le> pos" "int (length data) \<le> maxInt64"
proof -
  show "pos + 1 + int (length bs) \<le> int (length data)" "0 \<le> pos" "int (length data) \<le> maxInt64"
    using assms by (auto simp: holds_def room_def)
  then show "get_byte data pos = Ret b" using holds_nth [OF assms, of 0] by (simp add: get_byte_def)
  show "n = length bs \<Longrightarrow> get_bytes data (pos + 1) n = Ret bs"
    using holds_append [of data pos "[b]" bs] assms by (simp add: holds_get_bytes)
qed

lemma readLenEncInt_holds:
  assumes "holds data pos (lenenc_bytes i)"
  shows "readLenEncInt data pos = Ret (i, pos + lenEncIntSize i, True)"
proof -
  consider (a) "i < 251" | (b) "\<not> i < 251" "i < 65536" | (c) "\<not> i < 65536" "i < 16777216" | (e) "\<not> i < 16777216"
    by blast
  then show ?thesis
  proof cases
    case a
    have "byte_of i 0 \<noteq> 0xfc \<and> byte_of i 0 \<noteq> 0xfd \<and> byte_of i 0 \<noteq> 0xfe"
      using a lenenc_bits(1) [OF a] by auto
    with a holds_Cons [of data pos "byte_of i 0" "[]"] assms lenenc_bits(1) [OF a] show ?thesis
      by (simp add: readLenEncInt_def lenenc_bytes_def lenEncIntSize_def add64_id)
  next
    case b
    with holds_Cons(1,3-5) [of data pos "0xfc" "[byte_of i 0, byte_of i 8]"]
      holds_Cons(2) [of data pos "0xfc" "[byte_of i 0, byte_of i 8]" 2] assms lenenc_bits(2) [OF b(2)] show ?thesis
      by (simp add: readLenEncInt_def lenenc_bytes_def lenEncIntSize_def add64_id)
  next
    case c
    then have "\<not> i < 251" by (auto simp: word_less_nat_alt)
    with c holds_Cons(1,3-5) [of data pos "0xfd" "[byte_of i 0, byte_of i 8, byte_of i 16]"]
      holds_Cons(2) [of data pos "0xfd" "[byte_of i 0, byte_of i 8, byte_of i 16]" 3] assms lenenc_bits(3) [OF c(2)] show ?thesis
      by (simp add: readLenEncInt_def lenenc_bytes_def lenEncIntSize_def add64_id)
  next
    case e
    then have "\<not> i < 251" "\<not> i < 65536" by (auto simp: word_less_nat_alt)
    with e holds_Cons(1,3-5) [of data pos "0xfe" "[byte_of i 0, byte_of i 8, byte_of i 16, byte_of i 24, byte_of i 32, byte_of i 40,
        byte_of i 48, byte_of i 56]"]
      holds_Cons(2) [of data pos "0xfe" "[byte_of i 0, byte_of i 8, byte_of i 16, byte_of i 24, byte_of i 32, byte_of i 40,
        byte_of i 48, byte_of i 56]" 8] assms lenenc_bits(4) [of i] show ?thesis
      by (simp add: readLenEncInt_def lenenc_bytes_def lenEncIntSize_def add64_id)
  qed
qed

lemma size_word: "int n \<le> maxInt64 \<Longrightarrow> sint (of_nat n :: 64 word) = int n"
  by (simp add: signed_of_nat maxInt64_def signed_take_bit_int_eq_self_iff)

lemma writeLenEncString_patch:
  assumes "room data pos (lenEncStringSize value)"
  shows "writeLenEncString data pos value =
    Ret (patch data pos (lenenc_bytes (of_nat (length value)) @ value), pos + lenEncStringSize value)"
proof -
  let ?i = "of_nat (length value) :: 64 word"
  have r: "room data pos (lenEncIntSize ?i)" "room data pos (int (length (lenenc_bytes ?i)))"
    using assms by (auto simp: room_def lenEncStringSize_def length_lenenc_bytes)
  let ?d = "patch data pos (lenenc_bytes ?i)" and ?p = "pos + lenEncIntSize ?i"
  have r2: "room ?d ?p (int (length value))"
    using assms length_patch [OF r(2)] lenEncIntSize_pos [of ?i] by (auto simp: room_def lenEncStringSize_def)
  have "writeLenEncString data pos value = Ret (patch ?d ?p value, ?p + int (length value))"
    using writeLenEncInt_patch [OF r(1)] copy_at_patch [OF r2] room_add64 [OF r2]
    by (simp add: writeLenEncString_def writeEOFString_def)
  moreover have "patch ?d ?p value = patch data pos (lenenc_bytes ?i @ value)"
    using patch_patch [of data pos "lenenc_bytes ?i" "value"] assms
    by (simp add: length_lenenc_bytes lenEncStringSize_def)
  ultimately show ?thesis by (simp add: lenEncStringSize_def add.assoc)
qed

lemma readLenEncString_holds:
  assumes "holds data pos (lenenc_bytes (of_nat (length value)) @ value)"
  shows "readLenEncString data pos = Ret (value, pos + lenEncStringSize value, True)"
proof -
  let ?i = "of_nat (length value) :: 64 word" and ?p = "pos + lenEncIntSize (of_nat (length value))"
  have h: "holds data pos (lenenc_bytes ?i)" "holds data ?p value"
    using holds_append [OF assms] by (simp_all add: length_lenenc_bytes)
  have r: "room data ?p (int (length value))" using h(2) by (simp add: holds_def)
  then have b: "0 \<le> ?p" "?p + int (length value) \<le> int (length data)" "int (length data) \<le> maxInt64"
    by (simp_all add: room_def)
  have s: "sint ?i = int (length value)" using b by (intro size_word) linarith
  have a: "add64 ?p (int (length value)) = ?p + int (length value)" using room_add64 [OF r] by simp
  have m: "sub64 (?p + int (length value)) 1 = ?p + int (length value) - 1" using b by (intro sub64_id) linarith+
  show ?thesis
    using readLenEncInt_holds [OF h(1)] holds_slice [OF h(2)] s a m b
    by (simp add: readLenEncString_def lenEncStringSize_def add.assoc)
qed

text \<open>Fixed-width integers.\<close>

lemma read_write_Uint:
  assumes "int (length data) \<le> maxInt64"
  shows "room data pos 2 \<Longrightarrow> writeUint16 data pos v = Ret (patch data pos (le_enc 2 (unat v)), pos + 2)"
    and "room data pos 4 \<Longrightarrow> writeUint32 data pos u = Ret (patch data pos (le_enc 4 (unat u)), pos + 4)"
    and "room data pos 8 \<Longrightarrow> writeUint64 data pos w = Ret (patch data pos (le_enc 8 (unat w)), pos + 8)"
    and "holds data pos (le_enc 2 (unat v)) \<Longrightarrow> readUint16 data pos = Ret (v, pos + 2, True)"
    and "holds data pos (le_enc 4 (unat u)) \<Longrightarrow> readUint32 data pos = Ret (u, pos + 4, True)"
    and "holds data pos (le_enc 8 (unat w)) \<Longrightarrow> readUint64 data pos = Ret (w, pos + 8, True)"
proof -
  have put: "room data pos (int n) \<Longrightarrow> put_bytes data pos (le_enc n x) = Ret (patch data pos (le_enc n x))" for n x
    by (rule put_bytes_patch) simp
  show "room data pos 2 \<Longrightarrow> writeUint16 data pos v = Ret (patch data pos (le_enc 2 (unat v)), pos + 2)"
    using put [of 2] room_add64 [of data pos 2] by (simp add: writeUint16_def le_enc_bytes(1) [symmetric])
  show "room data pos 4 \<Longrightarrow> writeUint32 data pos u = Ret (patch data pos (le_enc 4 (unat u)), pos + 4)"
    using put [of 4] room_add64 [of data pos 4] by (simp add: writeUint32_def le_enc_bytes(2) [symmetric])
  show "room data pos 8 \<Longrightarrow> writeUint64 data pos w = Ret (patch data pos (le_enc 8 (unat w)), pos + 8)"
    using put [of 8] room_add64 [of data pos 8] by (simp add: writeUint64_def le_enc_bytes(3) [symmetric])
  have sl: "holds data pos (le_enc n x) \<Longrightarrow> slice data pos (pos + int n) = Ret (le_enc n x) \<and> 0 \<le> pos \<and> pos + int n \<le> int (length data)" for n x
    using holds_slice [of data pos "le_enc n x"] by (simp add: holds_def room_def)
  show "holds data pos (le_enc 2 (unat v)) \<Longrightarrow> readUint16 data pos = Ret (v, pos + 2, True)"
    using sl [of 2 "unat v"] assms unsigned_less [of v, where ?'a = nat]
    by (simp add: readUint16_def add64_id le_dec_le_enc)
  show "holds data pos (le_enc 4 (unat u)) \<Longrightarrow> readUint32 data pos = Ret (u, pos + 4, True)"
    using sl [of 4 "unat u"] assms unsigned_less [of u, where ?'a = nat]
    by (simp add: readUint32_def add64_id le_dec_le_enc)
  show "holds data pos (le_enc 8 (unat w)) \<Longrightarrow> readUint64 data pos = Ret (w, pos + 8, True)"
    using sl [of 8 "unat w"] assms unsigned_less [of w, where ?'a = nat]
    by (simp add: readUint64_def add64_id le_dec_le_enc)
qed

section \<open>Staying inside the buffer\<close>

text \<open>No buffer comes near the largest \<open>int\<close>; the slack covers the nine bytes of a long integer.\<close>

definition sane :: "byte list \<Rightarrow> bool" where
  "sane data \<longleftrightarrow> int (length data) + 9 \<le> maxInt64"

lemma readLenEncInt_bounds:
  assumes "0 \<le> pos" "sane data"
  shows "\<exists>v p ok. readLenEncInt data pos = Ret (v, p, ok) \<and> (ok \<longrightarrow> pos < p \<and> p \<le> int (length data))"
proof (cases "pos \<ge> int (length data)")
  case True
  then show ?thesis by (auto simp: readLenEncInt_def)
next
  case False
  have a: "add64 pos k = pos + k" if "0 \<le> k" "k \<le> 9" for k
    using that assms False by (intro add64_id) (auto simp: sane_def maxInt64_def)
  obtain b where b: "get_byte data pos = Ret b" using False assms by (simp add: get_byte_def)
  show ?thesis
    using False assms(1) b by (auto simp: readLenEncInt_def a get_bytes_def)
qed

lemma wrap64_over: "9223372036854775808 \<le> x \<Longrightarrow> x < 27670116110564327424 \<Longrightarrow> wrap64 x = x - 18446744073709551616"
  by (simp add: wrap64_def minus_mod_self2 [symmetric, of "x + 9223372036854775808" "18446744073709551616"] del: minus_mod_self2)

lemma uint_range64: "0 \<le> uint (v :: 64 word)" "uint v < 18446744073709551616"
  using unsigned_less [of v, where ?'a = int] by simp_all

lemma sint_uint64: "sint (v :: 64 word) = (if uint v < 9223372036854775808 then uint v else uint v - 18446744073709551616)"
proof -
  have "sint v = wrap64 (uint v)"
    by (simp add: sint_uint signed_take_bit_eq_take_bit_shift take_bit_eq_mod wrap64_def)
  moreover have "wrap64 (uint v) = uint v" if "uint v < 9223372036854775808"
    using that uint_range64 [of v] by (intro wrap64_id) (unfold maxInt64_def, linarith+)
  moreover have "wrap64 (uint v) = uint v - 18446744073709551616" if "\<not> uint v < 9223372036854775808"
    using that uint_range64 [of v] by (intro wrap64_over) linarith+
  ultimately show ?thesis by simp
qed

lemma readLenEncString_panic:
  assumes "0 \<le> pos" "sane data" "readLenEncInt data pos = Ret (v, p, True)"
  shows "readLenEncString data pos = Panic \<longleftrightarrow> p + uint v > 9223372036854775808"
proof -
  have p: "1 \<le> p" "p \<le> int (length data)" "int (length data) < 9223372036854775807"
    using readLenEncInt_bounds [OF assms(1,2)] assms by (auto simp: sane_def maxInt64_def)
  note v = uint_range64 [of v]
  let ?s = "sint v"
  consider (small) "p + uint v \<le> 9223372036854775807" | (edge) "p + uint v = 9223372036854775808"
    | (over) "p + uint v > 9223372036854775808" "uint v < 9223372036854775808" | (neg) "uint v \<ge> 9223372036854775808"
    using p by linarith
  then show ?thesis
  proof cases
    case small
    then have "?s = uint v" "uint v < 9223372036854775808" using p by (auto simp: sint_uint64)
    moreover have a: "add64 p (uint v) = p + uint v" using small p v by (intro add64_id) (unfold maxInt64_def, linarith+)
    moreover have "sub64 (p + uint v) 1 = p + uint v - 1"
      using small p v by (intro sub64_id) (unfold maxInt64_def, linarith+)
    ultimately show ?thesis using small p v assms(3)
      by (simp add: readLenEncString_def slice_def Let_def)
  next
    case edge
    then have "add64 p ?s = - 9223372036854775808" "sub64 (add64 p ?s) 1 = 9223372036854775807"
      using p by (auto simp: sint_uint64 add64_def sub64_def wrap64_def)
    with edge p assms(3) show ?thesis by (simp add: readLenEncString_def)
  next
    case over
    then have "add64 p ?s = p + uint v - 18446744073709551616"
      using p v wrap64_over [of "p + uint v"] by (simp add: sint_uint64 add64_def)
    moreover have "sub64 (p + uint v - 18446744073709551616) 1 = p + uint v - 18446744073709551617"
      using p v over sub64_id [of "p + uint v - 18446744073709551616" 1] unfolding maxInt64_def by linarith
    ultimately show ?thesis using over p v assms(3) by (simp add: readLenEncString_def slice_def Let_def)
  next
    case neg
    then have "add64 p ?s = p + uint v - 18446744073709551616"
      using p v add64_id [of p ?s] unfolding maxInt64_def by (simp add: sint_uint64)
    moreover have "sub64 (p + uint v - 18446744073709551616) 1 = p + uint v - 18446744073709551617"
      using p v neg sub64_id [of "p + uint v - 18446744073709551616" 1] unfolding maxInt64_def by linarith
    ultimately show ?thesis using neg p v assms(3) by (simp add: readLenEncString_def slice_def Let_def)
  qed
qed

section \<open>Properties\<close>

text \<open>
  A length-encoded integer written where there is room is read back as it was, at the position
  the writer returned, and the bytes before and after it are untouched.
\<close>

theorem lenEncInt_roundtrip:
  assumes "room data pos (lenEncIntSize i)"
  shows "\<exists>d. writeLenEncInt data pos i = Ret (d, pos + lenEncIntSize i) \<and> length d = length data \<and>
    take (nat pos) d = take (nat pos) data \<and>
    drop (nat (pos + lenEncIntSize i)) d = drop (nat (pos + lenEncIntSize i)) data \<and>
    readLenEncInt d pos = Ret (i, pos + lenEncIntSize i, True)"
proof -
  let ?bs = "lenenc_bytes i" and ?d = "patch data pos (lenenc_bytes i)"
  have r: "room data pos (int (length ?bs))" using assms by (simp add: length_lenenc_bytes)
  obtain p where p: "pos = int p" "p \<le> length data" using r by (rule room_nat) simp
  have n: "nat (pos + lenEncIntSize i) = p + length ?bs" using p by (simp flip: length_lenenc_bytes)
  have "take (nat pos) ?d = take (nat pos) data" "drop (p + length ?bs) ?d = drop (p + length ?bs) data"
    using p by (simp_all add: patch_def)
  with n show ?thesis
    using writeLenEncInt_patch [OF assms] length_patch [OF r] readLenEncInt_holds [OF holds_patch [OF r]] by simp
qed

theorem lenEncInt_roundtrip_witness:
  "room (replicate 12 0) 1 (lenEncIntSize 70000) \<and>
   (\<exists>d. writeLenEncInt (replicate 12 0) 1 70000 = Ret (d, 5) \<and> readLenEncInt d 1 = Ret (70000, 5, True))"
proof -
  have r: "room (replicate 12 0) 1 (lenEncIntSize 70000)" "lenEncIntSize 70000 = 4"
    by (simp_all add: room_def lenEncIntSize_def maxInt64_def)
  with lenEncInt_roundtrip [OF r(1)] show ?thesis by auto
qed

text \<open>
  A length-encoded string written where there is room is read back as it was, at the position
  the writer returned.
\<close>

theorem lenEncString_roundtrip:
  assumes "room data pos (lenEncStringSize str)"
  shows "\<exists>d. writeLenEncString data pos str = Ret (d, pos + lenEncStringSize str) \<and> length d = length data \<and>
    readLenEncString d pos = Ret (str, pos + lenEncStringSize str, True)"
proof -
  let ?bs = "lenenc_bytes (of_nat (length str)) @ str"
  have r: "room data pos (int (length ?bs))" using assms by (simp add: length_lenenc_bytes lenEncStringSize_def)
  show ?thesis
    using writeLenEncString_patch [OF assms] length_patch [OF r] readLenEncString_holds [OF holds_patch [OF r]] by simp
qed

theorem lenEncString_roundtrip_witness:
  "room (replicate 12 0) 1 (lenEncStringSize [7, 8, 9]) \<and>
   (\<exists>d. writeLenEncString (replicate 12 0) 1 [7, 8, 9] = Ret (d, 5) \<and> readLenEncString d 1 = Ret ([7, 8, 9], 5, True))"
proof -
  have r: "room (replicate 12 0) 1 (lenEncStringSize [7, 8, 9])" "lenEncStringSize [7, 8, 9] = 4"
    by (simp_all add: room_def lenEncStringSize_def lenEncIntSize_def maxInt64_def)
  with lenEncString_roundtrip [OF r(1)] show ?thesis by auto
qed

text \<open>
  Reading a length-encoded integer at a valid position never panics, and a successful read
  moves forward and stays inside the packet.
\<close>

theorem readLenEncInt_in_bounds:
  assumes "0 \<le> pos" "sane data"
  shows "\<exists>v p ok. readLenEncInt data pos = Ret (v, p, ok) \<and> (ok \<longrightarrow> pos < p \<and> p \<le> int (length data))"
  using assms by (rule readLenEncInt_bounds)

theorem readLenEncInt_in_bounds_witness:
  "sane [0xfd, 1] \<and> readLenEncInt [0xfd, 1] 0 = Ret (0, 0, False) \<and>
   (\<exists>v p ok. readLenEncInt [0xfd, 1] 0 = Ret (v, p, ok) \<and> (ok \<longrightarrow> 0 < p \<and> p \<le> 2))"
proof -
  have "sane [0xfd, 1]" by (simp add: sane_def maxInt64_def)
  moreover have "readLenEncInt [0xfd, 1] 0 = Ret (0, 0, False)"
    by (simp add: readLenEncInt_def get_byte_def add64_id maxInt64_def)
  ultimately show ?thesis using readLenEncInt_in_bounds [of 0 "[0xfd, 1]"] by simp
qed

text \<open>
  C30. Reading a length-encoded string whose size field can be read panics exactly when the field
  exceeds what is left of the 63-bit range; every smaller size is either read or refused.
\<close>

theorem readLenEncString_panics_iff:
  assumes "0 \<le> pos" "sane data" "readLenEncInt data pos = Ret (v, p, True)"
  shows "readLenEncString data pos = Panic \<longleftrightarrow> p + uint v > 9223372036854775808"
  using assms by (rule readLenEncString_panic)

theorem readLenEncString_panics_iff_witness:
  "sane (0xfe # replicate 8 0xff) \<and> readLenEncInt (0xfe # replicate 8 0xff) 0 = Ret (0xffffffffffffffff, 9, True) \<and>
   readLenEncString (0xfe # replicate 8 0xff) 0 = Panic"
proof -
  have s: "sane (0xfe # replicate 8 0xff)" by (simp add: sane_def maxInt64_def)
  have r: "readLenEncInt (0xfe # replicate 8 0xff) 0 = Ret (0xffffffffffffffff, 9, True)" by code_simp
  from readLenEncString_panics_iff [OF _ s r] s r show ?thesis by simp
qed

end
