(* ===== verification/Packets.thy ===== *)
theory Packets
  imports Encoding
begin

unbundle bit_operations_syntax

text \<open>
  Packets on a connection (\<open>go/mysql/conn.go\<close>): a payload is cut into chunks of at most
  \<open>MaxPacketSize\<close> bytes, each behind a header of three length bytes and a sequence number that
  wraps at 256. The connection is a record of the bytes that still arrive, how the incoming stream
  ends, the bytes handed to the writer and how much the writer takes. The reader and the writer
  may be buffered or not; what is modelled is the stream of bytes, which buffering does not change.
\<close>

section \<open>The connection\<close>

definition MaxPacketSize :: nat where "MaxPacketSize = 16777215"
definition packetHeaderSize :: nat where "packetHeaderSize = 4"

datatype ephemeral = ephemeralUnused | ephemeralWrite | ephemeralRead

text \<open>How the incoming stream ends, and what \<open>io.ReadFull\<close> makes of it.\<close>

datatype stream_end = Closed | ResetByPeer | OtherFailure

datatype read_error = ReadEOF | ReadUnexpectedEOF | ReadReset | ReadOther

text \<open>The writer takes everything, or fails or writes short once a number of bytes is spent.\<close>

datatype write_limit = Unlimited | FailAfter nat | ShortAfter nat

datatype packet_error =
    IoEOF
  | HeaderFailed read_error
  | InvalidSequence byte byte
  | BodyFailed nat read_error
  | DirectTooLong
  | WriteFailed
  | ShortWrite nat
  | EmptyHeaderFailed
  | EmptyHeaderShort nat

record Conn =
  incoming :: "byte list"
  incoming_end :: stream_end
  outgoing :: "byte list"
  write_limit :: write_limit
  seq :: byte
  policy :: ephemeral
  ephemeralBuffer :: "byte list option"
  Capabilities :: "32 word"
  enableQueryInfo :: bool

section \<open>Reading\<close>

definition read_failure :: "stream_end \<Rightarrow> nat \<Rightarrow> read_error" where
  "read_failure e got = (case e of
       Closed \<Rightarrow> if got = 0 then ReadEOF else ReadUnexpectedEOF
     | ResetByPeer \<Rightarrow> ReadReset
     | OtherFailure \<Rightarrow> ReadOther)"

definition ReadFull :: "Conn \<Rightarrow> nat \<Rightarrow> Conn \<times> (read_error + byte list)" where
  "ReadFull c n =
     (if n \<le> length (incoming c) then (c\<lparr>incoming := drop n (incoming c)\<rparr>, Inr (take n (incoming c)))
      else (c\<lparr>incoming := []\<rparr>, Inl (read_failure (incoming_end c) (length (incoming c)))))"

definition header_length :: "byte list \<Rightarrow> nat" where
  "header_length h = unat (ucast (h ! 0) OR push_bit 8 (ucast (h ! 1)) OR push_bit 16 (ucast (h ! 2)) :: 32 word)"

definition readHeaderFrom :: "Conn \<Rightarrow> Conn \<times> (packet_error + nat)" where
  "readHeaderFrom c = (case ReadFull c packetHeaderSize of
       (c, Inl ReadEOF) \<Rightarrow> (c, Inl IoEOF)
     | (c, Inl ReadReset) \<Rightarrow> (c, Inl IoEOF)
     | (c, Inl e) \<Rightarrow> (c, Inl (HeaderFailed e))
     | (c, Inr h) \<Rightarrow>
         if h ! 3 \<noteq> seq c then (c, Inl (InvalidSequence (seq c) (h ! 3)))
         else (c\<lparr>seq := seq c + 1\<rparr>, Inr (header_length h)))"

definition readBody :: "Conn \<Rightarrow> nat \<Rightarrow> Conn \<times> (packet_error + byte list)" where
  "readBody c n = (case ReadFull c n of
       (c, Inl e) \<Rightarrow> (c, Inl (BodyFailed n e))
     | (c, Inr data) \<Rightarrow> (c, Inr data))"

definition readOnePacket :: "Conn \<Rightarrow> Conn \<times> (packet_error + byte list)" where
  "readOnePacket c = (case readHeaderFrom c of
       (c, Inl e) \<Rightarrow> (c, Inl e)
     | (c, Inr n) \<Rightarrow> if n = 0 then (c, Inr []) else readBody c n)"

lemma readHeaderFrom_shrinks:
  "readHeaderFrom c = (c', Inr n) \<Longrightarrow> length (incoming c) = length (incoming c') + 4"
  by (auto simp: readHeaderFrom_def ReadFull_def packetHeaderSize_def split: if_splits prod.splits sum.splits read_error.splits)

lemma readBody_shrinks: "readBody c n = (c', r) \<Longrightarrow> length (incoming c') \<le> length (incoming c)"
  by (auto simp: readBody_def ReadFull_def split: if_splits)

lemma readOnePacket_shrinks:
  "readOnePacket c = (c', Inr next) \<Longrightarrow> length (incoming c') < length (incoming c)"
  by (auto simp: readOnePacket_def split: prod.splits sum.splits if_splits dest!: readHeaderFrom_shrinks readBody_shrinks)

text \<open>The loop that appends the following packets, of \<open>readPacket\<close> and \<open>readEphemeralPacket\<close>.\<close>

function readMore :: "Conn \<Rightarrow> byte list \<Rightarrow> Conn \<times> (packet_error + byte list)" where
  "readMore c data = (case readOnePacket c of
       (c', Inl e) \<Rightarrow> (c', Inl e)
     | (c', Inr next) \<Rightarrow>
         if next = [] then (c', Inr data)
         else if length next < MaxPacketSize then (c', Inr (data @ next))
         else readMore c' (data @ next))"
  by pat_completeness auto
termination
  by (relation "measure (\<lambda>(c, _). length (incoming c))") (auto dest: readOnePacket_shrinks [OF sym])

declare readMore.simps [simp del]

definition readPacket :: "Conn \<Rightarrow> Conn \<times> (packet_error + byte list)" where
  "readPacket c = (case readOnePacket c of
       (c, Inl e) \<Rightarrow> (c, Inl e)
     | (c, Inr data) \<Rightarrow> if length data < MaxPacketSize then (c, Inr data) else readMore c data)"

definition overwrite :: "nat \<Rightarrow> byte list \<Rightarrow> byte list \<Rightarrow> byte list" where
  "overwrite i bs data = take i data @ bs @ drop (i + length bs) data"

text \<open>\<open>bufPool.Get(n)\<close>: a buffer of length n, whose contents \<open>old\<close> an earlier use left behind.\<close>

definition pooled :: "byte list \<Rightarrow> nat \<Rightarrow> byte list" where
  "pooled old n = take n (old @ replicate n 0)"

text \<open>A failed read leaves what arrived in the buffer of the pool; a full one overwrites all of it.\<close>

definition readEphemeralPacket :: "byte list \<Rightarrow> Conn \<Rightarrow> (Conn \<times> (packet_error + byte list)) outcome" where
  "readEphemeralPacket old c =
     (if policy c \<noteq> ephemeralUnused then Panic
      else Ret (case readHeaderFrom c of
          (c, Inl e) \<Rightarrow> (c, Inl e)
        | (c, Inr n) \<Rightarrow>
            (let c = c\<lparr>policy := ephemeralRead\<rparr> in
             if n = 0 then (c, Inr [])
             else if n < MaxPacketSize then
               (case readBody c n of
                  (c', Inl e) \<Rightarrow> (c'\<lparr>ephemeralBuffer := Some (overwrite 0 (incoming c) (pooled old n))\<rparr>, Inl e)
                | (c, Inr data) \<Rightarrow> (c\<lparr>ephemeralBuffer := Some data\<rparr>, Inr data))
             else (case readBody c n of
                  (c, Inl e) \<Rightarrow> (c, Inl e)
                | (c, Inr data) \<Rightarrow> readMore c data))))"

definition readEphemeralPacketDirect :: "byte list \<Rightarrow> Conn \<Rightarrow> (Conn \<times> (packet_error + byte list)) outcome" where
  "readEphemeralPacketDirect old c =
     (if policy c \<noteq> ephemeralUnused then Panic
      else Ret (case readHeaderFrom c of
          (c, Inl e) \<Rightarrow> (c, Inl e)
        | (c, Inr n) \<Rightarrow>
            (let c = c\<lparr>policy := ephemeralRead\<rparr> in
             if n = 0 then (c, Inr [])
             else if n < MaxPacketSize then
               (case readBody c n of
                  (c', Inl e) \<Rightarrow> (c'\<lparr>ephemeralBuffer := Some (overwrite 0 (incoming c) (pooled old n))\<rparr>, Inl e)
                | (c, Inr data) \<Rightarrow> (c\<lparr>ephemeralBuffer := Some data\<rparr>, Inr data))
             else (c, Inl DirectTooLong))))"

definition recycleReadPacket :: "Conn \<Rightarrow> Conn outcome" where
  "recycleReadPacket c =
     (if policy c \<noteq> ephemeralRead then Panic
      else Ret (c\<lparr>ephemeralBuffer := None, policy := ephemeralUnused\<rparr>))"

section \<open>Writing\<close>

definition Write :: "Conn \<Rightarrow> byte list \<Rightarrow> Conn \<times> nat \<times> bool" where
  "Write c bs = (case write_limit c of
       Unlimited \<Rightarrow> (c\<lparr>outgoing := outgoing c @ bs\<rparr>, length bs, True)
     | FailAfter k \<Rightarrow>
         (c\<lparr>outgoing := outgoing c @ take k bs, write_limit := FailAfter (k - length bs)\<rparr>,
          min k (length bs), length bs \<le> k)
     | ShortAfter k \<Rightarrow>
         (c\<lparr>outgoing := outgoing c @ take k bs, write_limit := ShortAfter (k - length bs)\<rparr>,
          min k (length bs), True))"

definition header_bytes :: "nat \<Rightarrow> byte \<Rightarrow> byte list" where
  "header_bytes n s = [of_nat n, of_nat (drop_bit 8 n), of_nat (drop_bit 16 n), s]"

text \<open>The empty packet that follows a last chunk of exactly \<open>MaxPacketSize\<close> bytes.\<close>

definition writeEmpty :: "Conn \<Rightarrow> Conn \<times> packet_error option" where
  "writeEmpty c = (case Write c [0, 0, 0, seq c] of
       (c, n, ok) \<Rightarrow>
         if \<not> ok then (c, Some EmptyHeaderFailed)
         else if n \<noteq> packetHeaderSize then (c, Some (EmptyHeaderShort n))
         else (c\<lparr>seq := seq c + 1\<rparr>, None))"

text \<open>
  One round saves the four bytes before the chunk, puts the header there, writes header and chunk
  in one call and restores the bytes. A failed write returns with the header still in the buffer.
\<close>

function writeChunks :: "Conn \<Rightarrow> byte list \<Rightarrow> nat \<Rightarrow> nat \<Rightarrow> Conn \<times> byte list \<times> packet_error option" where
  "writeChunks c data index dataLength =
     (let toBeSent = min dataLength MaxPacketSize;
          saved = take packetHeaderSize (drop index data);
          data' = overwrite index (header_bytes toBeSent (seq c)) data in
      case Write c (take (toBeSent + packetHeaderSize) (drop index data')) of
        (c, n, ok) \<Rightarrow>
          if \<not> ok then (c, data', Some WriteFailed)
          else if n \<noteq> toBeSent + packetHeaderSize then (c, data', Some (ShortWrite n))
          else (let data'' = overwrite index saved data'; c = c\<lparr>seq := seq c + 1\<rparr> in
            if dataLength - toBeSent = 0 then
              (if toBeSent = MaxPacketSize then (case writeEmpty c of (c, e) \<Rightarrow> (c, data'', e))
               else (c, data'', None))
            else writeChunks c data'' (index + toBeSent) (dataLength - toBeSent)))"
  by pat_completeness auto
termination
  by (relation "measure (\<lambda>(_, _, _, n). n)") (auto simp: MaxPacketSize_def)

declare writeChunks.simps [simp del]

text \<open>A buffer without room for the header panics when the header is put there.\<close>

definition writePacket :: "Conn \<Rightarrow> byte list \<Rightarrow> (Conn \<times> byte list \<times> packet_error option) outcome" where
  "writePacket c data =
     (if length data < packetHeaderSize then Panic
      else Ret (writeChunks c data 0 (length data - packetHeaderSize)))"

definition startEphemeralPacketWithHeader :: "byte list \<Rightarrow> Conn \<Rightarrow> int \<Rightarrow> (Conn \<times> byte list \<times> int) outcome" where
  "startEphemeralPacketWithHeader old c n =
     (if policy c \<noteq> ephemeralUnused \<or> add64 n (int packetHeaderSize) < 0 then Panic
      else (let buf = pooled old (nat (add64 n (int packetHeaderSize))) in
        Ret (c\<lparr>policy := ephemeralWrite, ephemeralBuffer := Some buf\<rparr>, buf, int packetHeaderSize)))"

definition recycleWritePacket :: "Conn \<Rightarrow> Conn outcome" where
  "recycleWritePacket c =
     (if policy c \<noteq> ephemeralWrite then Panic
      else Ret (c\<lparr>ephemeralBuffer := None, policy := ephemeralUnused\<rparr>))"

text \<open>The deferred recycling runs after the write, also when it fails.\<close>

definition writeEphemeralPacket :: "Conn \<Rightarrow> (Conn \<times> packet_error option) outcome" where
  "writeEphemeralPacket c =
     (if policy c \<noteq> ephemeralWrite then Panic
      else (case ephemeralBuffer c of
          None \<Rightarrow> Panic
        | Some data \<Rightarrow>
            obind (writePacket c data) (\<lambda>(c, _, e).
              obind (recycleWritePacket c) (\<lambda>c. Ret (c, e)))))"

section \<open>The framing\<close>

text \<open>The reference: the bytes of a payload on the wire, and the number of packets it takes.\<close>

function frames :: "byte \<Rightarrow> byte list \<Rightarrow> byte list" where
  "frames s p =
     (if length p < MaxPacketSize then header_bytes (length p) s @ p
      else header_bytes MaxPacketSize s @ take MaxPacketSize p @ frames (s + 1) (drop MaxPacketSize p))"
  by pat_completeness auto
termination
  by (relation "measure (\<lambda>(_, p). length p)") (auto simp: MaxPacketSize_def)

declare frames.simps [simp del]

definition packets :: "byte list \<Rightarrow> nat" where
  "packets p = length p div MaxPacketSize + 1"

lemma MaxPacketSize_pos: "0 < MaxPacketSize" by (simp add: MaxPacketSize_def)

lemma frames_short: "length p < MaxPacketSize \<Longrightarrow> frames s p = header_bytes (length p) s @ p"
  by (simp add: frames.simps)

lemma frames_long:
  "\<not> length p < MaxPacketSize \<Longrightarrow>
   frames s p = header_bytes MaxPacketSize s @ take MaxPacketSize p @ frames (s + 1) (drop MaxPacketSize p)"
  by (subst frames.simps) simp

lemma packets_short: "length p < MaxPacketSize \<Longrightarrow> packets p = 1"
  by (simp add: packets_def)

lemma packets_long: "\<not> length p < MaxPacketSize \<Longrightarrow> packets p = Suc (packets (drop MaxPacketSize p))"
  using MaxPacketSize_pos by (simp add: packets_def le_div_geq)

lemma length_header_bytes [simp]: "length (header_bytes n s) = 4"
  by (simp add: header_bytes_def)

lemma header_length_bytes:
  assumes "n < 16777216" shows "header_length (header_bytes n s) = n"
proof -
  have n: "bit n k \<Longrightarrow> k < 24" for k
  proof (rule ccontr)
    assume "bit n k" "\<not> k < 24"
    moreover have "take_bit 24 n = n" using assms by (simp add: take_bit_nat_eq_self)
    ultimately show False by (metis bit_take_bit_iff)
  qed
  have "ucast (of_nat n :: byte) OR push_bit 8 (ucast (of_nat (drop_bit 8 n) :: byte))
      OR push_bit 16 (ucast (of_nat (drop_bit 16 n) :: byte)) = (of_nat n :: 32 word)"
  proof (rule bit_word_eqI)
    fix k assume "k < LENGTH(32)"
    then show "bit (ucast (of_nat n :: byte) OR push_bit 8 (ucast (of_nat (drop_bit 8 n) :: byte))
      OR push_bit 16 (ucast (of_nat (drop_bit 16 n) :: byte)) :: 32 word) k = bit (of_nat n :: 32 word) k"
      using n [of k] by (cases "k < 8"; cases "k < 16") (auto simp: bit_simps bit_of_nat_iff possible_bit_word)
  qed
  then show ?thesis
    using assms by (simp add: header_length_def header_bytes_def unsigned_of_nat take_bit_nat_eq_self)
qed

section \<open>Writing puts the framing on the wire\<close>

lemma overwrite_restore:
  assumes "index + 4 \<le> length data"
  shows "overwrite index (take 4 (drop index data)) (overwrite index (header_bytes n s) data) = data"
proof -
  have "take index data @ take 4 (drop index data) @ drop (index + 4) data = data"
    by (metis append_assoc append_take_drop_id take_add)
  then show ?thesis using assms by (simp add: overwrite_def)
qed

lemma overwrite_chunk:
  assumes "index + 4 \<le> length data"
  shows "take (n + 4) (drop index (overwrite index (header_bytes n s) data)) = header_bytes n s @ take n (drop (index + 4) data)"
  using assms by (simp add: overwrite_def)

lemma length_overwrite: "index + length bs \<le> length data \<Longrightarrow> length (overwrite index bs data) = length data"
  by (simp add: overwrite_def)

lemma writeChunks_step:
  assumes "index + 4 + n = length data" "write_limit c = Unlimited" "k = min n MaxPacketSize"
    "c' = c\<lparr>outgoing := outgoing c @ header_bytes k (seq c) @ take k (drop (index + 4) data), seq := seq c + 1\<rparr>"
  shows "writeChunks c data index n =
      (if n - k = 0 then
         (if k = MaxPacketSize then (case writeEmpty c' of (c, e) \<Rightarrow> (c, data, e)) else (c', data, None))
       else writeChunks c' data (index + k) (n - k))"
proof -
  have i: "index + 4 \<le> length data" "k \<le> n" using assms by auto
  have w: "Write c (header_bytes k (seq c) @ take k (drop (index + 4) data)) =
      (c\<lparr>outgoing := outgoing c @ header_bytes k (seq c) @ take k (drop (index + 4) data)\<rparr>, k + 4, True)"
    using assms(1,2) i by (simp add: Write_def)
  show ?thesis
    unfolding assms(4)
    by (subst writeChunks.simps)
      (simp only: Let_def packetHeaderSize_def assms(3) [symmetric] overwrite_chunk [OF i(1)]
        overwrite_restore [OF i(1)] w prod.case not_True_eq_False if_False refl, simp)
qed

lemma writeChunks_frames:
  assumes "index + 4 + n = length data" "write_limit c = Unlimited"
  shows "writeChunks c data index n =
    (c\<lparr>outgoing := outgoing c @ frames (seq c) (drop (index + 4) data),
       seq := seq c + of_nat (packets (drop (index + 4) data))\<rparr>, data, None)"
  using assms
proof (induction n arbitrary: c index rule: less_induct)
  case (less n)
  let ?p = "drop (index + 4) data" and ?k = "min n MaxPacketSize"
  have len: "length ?p = n" "index + 4 \<le> length data" using less.prems by auto
  let ?c = "c\<lparr>outgoing := outgoing c @ header_bytes ?k (seq c) @ take ?k ?p, seq := seq c + 1\<rparr>"
  have step: "writeChunks c data index n =
      (if n - ?k = 0 then
         (if ?k = MaxPacketSize then (case writeEmpty ?c of (c, e) \<Rightarrow> (c, data, e)) else (?c, data, None))
       else writeChunks ?c data (index + ?k) (n - ?k))"
    using less.prems by (intro writeChunks_step) simp_all
  show ?case
  proof (cases "n < MaxPacketSize")
    case True
    then have "writeChunks c data index n = (?c, data, None)" by (subst step) simp
    with True len show ?thesis by (simp add: frames_short packets_short)
  next
    case False
    then have k: "?k = MaxPacketSize" by simp
    have f: "frames (seq c) ?p = header_bytes MaxPacketSize (seq c) @ take MaxPacketSize ?p @ frames (seq c + 1) (drop MaxPacketSize ?p)"
      "packets ?p = Suc (packets (drop MaxPacketSize ?p))"
      using False len by (simp_all add: frames_long packets_long)
    show ?thesis
    proof (cases "n = MaxPacketSize")
      case True
      then have "writeChunks c data index n = (case writeEmpty ?c of (c, e) \<Rightarrow> (c, data, e))" by (subst step) simp
      moreover have "writeEmpty ?c = (?c\<lparr>outgoing := outgoing ?c @ [0, 0, 0, seq c + 1], seq := seq c + 1 + 1\<rparr>, None)"
        using less.prems by (simp add: writeEmpty_def Write_def packetHeaderSize_def)
      moreover have "drop MaxPacketSize ?p = []" using True len by simp
      moreover have "frames (seq c + 1) [] = [0, 0, 0, seq c + 1]" "packets [] = 1"
        using MaxPacketSize_pos by (simp_all add: frames_short header_bytes_def packets_def)
      ultimately show ?thesis using True f by (simp add: add.assoc)
    next
      case ne: False
      have "writeChunks c data index n = writeChunks ?c data (index + MaxPacketSize) (n - MaxPacketSize)"
        using False ne by (subst step) simp
      also have "\<dots> = (?c\<lparr>outgoing := outgoing ?c @ frames (seq ?c) (drop (index + MaxPacketSize + 4) data),
          seq := seq ?c + of_nat (packets (drop (index + MaxPacketSize + 4) data))\<rparr>, data, None)"
        by (rule less.IH) (use False ne less.prems MaxPacketSize_pos in auto)
      finally show ?thesis using f k by (simp add: add.assoc add.commute add.left_commute)
    qed
  qed
qed

lemma writePacket_frames:
  assumes "4 \<le> length data" "write_limit c = Unlimited"
  shows "writePacket c data = Ret (c\<lparr>outgoing := outgoing c @ frames (seq c) (drop 4 data),
    seq := seq c + of_nat (packets (drop 4 data))\<rparr>, data, None)"
  using assms writeChunks_frames [of 0 "length data - 4" data c] by (simp add: writePacket_def packetHeaderSize_def)

section \<open>Reading undoes the framing\<close>

lemma readHeaderFrom_frame:
  assumes "incoming c = header_bytes n (seq c) @ rest" "n < 16777216"
  shows "readHeaderFrom c = (c\<lparr>incoming := rest, seq := seq c + 1\<rparr>, Inr n)"
proof -
  have "header_bytes n (seq c) ! 3 = seq c" by (simp add: header_bytes_def)
  with assms show ?thesis by (simp add: readHeaderFrom_def ReadFull_def packetHeaderSize_def header_length_bytes)
qed

lemma readBody_take: "incoming c = p @ rest \<Longrightarrow> readBody c (length p) = (c\<lparr>incoming := rest\<rparr>, Inr p)"
  by (simp add: readBody_def ReadFull_def)

lemma readOnePacket_frame:
  assumes "incoming c = header_bytes (length p) (seq c) @ p @ rest" "length p < 16777216"
  shows "readOnePacket c = (c\<lparr>incoming := rest, seq := seq c + 1\<rparr>, Inr p)"
  using readHeaderFrom_frame [OF assms] by (cases "p = []") (simp_all add: readOnePacket_def readBody_take [of _ p rest])

lemma readMore_frames:
  assumes "incoming c = frames (seq c) p @ rest"
  shows "readMore c data = (c\<lparr>incoming := rest, seq := seq c + of_nat (packets p)\<rparr>, Inr (data @ p))"
  using assms
proof (induction "length p" arbitrary: p c data rule: less_induct)
  case less
  show ?case
  proof (cases "length p < MaxPacketSize")
    case True
    then have "readOnePacket c = (c\<lparr>incoming := rest, seq := seq c + 1\<rparr>, Inr p)"
      using less.prems by (intro readOnePacket_frame) (simp_all add: frames_short MaxPacketSize_def)
    with True show ?thesis by (subst readMore.simps) (simp add: packets_short)
  next
    case False
    let ?q = "take MaxPacketSize p" and ?p = "drop MaxPacketSize p"
    have q: "length ?q = MaxPacketSize" "?q \<noteq> []" using False by (auto simp: MaxPacketSize_def)
    have "readOnePacket c = (c\<lparr>incoming := frames (seq c + 1) ?p @ rest, seq := seq c + 1\<rparr>, Inr ?q)"
      using less.prems False q by (intro readOnePacket_frame) (simp_all add: frames_long MaxPacketSize_def)
    then have "readMore c data = readMore (c\<lparr>incoming := frames (seq c + 1) ?p @ rest, seq := seq c + 1\<rparr>) (data @ ?q)"
      using q by (subst readMore.simps) simp
    also have "\<dots> = (c\<lparr>incoming := rest, seq := seq c + 1 + of_nat (packets ?p)\<rparr>, Inr ((data @ ?q) @ ?p))"
      by (subst less.hyps [of ?p]) (use False MaxPacketSize_pos in simp_all)
    finally show ?thesis using False by (simp add: packets_long add.assoc)
  qed
qed

lemma readPacket_frames:
  assumes "incoming c = frames (seq c) p @ rest"
  shows "readPacket c = (c\<lparr>incoming := rest, seq := seq c + of_nat (packets p)\<rparr>, Inr p)"
proof (cases "length p < MaxPacketSize")
  case True
  then have "readOnePacket c = (c\<lparr>incoming := rest, seq := seq c + 1\<rparr>, Inr p)"
    using assms by (intro readOnePacket_frame) (simp_all add: frames_short MaxPacketSize_def)
  with True show ?thesis by (simp add: readPacket_def packets_short)
next
  case False
  have e: "readPacket c = readMore c []"
    unfolding readPacket_def by (subst readMore.simps) (use MaxPacketSize_pos in \<open>auto split: prod.splits sum.splits\<close>)
  show ?thesis unfolding e readMore_frames [OF assms] by simp
qed

lemma frames_cases:
  obtains (short) "length p < MaxPacketSize" "frames s p = header_bytes (length p) s @ p"
  | (long) q where "\<not> length p < MaxPacketSize" "p = take MaxPacketSize p @ q" "length (take MaxPacketSize p) = MaxPacketSize"
      "frames s p = header_bytes MaxPacketSize s @ take MaxPacketSize p @ frames (s + 1) q" "length q < length p"
proof (cases "length p < MaxPacketSize")
  case True
  then show ?thesis by (intro short) (simp_all add: frames_short)
next
  case False
  then show ?thesis
    using MaxPacketSize_pos by (intro long [of "drop MaxPacketSize p"]) (simp_all add: frames_long)
qed

text \<open>A stream cut short inside a packet.\<close>

lemma readOnePacket_cut:
  assumes "incoming c = take k (header_bytes (length p) (seq c) @ p)" "k < length p + 4" "length p < 16777216"
  shows "\<exists>c' e. readOnePacket c = (c', Inl e)"
proof (cases "k < 4")
  case True
  then have "length (incoming c) < 4" using assms by simp
  then obtain c' e where "readHeaderFrom c = (c', Inl e)"
    by (cases "read_failure (incoming_end c) (length (incoming c))")
      (simp_all add: readHeaderFrom_def ReadFull_def packetHeaderSize_def)
  then show ?thesis by (simp add: readOnePacket_def)
next
  case False
  have "header_bytes (length p) (seq c) ! 3 = seq c" by (simp add: header_bytes_def)
  with False assms have "readHeaderFrom c = (c\<lparr>incoming := take (k - 4) p, seq := seq c + 1\<rparr>, Inr (length p))"
    by (simp add: readHeaderFrom_def ReadFull_def packetHeaderSize_def header_length_bytes)
  moreover have "k - 4 < length p" using False assms by linarith
  ultimately show ?thesis by (auto simp: readOnePacket_def readBody_def ReadFull_def)
qed

lemma readMore_cut:
  assumes "incoming c = take k (frames (seq c) p)" "k < length (frames (seq c) p)"
  shows "\<exists>c' e. readMore c data = (c', Inl e)"
  using assms
proof (induction "length p" arbitrary: p c k data rule: less_induct)
  case less
  show ?case
  proof (rule frames_cases [where p = p and s = "seq c"])
    assume short: "length p < MaxPacketSize" "frames (seq c) p = header_bytes (length p) (seq c) @ p"
    then obtain c' e where "readOnePacket c = (c', Inl e)"
      using readOnePacket_cut [of c k p] less.prems by (auto simp: MaxPacketSize_def)
    then show ?thesis by (subst readMore.simps) simp
  next
    fix q
    assume long: "\<not> length p < MaxPacketSize" "p = take MaxPacketSize p @ q" "length (take MaxPacketSize p) = MaxPacketSize"
      "frames (seq c) p = header_bytes MaxPacketSize (seq c) @ take MaxPacketSize p @ frames (seq c + 1) q" "length q < length p"
    let ?h = "header_bytes MaxPacketSize (seq c)" and ?t = "take MaxPacketSize p"
    show ?thesis
    proof (cases "k < MaxPacketSize + 4")
      case True
      then have "take k (?h @ ?t @ frames (seq c + 1) q) = take k (header_bytes (length ?t) (seq c) @ ?t)"
        using long(3) by simp
      then obtain c' e where "readOnePacket c = (c', Inl e)"
        using readOnePacket_cut [of c k ?t] True less.prems long(3,4) by (auto simp: MaxPacketSize_def)
      then show ?thesis by (subst readMore.simps) simp
    next
      case False
      let ?r = "take (k - 4 - MaxPacketSize) (frames (seq c + 1) q)"
      let ?c = "c\<lparr>incoming := ?r, seq := seq c + 1\<rparr>"
      have "incoming c = header_bytes (length ?t) (seq c) @ ?t @ ?r"
        using False less.prems long(3,4) by simp
      then have o: "readOnePacket c = (?c, Inr ?t)"
        using long(3) by (intro readOnePacket_frame) (simp_all add: MaxPacketSize_def)
      have "?t \<noteq> []" using long(3) MaxPacketSize_pos by (metis list.size(3) less_irrefl)
      then have m: "readMore c data = readMore ?c (data @ ?t)" using long(3) o by (subst readMore.simps) simp
      have "k - 4 - MaxPacketSize < length (frames (seq c + 1) q)" using False less.prems long(3,4) by simp
      then show ?thesis unfolding m by (intro less.hyps [OF long(5)]) simp_all
    qed
  qed
qed

lemma readPacket_cut:
  assumes "incoming c = take k (frames (seq c) p)" "k < length (frames (seq c) p)"
  shows "\<exists>c' e. readPacket c = (c', Inl e)"
proof -
  obtain c' e where m: "readMore c [] = (c', Inl e)" using readMore_cut [OF assms] by blast
  show ?thesis
  proof (cases "readOnePacket c")
    case (Pair c1 r)
    with m show ?thesis
      by (cases r) (auto simp: readPacket_def readMore.simps [of c] split: if_splits)
  qed
qed

lemma readEphemeralPacket_frames:
  assumes "incoming c = frames (seq c) p @ rest" "policy c = ephemeralUnused"
  shows "\<exists>b. readEphemeralPacket old c =
    Ret (c\<lparr>incoming := rest, seq := seq c + of_nat (packets p), policy := ephemeralRead, ephemeralBuffer := b\<rparr>, Inr p)"
proof (cases "length p < MaxPacketSize")
  case True
  then have h: "readHeaderFrom c = (c\<lparr>incoming := p @ rest, seq := seq c + 1\<rparr>, Inr (length p))"
    using assms by (intro readHeaderFrom_frame) (simp_all add: frames_short MaxPacketSize_def)
  show ?thesis
  proof (cases "p = []")
    case True
    with h assms(2) MaxPacketSize_pos show ?thesis
      by (intro exI [of _ "ephemeralBuffer c"]) (simp add: readEphemeralPacket_def packets_short)
  next
    case False
    with h assms(2) True show ?thesis
      by (intro exI [of _ "Some p"]) (simp add: readEphemeralPacket_def readBody_take [of _ p rest] packets_short Let_def)
  qed
next
  case False
  let ?q = "take MaxPacketSize p" and ?p = "drop MaxPacketSize p"
  have q: "length ?q = MaxPacketSize" using False by simp
  let ?c = "\<lambda>i. c\<lparr>incoming := i, seq := seq c + 1, policy := ephemeralRead\<rparr>" and ?f = "frames (seq c + 1) ?p @ rest"
  have "readHeaderFrom c = (c\<lparr>incoming := ?q @ ?f, seq := seq c + 1\<rparr>, Inr MaxPacketSize)"
    using assms False by (intro readHeaderFrom_frame) (simp_all add: frames_long MaxPacketSize_def)
  moreover have "readBody (?c (?q @ ?f)) MaxPacketSize = (?c ?f, Inr ?q)"
    using readBody_take [of "?c (?q @ ?f)" ?q ?f] q by simp
  moreover have "readMore (?c ?f) ?q =
      (c\<lparr>incoming := rest, seq := seq c + 1 + of_nat (packets ?p), policy := ephemeralRead\<rparr>, Inr p)"
    by (subst readMore_frames [where p = ?p and rest = rest]) simp_all
  ultimately show ?thesis
    using assms(2) False MaxPacketSize_pos
    by (intro exI [of _ "ephemeralBuffer c"]) (simp add: readEphemeralPacket_def packets_long add.assoc)
qed

lemma readPacket_wrong_sequence:
  assumes "incoming c = frames s p @ rest" "s \<noteq> seq c"
  shows "\<exists>c'. readPacket c = (c', Inl (InvalidSequence (seq c) s))"
proof -
  obtain n more where "incoming c = header_bytes n s @ more"
    using assms(1) by (cases "length p < MaxPacketSize") (auto simp: frames_short frames_long)
  moreover have "header_bytes n s ! 3 = s" by (simp add: header_bytes_def)
  ultimately have "readHeaderFrom c = (c\<lparr>incoming := more\<rparr>, Inl (InvalidSequence (seq c) s))"
    using assms(2) by (simp add: readHeaderFrom_def ReadFull_def packetHeaderSize_def)
  then show ?thesis by (simp add: readPacket_def readOnePacket_def)
qed

section \<open>Properties\<close>

text \<open>
  C11. What one end writes the other end reads: \<open>writePacket\<close> succeeds, leaves its buffer as it was and
  appends bytes to the stream from which a reader with the same sequence number gets exactly the
  payload, by \<open>readPacket\<close> and by \<open>readEphemeralPacket\<close>, whatever the length of the payload. The
  reader consumes exactly those bytes and both ends agree on the next sequence number.
\<close>

theorem packet_roundtrip:
  assumes "packetHeaderSize \<le> length data" "write_limit w = Unlimited"
  shows "\<exists>w' bs. writePacket w data = Ret (w', data, None) \<and> outgoing w' = outgoing w @ bs \<and>
    (\<forall>r rest. incoming r = bs @ rest \<longrightarrow> seq r = seq w \<longrightarrow>
       readPacket r = (r\<lparr>incoming := rest, seq := seq w'\<rparr>, Inr (drop packetHeaderSize data)) \<and>
       (policy r = ephemeralUnused \<longrightarrow>
         (\<exists>r'. readEphemeralPacket old r = Ret (r', Inr (drop packetHeaderSize data)) \<and>
            incoming r' = rest \<and> seq r' = seq w' \<and> policy r' = ephemeralRead)))"
proof -
  let ?p = "drop packetHeaderSize data"
  let ?w = "w\<lparr>outgoing := outgoing w @ frames (seq w) ?p, seq := seq w + of_nat (packets ?p)\<rparr>"
  have w: "writePacket w data = Ret (?w, data, None)"
    using assms writePacket_frames [of data w] by (simp add: packetHeaderSize_def)
  have "readPacket r = (r\<lparr>incoming := rest, seq := seq ?w\<rparr>, Inr ?p)"
    if "incoming r = frames (seq w) ?p @ rest" "seq r = seq w" for r rest
    using readPacket_frames [of r ?p rest] that by simp
  moreover have "\<exists>r'. readEphemeralPacket old r = Ret (r', Inr ?p) \<and> incoming r' = rest \<and> seq r' = seq ?w \<and> policy r' = ephemeralRead"
    if "incoming r = frames (seq w) ?p @ rest" "seq r = seq w" "policy r = ephemeralUnused" for r rest
    using readEphemeralPacket_frames [of r ?p rest old] that by auto
  ultimately show ?thesis using w by (intro exI [of _ ?w] exI [of _ "frames (seq w) ?p"]) simp
qed

definition conn0 :: Conn where
  "conn0 = \<lparr>incoming = [], incoming_end = Closed, outgoing = [], write_limit = Unlimited, seq = 255,
     policy = ephemeralUnused, ephemeralBuffer = None, Capabilities = 0, enableQueryInfo = False\<rparr>"

theorem packet_roundtrip_witness:
  "packetHeaderSize \<le> length [0, 0, 0, 0, 7, 8 :: byte] \<and> write_limit conn0 = Unlimited \<and>
   (\<exists>w' bs. writePacket conn0 [0, 0, 0, 0, 7, 8] = Ret (w', [0, 0, 0, 0, 7, 8], None) \<and>
      outgoing w' = bs \<and> snd (readPacket (conn0\<lparr>incoming := bs\<rparr>)) = Inr [7, 8])"
proof -
  have h: "packetHeaderSize \<le> length [0, 0, 0, 0, 7, 8 :: byte]" "write_limit conn0 = Unlimited"
    by (simp_all add: packetHeaderSize_def conn0_def)
  obtain w' bs where w: "writePacket conn0 [0, 0, 0, 0, 7, 8] = Ret (w', [0, 0, 0, 0, 7, 8], None)"
      "outgoing w' = outgoing conn0 @ bs"
    and r: "\<And>r rest. incoming r = bs @ rest \<Longrightarrow> seq r = seq conn0 \<Longrightarrow>
      readPacket r = (r\<lparr>incoming := rest, seq := seq w'\<rparr>, Inr (drop packetHeaderSize [0, 0, 0, 0, 7, 8]))"
    using packet_roundtrip [OF h] by metis
  have "snd (readPacket (conn0\<lparr>incoming := bs\<rparr>)) = Inr [7, 8]"
    using r [of "conn0\<lparr>incoming := bs\<rparr>" "[]"] by (simp add: packetHeaderSize_def)
  with h w show ?thesis by (simp add: conn0_def)
qed

text \<open>
  C31. Damage to the stream is an error and never a shorter payload: when only a proper part of the
  bytes of a packet arrives, or the packet carries another sequence number than the reader expects,
  \<open>readPacket\<close> returns an error.
\<close>

theorem damaged_packet_is_an_error:
  assumes "packetHeaderSize \<le> length data" "write_limit w = Unlimited"
    "writePacket w data = Ret (w', data', None)" "outgoing w' = outgoing w @ bs"
  shows "(seq r = seq w \<and> incoming r = take k bs \<and> k < length bs \<longrightarrow> (\<exists>r' e. readPacket r = (r', Inl e))) \<and>
    (seq r \<noteq> seq w \<and> incoming r = bs @ rest \<longrightarrow>
      (\<exists>r'. readPacket r = (r', Inl (InvalidSequence (seq r) (seq w)))))"
proof -
  have "bs = frames (seq w) (drop 4 data)"
    using assms writePacket_frames [of data w] by (auto simp: packetHeaderSize_def)
  then show ?thesis using readPacket_cut [of r k] readPacket_wrong_sequence [of r "seq w"] by auto
qed

lemma conn0_writes:
  "writePacket conn0 [0, 0, 0, 0, 7, 8] =
     Ret (conn0\<lparr>outgoing := [2, 0, 0, 255, 7, 8], seq := 0\<rparr>, [0, 0, 0, 0, 7, 8], None)"
  by (subst writePacket_frames)
    (simp_all add: conn0_def frames_short packets_def MaxPacketSize_def header_bytes_def drop_bit_eq_div)

theorem damaged_packet_is_an_error_witness:
  "writePacket conn0 [0, 0, 0, 0, 7, 8] =
     Ret (conn0\<lparr>outgoing := [2, 0, 0, 255, 7, 8], seq := 0\<rparr>, [0, 0, 0, 0, 7, 8], None) \<and>
   (\<exists>r' e. readPacket (conn0\<lparr>incoming := [2, 0, 0, 255, 7]\<rparr>) = (r', Inl e)) \<and>
   (\<exists>r'. readPacket (conn0\<lparr>incoming := [2, 0, 0, 255, 7, 8], seq := 1\<rparr>) = (r', Inl (InvalidSequence 1 255)))"
proof -
  have h: "packetHeaderSize \<le> length [0, 0, 0, 0, 7, 8 :: byte]" "write_limit conn0 = Unlimited"
    by (simp_all add: packetHeaderSize_def conn0_def)
  note d = damaged_packet_is_an_error [OF h conn0_writes, where bs = "[2, 0, 0, 255, 7, 8]"]
  have "\<exists>r' e. readPacket (conn0\<lparr>incoming := [2, 0, 0, 255, 7]\<rparr>) = (r', Inl e)"
    using d [where r = "conn0\<lparr>incoming := [2, 0, 0, 255, 7]\<rparr>" and k = 5] by (simp add: conn0_def)
  moreover have "\<exists>r'. readPacket (conn0\<lparr>incoming := [2, 0, 0, 255, 7, 8], seq := 1\<rparr>) = (r', Inl (InvalidSequence 1 255))"
    using d [where r = "conn0\<lparr>incoming := [2, 0, 0, 255, 7, 8], seq := 1\<rparr>" and rest = "[]"] by (simp add: conn0_def)
  ultimately show ?thesis using conn0_writes by simp
qed

end
