(* ===== verification/ResponsePackets.thy ===== *)
theory ResponsePackets
  imports Packets
begin

unbundle bit_operations_syntax

text \<open>
  The packets a server answers a command with (\<open>go/mysql/conn.go\<close>): OK, EOF and error packets, how
  they are laid out in an ephemeral buffer and sent, and how the client parses them. The OK packet
  carries the GTID of the last transaction in its session state, which is where the read-after-write
  machinery takes it from.
\<close>

section \<open>Constants and records\<close>

definition OKPacket :: byte where "OKPacket = 0"
definition EOFPacket :: byte where "EOFPacket = 0xfe"
definition ErrPacket :: byte where "ErrPacket = 0xff"
definition CapabilityClientSessionTrack :: "32 word" where "CapabilityClientSessionTrack = push_bit 23 1"
definition CapabilityClientDeprecateEOF :: "32 word" where "CapabilityClientDeprecateEOF = push_bit 24 1"
definition ServerSessionStateChanged :: "16 word" where "ServerSessionStateChanged = 0x4000"
definition SessionTrackGtids :: byte where "SessionTrackGtids = 3"
definition SSUnknownSQLState :: "byte list" where "SSUnknownSQLState = [72, 89, 48, 48, 48]"
definition CRUnknownError :: int where "CRUnknownError = 2000"

record PacketOK =
  affectedRows :: "64 word"
  lastInsertID :: "64 word"
  statusFlags :: "16 word"
  warnings :: "16 word"
  info :: "byte list"
  sessionStateData :: "byte list"

definition session_track :: "Conn \<Rightarrow> bool" where
  "session_track c \<longleftrightarrow> Capabilities c AND CapabilityClientSessionTrack = CapabilityClientSessionTrack"

definition state_changed :: "16 word \<Rightarrow> bool" where
  "state_changed flags \<longleftrightarrow> flags AND ServerSessionStateChanged = ServerSessionStateChanged"

section \<open>Sending\<close>

definition getLenEncInt :: "64 word \<Rightarrow> byte list" where
  "getLenEncInt i =
     (if i < 251 then [] @ [byte_of i 0]
      else if i < 65536 then [0xfc] @ [byte_of i 0] @ [byte_of i 8]
      else if i < 16777216 then [0xfd] @ [byte_of i 0] @ [byte_of i 8] @ [byte_of i 16]
      else [0xfe] @ [byte_of i 0] @ [byte_of i 8] @ [byte_of i 16] @ [byte_of i 24] @ [byte_of i 32] @
        [byte_of i 40] @ [byte_of i 48] @ [byte_of i 56])"

definition getLenEncString :: "byte list \<Rightarrow> byte list" where
  "getLenEncString v = getLenEncInt (of_nat (length v)) @ v"

text \<open>The session state of the OK packet: one GTID entry behind its length.\<close>

definition gtid_data :: "byte list \<Rightarrow> byte list" where
  "gtid_data s =
     (let g = getLenEncString s;
          g = [0] @ g;
          g = getLenEncString g;
          g = [3] @ g in
      getLenEncInt (of_nat (length g)) @ g)"

definition ok_length :: "Conn \<Rightarrow> PacketOK \<Rightarrow> int" where
  "ok_length c p =
     (let n = 1 + lenEncIntSize (affectedRows p) + lenEncIntSize (lastInsertID p) + 4 in
      if session_track c then
        (let n = add64 n (lenEncStringSize (info p)) in
         if state_changed (statusFlags p) then add64 n (int (length (gtid_data (sessionStateData p)))) else n)
      else add64 n (int (length (info p))))"

definition ok_coder :: "Conn \<Rightarrow> PacketOK \<Rightarrow> byte \<Rightarrow> coder \<Rightarrow> coder outcome" where
  "ok_coder c p headerType d =
     obind (coder_writeByte headerType d) (\<lambda>d.
     obind (coder_writeLenEncInt (affectedRows p) d) (\<lambda>d.
     obind (coder_writeLenEncInt (lastInsertID p) d) (\<lambda>d.
     obind (coder_writeUint16 (statusFlags p) d) (\<lambda>d.
     obind (coder_writeUint16 (warnings p) d) (\<lambda>d.
       if session_track c then
         obind (coder_writeLenEncString (info p) d) (\<lambda>d.
           if state_changed (statusFlags p) then coder_writeEOFString (gtid_data (sessionStateData p)) d
           else Ret d)
       else coder_writeEOFString (info p) d)))))"

text \<open>The buffer the coder fills is the ephemeral buffer of the connection.\<close>

definition writeOKPacketWithHeader ::
    "byte list \<Rightarrow> Conn \<Rightarrow> PacketOK \<Rightarrow> byte \<Rightarrow> (Conn \<times> packet_error option) outcome" where
  "writeOKPacketWithHeader old c p headerType =
     obind (startEphemeralPacketWithHeader old c (ok_length c p)) (\<lambda>(c, bytes, pos).
     obind (ok_coder c p headerType \<lparr>cdata = bytes, cpos = pos\<rparr>) (\<lambda>d.
       writeEphemeralPacket (c\<lparr>ephemeralBuffer := Some (cdata d)\<rparr>)))"

definition writeOKPacket :: "byte list \<Rightarrow> Conn \<Rightarrow> PacketOK \<Rightarrow> (Conn \<times> packet_error option) outcome" where
  "writeOKPacket old c p = writeOKPacketWithHeader old c p OKPacket"

definition writeOKPacketWithEOFHeader :: "byte list \<Rightarrow> Conn \<Rightarrow> PacketOK \<Rightarrow> (Conn \<times> packet_error option) outcome" where
  "writeOKPacketWithEOFHeader old c p = writeOKPacketWithHeader old c p EOFPacket"

text \<open>The error packet; the message is the formatted one.\<close>

definition writeErrorPacket ::
    "byte list \<Rightarrow> Conn \<Rightarrow> 16 word \<Rightarrow> byte list \<Rightarrow> byte list \<Rightarrow> (Conn \<times> packet_error option) outcome" where
  "writeErrorPacket old c errorCode sqlState errorMessage =
     obind (startEphemeralPacketWithHeader old c (add64 (1 + 2 + 1 + 5) (int (length errorMessage)))) (\<lambda>(c, data, pos).
     obind (writeByte data pos ErrPacket) (\<lambda>(data, pos).
     obind (writeUint16 data pos errorCode) (\<lambda>(data, pos).
     obind (writeByte data pos 35) (\<lambda>(data, pos).
       (let sqlState = (if sqlState = [] then SSUnknownSQLState else sqlState) in
        if length sqlState \<noteq> 5 then Panic
        else obind (writeEOFString data pos sqlState) (\<lambda>(data, pos).
          obind (writeEOFString data pos errorMessage) (\<lambda>(data, _).
            writeEphemeralPacket (c\<lparr>ephemeralBuffer := Some data\<rparr>))))))))"

definition writeEOFPacket ::
    "byte list \<Rightarrow> Conn \<Rightarrow> 16 word \<Rightarrow> 16 word \<Rightarrow> (Conn \<times> packet_error option) outcome" where
  "writeEOFPacket old c flags warns =
     obind (startEphemeralPacketWithHeader old c 5) (\<lambda>(c, data, pos).
     obind (writeByte data pos EOFPacket) (\<lambda>(data, pos).
     obind (writeUint16 data pos warns) (\<lambda>(data, pos).
     obind (writeUint16 data pos flags) (\<lambda>(data, _).
       writeEphemeralPacket (c\<lparr>ephemeralBuffer := Some data\<rparr>)))))"

section \<open>Parsing\<close>

definition isEOFPacket :: "Conn \<Rightarrow> byte list \<Rightarrow> bool outcome" where
  "isEOFPacket c data =
     obind (get_byte data 0) (\<lambda>b.
       if b \<noteq> EOFPacket then Ret False
       else if Capabilities c AND CapabilityClientDeprecateEOF = 0 then Ret (length data < 9)
       else Ret (length data < MaxPacketSize))"

definition isErrorPacket :: "byte list \<Rightarrow> bool outcome" where
  "isErrorPacket data = obind (get_byte data 0) (\<lambda>b. Ret (b = ErrPacket))"

text \<open>The warnings and the status flags; None is the error.\<close>

definition parseEOFPacket :: "byte list \<Rightarrow> (16 word \<times> 16 word) option outcome" where
  "parseEOFPacket data =
     obind (readUint16 data 1) (\<lambda>(warns, _, _).
     obind (readUint16 data 3) (\<lambda>(flags, _, ok).
       Ret (if \<not> ok then None else Some (warns, flags))))"

datatype ok_error =
    InvalidAffectedRows | InvalidLastInsertID | InvalidStatusFlags | InvalidWarnings
  | InvalidSessionLength byte | InvalidGtidsType | InvalidGtids

text \<open>
  The loop over the parts of the session state. A part of another type is skipped by adding its
  length, read as a signed \<open>int\<close>, to the position, so the loop may go back and never return.
\<close>

partial_function (option) parseSessionState :: "coder \<Rightarrow> PacketOK \<Rightarrow> (ok_error + PacketOK) outcome option" where
  "parseSessionState d p = (case coder_readByte d of
       Panic \<Rightarrow> Some Panic
     | Ret (d, sscType, ok) \<Rightarrow>
         if \<not> ok then Some (Ret (Inr p))
         else (case coder_readLenEncInt d of
             Panic \<Rightarrow> Some Panic
           | Ret (d, sessionLen, ok) \<Rightarrow>
               if \<not> ok then Some (Ret (Inl (InvalidSessionLength sscType)))
               else if sscType \<noteq> SessionTrackGtids then
                 parseSessionState (d\<lparr>cpos := add64 (cpos d) (sint sessionLen)\<rparr>) p
               else (case coder_readByte d of
                   Panic \<Rightarrow> Some Panic
                 | Ret (d, _, ok) \<Rightarrow>
                     if \<not> ok then Some (Ret (Inl InvalidGtidsType))
                     else (case coder_readLenEncString d of
                         Panic \<Rightarrow> Some Panic
                       | Ret (d, gtids, ok) \<Rightarrow>
                           if \<not> ok then Some (Ret (Inl InvalidGtids))
                           else parseSessionState d (p\<lparr>sessionStateData := gtids\<rparr>)))))"

definition parseOKPacket :: "Conn \<Rightarrow> byte list \<Rightarrow> (ok_error + PacketOK) outcome option" where
  "parseOKPacket c data = (case coder_readLenEncInt \<lparr>cdata = data, cpos = 1\<rparr> of
       Panic \<Rightarrow> Some Panic
     | Ret (d, rows, ok) \<Rightarrow> if \<not> ok then Some (Ret (Inl InvalidAffectedRows)) else (case coder_readLenEncInt d of
       Panic \<Rightarrow> Some Panic
     | Ret (d, lid, ok) \<Rightarrow> if \<not> ok then Some (Ret (Inl InvalidLastInsertID)) else (case coder_readUint16 d of
       Panic \<Rightarrow> Some Panic
     | Ret (d, flags, ok) \<Rightarrow> if \<not> ok then Some (Ret (Inl InvalidStatusFlags)) else (case coder_readUint16 d of
       Panic \<Rightarrow> Some Panic
     | Ret (d, warns, ok) \<Rightarrow> if \<not> ok then Some (Ret (Inl InvalidWarnings)) else (case coder_readLenEncInfo d of
       Panic \<Rightarrow> Some Panic
     | Ret (d, str, _) \<Rightarrow>
         (let p = \<lparr>affectedRows = rows, lastInsertID = lid, statusFlags = flags, warnings = warns,
                info = (if enableQueryInfo c then str else []), sessionStateData = []\<rparr> in
          if session_track c \<and> state_changed flags then
            (case coder_readLenEncInt d of
               Panic \<Rightarrow> Some Panic
             | Ret (d, n, ok) \<Rightarrow>
                 if \<not> ok \<or> n = 0 then Some (Ret (Inr p)) else parseSessionState d p)
          else Some (Ret (Inr p))))))))"

record SQLError =
  Num :: int
  State :: "byte list"
  Message :: "byte list"

text \<open>The text of a malformed packet's error is a parameter: it prints the packet.\<close>

definition NewSQLError :: "int \<Rightarrow> byte list \<Rightarrow> byte list \<Rightarrow> SQLError" where
  "NewSQLError number sqlState msg =
     \<lparr>Num = number, State = (if sqlState = [] then SSUnknownSQLState else sqlState), Message = msg\<rparr>"

definition ParseErrorPacket :: "(byte list \<Rightarrow> byte list) \<Rightarrow> (byte list \<Rightarrow> byte list) \<Rightarrow> byte list \<Rightarrow> SQLError outcome" where
  "ParseErrorPacket badCode badState data =
     obind (readUint16 data 1) (\<lambda>(code, pos, ok).
       if \<not> ok then Ret (NewSQLError CRUnknownError SSUnknownSQLState (badCode data))
       else obind (readBytes data (add64 pos 1) 5) (\<lambda>(sqlState, pos, ok).
         if \<not> ok then Ret (NewSQLError CRUnknownError SSUnknownSQLState (badState data))
         else obind (slice data pos (int (length data))) (\<lambda>msg.
           Ret (NewSQLError (uint code) sqlState msg))))"

section \<open>Layouts\<close>

text \<open>
  A writer lays out \<open>bs\<close> when, with room for it, it puts \<open>bs\<close> at the position and moves behind it. A
  reader takes v from \<open>bs\<close> when it returns v there and moves behind it. Both compose.
\<close>

definition lays_out :: "(coder \<Rightarrow> coder outcome) \<Rightarrow> byte list \<Rightarrow> bool" where
  "lays_out w bs \<longleftrightarrow> (\<forall>data pos. room data pos (int (length bs)) \<longrightarrow>
     w \<lparr>cdata = data, cpos = pos\<rparr> = Ret \<lparr>cdata = patch data pos bs, cpos = pos + int (length bs)\<rparr>)"

lemma lays_outD:
  "lays_out w bs \<Longrightarrow> room data pos (int (length bs)) \<Longrightarrow>
   w \<lparr>cdata = data, cpos = pos\<rparr> = Ret \<lparr>cdata = patch data pos bs, cpos = pos + int (length bs)\<rparr>"
  by (simp add: lays_out_def)

lemma room_patch:
  assumes "room data pos (int (length a) + n)" "0 \<le> n"
  shows "room data pos (int (length a))" "room (patch data pos a) (pos + int (length a)) n"
proof -
  show r: "room data pos (int (length a))" using assms by (simp add: room_def)
  then show "room (patch data pos a) (pos + int (length a)) n"
    using assms length_patch [OF r] by (auto simp: room_def)
qed

lemma lays_out_seq:
  assumes "lays_out f a" "lays_out g b"
  shows "lays_out (\<lambda>d. obind (f d) g) (a @ b)"
  unfolding lays_out_def
proof (intro allI impI)
  fix data pos assume "room data pos (int (length (a @ b)))"
  then have r: "room data pos (int (length a) + int (length b))" by simp
  show "obind (f \<lparr>cdata = data, cpos = pos\<rparr>) g =
      Ret \<lparr>cdata = patch data pos (a @ b), cpos = pos + int (length (a @ b))\<rparr>"
    using lays_outD [OF assms(1) room_patch(1) [OF r]] lays_outD [OF assms(2) room_patch(2) [OF r]] patch_patch [OF r]
    by simp
qed

lemma room_pos: "room data pos n \<Longrightarrow> 0 \<le> n \<Longrightarrow> 0 \<le> pos" by (simp add: room_def)

lemma patch_Nil: "0 \<le> pos \<Longrightarrow> patch data pos [] = data"
  by (simp add: patch_def)

lemma lays_out_Ret: "lays_out Ret []"
  by (simp add: lays_out_def patch_Nil room_pos)

lemma writeByte_patch: "room data pos 1 \<Longrightarrow> writeByte data pos b = Ret (patch data pos [b], pos + 1)"
  using put_bytes_patch [of data pos "[b]"] room_add64 [of data pos 1]
  by (simp add: writeByte_def obind_eq_Ret)

lemma writeEOFString_patch:
  "room data pos (int (length v)) \<Longrightarrow> writeEOFString data pos v = Ret (patch data pos v, pos + int (length v))"
  by (simp add: writeEOFString_def copy_at_patch room_add64)

lemma lays_out_coder:
  "lays_out (coder_writeByte b) [b]"
  "lays_out (coder_writeLenEncInt i) (lenenc_bytes i)"
  "lays_out (coder_writeUint16 u) (le_enc 2 (unat u))"
  "lays_out (coder_writeLenEncString v) (lenenc_bytes (of_nat (length v)) @ v)"
  "lays_out (coder_writeEOFString v) v"
proof -
  show "lays_out (coder_writeByte b) [b]"
    by (simp add: lays_out_def coder_writeByte_def coder_write_def writeByte_patch)
  show "lays_out (coder_writeLenEncInt i) (lenenc_bytes i)"
    by (simp add: lays_out_def coder_writeLenEncInt_def coder_write_def length_lenenc_bytes writeLenEncInt_patch)
  show "lays_out (coder_writeUint16 u) (le_enc 2 (unat u))"
    by (simp add: lays_out_def coder_writeUint16_def coder_write_def read_write_Uint(1) room_def)
  show "lays_out (coder_writeLenEncString v) (lenenc_bytes (of_nat (length v)) @ v)"
    using writeLenEncString_patch [of _ _ v]
    by (simp add: lays_out_def coder_writeLenEncString_def coder_write_def length_lenenc_bytes lenEncStringSize_def)
  show "lays_out (coder_writeEOFString v) v"
    by (simp add: lays_out_def coder_writeEOFString_def coder_write_def writeEOFString_patch)
qed

definition takes :: "(coder \<Rightarrow> (coder \<times> 'a \<times> bool) outcome) \<Rightarrow> byte list \<Rightarrow> 'a \<Rightarrow> bool" where
  "takes rd bs v \<longleftrightarrow> (\<forall>data pos. holds data pos bs \<longrightarrow>
     rd \<lparr>cdata = data, cpos = pos\<rparr> = Ret (\<lparr>cdata = data, cpos = pos + int (length bs)\<rparr>, v, True))"

lemma takesD:
  "takes rd bs v \<Longrightarrow> holds data pos bs \<Longrightarrow>
   rd \<lparr>cdata = data, cpos = pos\<rparr> = Ret (\<lparr>cdata = data, cpos = pos + int (length bs)\<rparr>, v, True)"
  by (simp add: takes_def)

lemma holds_room: "holds data pos bs \<Longrightarrow> int (length data) \<le> maxInt64" by (simp add: holds_def room_def)

lemma takes_coder:
  "takes coder_readByte [b] b"
  "takes coder_readLenEncInt (lenenc_bytes i) i"
  "takes coder_readUint16 (le_enc 2 (unat u)) u"
  "takes coder_readLenEncString (lenenc_bytes (of_nat (length v)) @ v) v"
  "takes coder_readLenEncInfo (lenenc_bytes (of_nat (length v)) @ v) v"
proof -
  show "takes coder_readByte [b] b"
    unfolding takes_def
  proof (intro allI impI)
    fix data pos assume "holds data pos [b]"
    from holds_Cons(1,3-5) [OF this]
    show "coder_readByte \<lparr>cdata = data, cpos = pos\<rparr> = Ret (\<lparr>cdata = data, cpos = pos + int (length [b])\<rparr>, b, True)"
      by (simp add: coder_readByte_def coder_read_def readByte_def add64_id)
  qed
  show "takes coder_readLenEncInt (lenenc_bytes i) i"
    by (simp add: takes_def coder_readLenEncInt_def coder_read_def readLenEncInt_holds length_lenenc_bytes)
  show "takes coder_readUint16 (le_enc 2 (unat u)) u"
    using read_write_Uint(4) [of _ _ u]
    by (simp add: takes_def coder_readUint16_def coder_read_def holds_room)
  show "takes coder_readLenEncString (lenenc_bytes (of_nat (length v)) @ v) v"
    by (simp add: takes_def coder_readLenEncString_def coder_read_def readLenEncString_holds length_lenenc_bytes lenEncStringSize_def)
  show "takes coder_readLenEncInfo (lenenc_bytes (of_nat (length v)) @ v) v"
    by (simp add: takes_def coder_readLenEncInfo_def readLenEncString_holds length_lenenc_bytes lenEncStringSize_def)
qed

section \<open>Sending an ephemeral packet\<close>

lemma getLenEncInt_bytes: "getLenEncInt i = lenenc_bytes i"
  by (simp add: getLenEncInt_def lenenc_bytes_def)

lemma length_pooled [simp]: "length (pooled old n) = n" by (simp add: pooled_def)

text \<open>The payload fills the buffer behind the header, so nothing of the earlier use is sent.\<close>

lemma writeEphemeralPacket_payload:
  assumes "policy c = ephemeralWrite" "write_limit c = Unlimited" "length buf = 4 + length p"
  shows "writeEphemeralPacket (c\<lparr>ephemeralBuffer := Some (patch buf 4 p)\<rparr>) =
    Ret (c\<lparr>outgoing := outgoing c @ frames (seq c) p, seq := seq c + of_nat (packets p), policy := ephemeralUnused,
      ephemeralBuffer := None\<rparr>, None)"
proof -
  have "drop 4 (patch buf 4 p) = p" "4 \<le> length (patch buf 4 p)" using assms(3) by (simp_all add: patch_def)
  with assms(1,2) writePacket_frames [of "patch buf 4 p" "c\<lparr>ephemeralBuffer := Some (patch buf 4 p)\<rparr>"] show ?thesis
    by (simp add: writeEphemeralPacket_def recycleWritePacket_def)
qed

definition sends :: "Conn \<Rightarrow> (Conn \<times> packet_error option) outcome \<Rightarrow> byte list \<Rightarrow> bool" where
  "sends c r p \<longleftrightarrow> r = Ret (c\<lparr>outgoing := outgoing c @ frames (seq c) p, seq := seq c + of_nat (packets p),
     policy := ephemeralUnused, ephemeralBuffer := None\<rparr>, None)"

lemma startEphemeral_room:
  assumes "policy c = ephemeralUnused" "int n + 4 \<le> maxInt64"
  shows "startEphemeralPacketWithHeader old c (int n) =
      Ret (c\<lparr>policy := ephemeralWrite, ephemeralBuffer := Some (pooled old (n + 4))\<rparr>, pooled old (n + 4), 4)"
    and "room (pooled old (n + 4)) 4 (int n)"
  using assms
  by (simp_all add: startEphemeralPacketWithHeader_def packetHeaderSize_def add64_id room_def nat_add_distrib Let_def)

definition ok_payload :: "Conn \<Rightarrow> PacketOK \<Rightarrow> byte \<Rightarrow> byte list" where
  "ok_payload c p headerType =
     [headerType] @ lenenc_bytes (affectedRows p) @ lenenc_bytes (lastInsertID p) @
     le_enc 2 (unat (statusFlags p)) @ le_enc 2 (unat (warnings p)) @
     (if session_track c then
        (lenenc_bytes (of_nat (length (info p))) @ info p) @
        (if state_changed (statusFlags p) then gtid_data (sessionStateData p) else [])
      else info p)"

lemma ok_coder_lays_out: "lays_out (ok_coder c p headerType) (ok_payload c p headerType)"
proof -
  let ?i = "lenenc_bytes (of_nat (length (info p))) @ info p" and ?g = "gtid_data (sessionStateData p)"
  have a: "lays_out (\<lambda>d. obind (coder_writeLenEncString (info p) d) (coder_writeEOFString ?g)) (?i @ ?g)"
    by (intro lays_out_seq lays_out_coder)
  have b: "lays_out (\<lambda>d. obind (coder_writeLenEncString (info p) d) Ret) (?i @ [])"
    by (intro lays_out_seq lays_out_coder lays_out_Ret)
  have "lays_out (\<lambda>d. if session_track c then
         obind (coder_writeLenEncString (info p) d) (\<lambda>d.
           if state_changed (statusFlags p) then coder_writeEOFString ?g d else Ret d)
       else coder_writeEOFString (info p) d)
     (if session_track c then ?i @ (if state_changed (statusFlags p) then ?g else []) else info p)"
    using a b lays_out_coder(5) [of "info p"] by (cases "session_track c"; cases "state_changed (statusFlags p)") simp_all
  then show ?thesis
    unfolding ok_coder_def ok_payload_def by (intro lays_out_seq lays_out_coder)
qed

lemma ok_length_payload:
  assumes "int (length (ok_payload c p h)) \<le> maxInt64"
  shows "ok_length c p = int (length (ok_payload c p h))"
proof -
  note pos = lenEncIntSize_pos [of "affectedRows p"] lenEncIntSize_pos [of "lastInsertID p"]
    lenEncIntSize_pos [of "of_nat (length (info p))"]
  from assms pos show ?thesis
    by (cases "session_track c"; cases "state_changed (statusFlags p)")
      (simp_all add: ok_length_def ok_payload_def length_lenenc_bytes lenEncStringSize_def Let_def add64_id)
qed

lemma writeOKPacket_sends:
  assumes "policy c = ephemeralUnused" "write_limit c = Unlimited"
    "int (length (ok_payload c p h)) + 4 \<le> maxInt64"
  shows "sends c (writeOKPacketWithHeader old c p h) (ok_payload c p h)"
proof -
  let ?p = "ok_payload c p h"
  let ?buf = "pooled old (length ?p + 4)"
  have n: "ok_length c p = int (length ?p)" using assms(3) by (intro ok_length_payload) simp
  note s = startEphemeral_room [OF assms(1,3)]
  have "ok_coder (c\<lparr>policy := ephemeralWrite, ephemeralBuffer := Some ?buf\<rparr>) p h = ok_coder c p h"
    by (simp add: ok_coder_def session_track_def fun_eq_iff)
  with s n lays_outD [OF ok_coder_lays_out s(2)]
    writeEphemeralPacket_payload [of "c\<lparr>policy := ephemeralWrite, ephemeralBuffer := Some ?buf\<rparr>" ?buf ?p] assms
  show ?thesis by (simp add: writeOKPacketWithHeader_def sends_def add.commute)
qed

section \<open>Parsing what was sent\<close>

lemma holds_self: "int (length p) \<le> maxInt64 \<Longrightarrow> holds p 0 p"
  by (simp add: holds_def room_def)

lemma size_word_nz: "int n \<le> maxInt64 \<Longrightarrow> 0 < n \<Longrightarrow> (of_nat n :: 64 word) \<noteq> 0"
  using size_word [of n] by auto

lemma gtid_data_bytes:
  "gtid_data s = (let e = [0] @ lenenc_bytes (of_nat (length s)) @ s; g = [3] @ lenenc_bytes (of_nat (length e)) @ e in
     lenenc_bytes (of_nat (length g)) @ g)"
  by (simp add: gtid_data_def getLenEncString_def getLenEncInt_bytes Let_def)

lemma readByte_end: "coder_readByte \<lparr>cdata = data, cpos = int (length data)\<rparr> = Ret (\<lparr>cdata = data, cpos = 0\<rparr>, 0, False)"
  by (simp add: coder_readByte_def coder_read_def readByte_def)

lemma parseSessionState_gtid:
  assumes "holds data pos ([3] @ lenenc_bytes (of_nat n) @ [0] @ lenenc_bytes (of_nat (length s)) @ s)"
    "pos + int (length ([3] @ lenenc_bytes (of_nat n) @ [0] @ lenenc_bytes (of_nat (length s)) @ s)) = int (length data)"
  shows "parseSessionState \<lparr>cdata = data, cpos = pos\<rparr> p = Some (Ret (Inr (p\<lparr>sessionStateData := s\<rparr>)))"
proof -
  let ?n = "lenenc_bytes (of_nat n)" and ?s = "lenenc_bytes (of_nat (length s)) @ s"
  note a = holds_append [OF assms(1)]
  note b = holds_append [OF conjunct2 [OF a]]
  note d = holds_append [OF conjunct2 [OF b]]
  note h = conjunct1 [OF a] conjunct1 [OF b] conjunct1 [OF d] conjunct2 [OF d]
  have e: "pos + int (length [3 :: byte]) + int (length ?n) + int (length [0 :: byte]) + int (length ?s) = int (length data)"
    using assms(2) by simp
  show ?thesis
    using takesD [OF takes_coder(1) h(1)] takesD [OF takes_coder(2) h(2)] takesD [OF takes_coder(1) h(3)]
      takesD [OF takes_coder(4) h(4)]
    by (subst parseSessionState.simps)
      (simp only: SessionTrackGtids_def outcome.case prod.case not_True_eq_False if_False refl e,
       subst parseSessionState.simps, simp add: readByte_end)
qed

lemma parseOKPacket_payload:
  assumes "int (length (ok_payload c p h)) \<le> maxInt64" "session_track c" "session_track c'"
  shows "parseOKPacket c' (ok_payload c p h) =
    Some (Ret (Inr (p\<lparr>info := if enableQueryInfo c' then info p else [],
      sessionStateData := if state_changed (statusFlags p) then sessionStateData p else []\<rparr>)))"
proof -
  let ?d = "ok_payload c p h" and ?a = "lenenc_bytes (affectedRows p)" and ?l = "lenenc_bytes (lastInsertID p)"
    and ?f = "le_enc 2 (unat (statusFlags p))" and ?w = "le_enc 2 (unat (warnings p))"
    and ?i = "lenenc_bytes (of_nat (length (info p))) @ info p"
  let ?g = "if state_changed (statusFlags p) then gtid_data (sessionStateData p) else []"
  have d: "?d = [h] @ ?a @ ?l @ ?f @ ?w @ ?i @ ?g" using assms(2) by (simp add: ok_payload_def)
  have "holds ?d 0 ([h] @ ?a @ ?l @ ?f @ ?w @ ?i @ ?g)" using holds_self [OF assms(1)] d by simp
  from conjunct2 [OF holds_append [OF this]] have h1: "holds ?d 1 (?a @ ?l @ ?f @ ?w @ ?i @ ?g)" by simp
  note h2 = conjunct2 [OF holds_append [OF h1]]
  note h3 = conjunct2 [OF holds_append [OF h2]]
  note h4 = conjunct2 [OF holds_append [OF h3]]
  note h5 = conjunct2 [OF holds_append [OF h4]]
  have h6: "holds ?d (1 + int (length ?a) + int (length ?l) + int (length ?f) + int (length ?w) + int (length ?i)) ?g"
    and h5': "holds ?d (1 + int (length ?a) + int (length ?l) + int (length ?f) + int (length ?w)) ?i"
    using holds_append [of ?d _ ?i ?g] h5 by auto
  let ?q = "1 + int (length ?a) + int (length ?l) + int (length ?f) + int (length ?w) + int (length ?i)"
  let ?p = "\<lparr>affectedRows = affectedRows p, lastInsertID = lastInsertID p, statusFlags = statusFlags p, warnings = warnings p,
    info = (if enableQueryInfo c' then info p else []), sessionStateData = []\<rparr>"
  have head: "parseOKPacket c' ?d =
      (if state_changed (statusFlags p) then
         (case coder_readLenEncInt \<lparr>cdata = ?d, cpos = ?q\<rparr> of
            Panic \<Rightarrow> Some Panic
          | Ret (d, n, ok) \<Rightarrow> if \<not> ok \<or> n = 0 then Some (Ret (Inr ?p)) else parseSessionState d ?p)
       else Some (Ret (Inr ?p)))"
    using takesD [OF takes_coder(2) conjunct1 [OF holds_append [OF h1]]]
      takesD [OF takes_coder(2) conjunct1 [OF holds_append [OF h2]]]
      takesD [OF takes_coder(3) conjunct1 [OF holds_append [OF h3]]]
      takesD [OF takes_coder(3) conjunct1 [OF holds_append [OF h4]]]
      takesD [OF takes_coder(5) h5']
    unfolding parseOKPacket_def
    by (simp only: outcome.case prod.case not_True_eq_False if_False Let_def assms(3) simp_thms)
  show ?thesis
  proof (cases "state_changed (statusFlags p)")
    case False
    then show ?thesis unfolding head by simp
  next
    case True
    let ?s = "sessionStateData p"
    let ?e = "[0] @ lenenc_bytes (of_nat (length ?s)) @ ?s"
    let ?b = "[3] @ lenenc_bytes (of_nat (length ?e)) @ ?e"
    let ?n = "lenenc_bytes (of_nat (length ?b))"
    have g: "?g = ?n @ ?b" using True by (simp only: if_True gtid_data_bytes Let_def)
    have hn: "holds ?d ?q ?n" "holds ?d (?q + int (length ?n)) ?b" using holds_append [of ?d ?q ?n ?b] h6 g by auto
    have len: "?q + int (length ?n) + int (length ?b) = int (length ?d)" unfolding d g by simp
    have "int (length ?b) \<le> maxInt64" using len assms(1) by linarith
    then have nz: "(of_nat (length ?b) :: 64 word) \<noteq> 0" by (rule size_word_nz) simp
    have "parseSessionState \<lparr>cdata = ?d, cpos = ?q + int (length ?n)\<rparr> ?p = Some (Ret (Inr (?p\<lparr>sessionStateData := ?s\<rparr>)))"
      by (rule parseSessionState_gtid [OF hn(2) len])
    with True takesD [OF takes_coder(2) hn(1)] nz show ?thesis
      unfolding head by (simp only: if_True outcome.case prod.case not_True_eq_False simp_thms if_False) simp
  qed
qed

section \<open>Returning and not returning\<close>

lemma readLenEncInt_small:
  assumes "0xfe \<notin> set data" "0 \<le> pos" "readLenEncInt data pos = Ret (v, p, True)"
  shows "uint v < 16777216"
proof -
  have sh: "uint (shl64 b k) < 16777216" if "k \<le> 16" for b k
  proof -
    have "uint (shl64 b k) = take_bit 64 (push_bit k (uint b))"
      by (simp add: shl64_def unsigned_push_bit_eq unsigned_ucast_eq take_bit_push_bit) 
    also have "\<dots> \<le> uint b * 2 ^ k" by (simp add: push_bit_eq_mult take_bit_int_less_eq_self_iff)
    also have "\<dots> < 256 * 2 ^ k" using unsigned_less [of b, where ?'a = int] by simp
    also have "\<dots> \<le> 256 * 2 ^ 16" using that by (intro mult_left_mono power_increasing) simp_all
    finally show ?thesis by simp
  qed
  have or: "uint (a OR b) < 16777216" if "uint a < 16777216" "uint b < 16777216" for a b :: "64 word"
    using OR_upper [of "uint a" 24 "uint b"] that by (simp add: unsigned_or_eq)
  have "uint (ucast b :: 64 word) < 16777216" for b :: byte
    using sh [of 0 b] by (simp add: shl64_def)
  moreover have "pos < int (length data)" using assms(3) by (cases "pos < int (length data)") (simp_all add: readLenEncInt_def)
  then have "get_byte data pos = Ret (data ! nat pos)" "data ! nat pos \<in> set data"
    using assms(2) by (auto simp: get_byte_def nat_less_iff)
  moreover from this(2) have "data ! nat pos \<noteq> 0xfe" using assms(1) by metis
  ultimately show ?thesis
    using assms(3) sh or by (auto simp: readLenEncInt_def obind_eq_Ret split: if_splits)
qed

text \<open>Well inside the largest \<open>int\<close>: the slack covers the length of a session-state part.\<close>

definition moderate :: "byte list \<Rightarrow> bool" where
  "moderate data \<longleftrightarrow> int (length data) + 33554432 \<le> maxInt64"

lemma add64_small: "0 \<le> a \<Longrightarrow> 0 \<le> b \<Longrightarrow> a + b \<le> maxInt64 \<Longrightarrow> add64 a b = a + b"
  by (rule add64_id) (simp_all add: maxInt64_def)

lemma moderate_sane: "moderate data \<Longrightarrow> sane data" by (simp add: moderate_def sane_def)

lemma readLenEncString_small:
  assumes "0xfe \<notin> set data" "0 \<le> pos" "moderate data"
  shows "\<exists>r p ok. readLenEncString data pos = Ret (r, p, ok) \<and> (ok \<longrightarrow> pos < p \<and> p \<le> int (length data))"
proof -
  obtain v p ok where i: "readLenEncInt data pos = Ret (v, p, ok)" "ok \<longrightarrow> pos < p \<and> p \<le> int (length data)"
    using readLenEncInt_bounds [OF assms(2) moderate_sane [OF assms(3)]] by blast
  show ?thesis
  proof (cases ok)
    case False
    with i have "readLenEncString data pos = Ret ([], 0, False)" by (simp add: readLenEncString_def)
    then show ?thesis by auto
  next
    case True
    then have v: "uint v < 16777216" using readLenEncInt_small [OF assms(1,2)] i by simp
    then have s: "sint v = uint v" "0 \<le> uint v" by (simp_all add: sint_uint64)
    have b: "0 < p" "p + uint v + 1 \<le> maxInt64"
      using v i(2) [rule_format, OF True] assms(2,3) unfolding moderate_def by linarith+
    have a: "add64 p (uint v) = p + uint v" "sub64 (p + uint v) 1 = p + uint v - 1"
      using add64_small [of p "uint v"] sub64_id [of "p + uint v" 1] b s(2) by simp_all
    have r: "readLenEncString data pos = (if p + uint v - 1 \<ge> int (length data) then Ret ([], 0, False)
        else obind (slice data p (p + uint v)) (\<lambda>r. Ret (r, p + uint v, True)))"
      using i(1) True unfolding readLenEncString_def by (simp add: s(1) a Let_def)
    show ?thesis
    proof (cases "p + uint v - 1 \<ge> int (length data)")
      case True
      then show ?thesis unfolding r by auto
    next
      case False
      then have "slice data p (p + uint v) = Ret (take (nat (uint v)) (drop (nat p) data))" using b(1) s(2) by (simp add: slice_def)
      moreover have "pos < p + uint v" using i(2) \<open>ok\<close> s(2) by linarith
      ultimately show ?thesis using False unfolding r by auto
    qed
  qed
qed

lemma readByte_total:
  assumes "0 \<le> pos" "moderate data"
  shows "\<exists>b p ok. readByte data pos = Ret (b, p, ok) \<and> (ok \<longrightarrow> p = pos + 1 \<and> p \<le> int (length data))"
  using assms by (auto simp: readByte_def get_byte_def moderate_def add64_id)

lemma parseSessionState_returns:
  assumes "0xfe \<notin> set data" "moderate data" "0 \<le> pos"
  shows "\<exists>r. parseSessionState \<lparr>cdata = data, cpos = pos\<rparr> p = Some (Ret r)"
  using assms(3)
proof (induction "nat (int (length data) - pos)" arbitrary: pos p rule: less_induct)
  case less
  note pos = less.prems
  have rec: "\<exists>r. parseSessionState \<lparr>cdata = data, cpos = q\<rparr> p' = Some (Ret r)" if "pos < q" "pos < int (length data)" for q p'
    using that pos by (intro less.hyps) auto
  obtain b q ok where b: "readByte data pos = Ret (b, q, ok)" "ok \<longrightarrow> q = pos + 1 \<and> q \<le> int (length data)"
    using readByte_total [OF pos assms(2)] by blast
  show ?case
  proof (cases ok)
    case False
    with b show ?thesis by (subst parseSessionState.simps) (simp add: coder_readByte_def coder_read_def)
  next
    case True
    then have q: "0 \<le> q" "pos < q" "pos < int (length data)" using b pos by auto
    obtain v r ok' where i: "readLenEncInt data q = Ret (v, r, ok')" "ok' \<longrightarrow> q < r \<and> r \<le> int (length data)"
      using readLenEncInt_bounds [OF q(1) moderate_sane [OF assms(2)]] by blast
    show ?thesis
    proof (cases ok')
      case False
      with b True i show ?thesis
        by (subst parseSessionState.simps) (simp add: coder_readByte_def coder_readLenEncInt_def coder_read_def)
    next
      case ok': True
      then have v: "uint v < 16777216" using readLenEncInt_small [OF assms(1) q(1)] i by simp
      then have s: "sint v = uint v" "0 \<le> uint v" by (simp_all add: sint_uint64)
      have a: "add64 r (sint v) = r + uint v"
        unfolding s(1) using v s(2) i(2) [rule_format, OF ok'] q assms(2) unfolding moderate_def
        by (intro add64_small) linarith+
      have r: "0 \<le> r" "pos < r" using i ok' q by auto
      obtain b2 t ok2 where b2: "readByte data r = Ret (b2, t, ok2)" "ok2 \<longrightarrow> t = r + 1 \<and> t \<le> int (length data)"
        using readByte_total [OF r(1) assms(2)] by blast
      have st: "parseSessionState \<lparr>cdata = data, cpos = pos\<rparr> p =
          (if b \<noteq> SessionTrackGtids then parseSessionState \<lparr>cdata = data, cpos = r + uint v\<rparr> p
           else if \<not> ok2 then Some (Ret (Inl InvalidGtidsType))
           else (case coder_readLenEncString \<lparr>cdata = data, cpos = t\<rparr> of
               Panic \<Rightarrow> Some Panic
             | Ret (d, gtids, ok) \<Rightarrow>
                 if \<not> ok then Some (Ret (Inl InvalidGtids)) else parseSessionState d (p\<lparr>sessionStateData := gtids\<rparr>)))"
        using b True i ok' b2 a
        by (subst parseSessionState.simps) (simp add: coder_readByte_def coder_readLenEncInt_def coder_read_def)
      show ?thesis
      proof (cases "b \<noteq> SessionTrackGtids \<or> \<not> ok2")
        case True
        then show ?thesis unfolding st using rec [of "r + uint v" p] r s q by auto
      next
        case False
        then have t: "0 \<le> t" "pos < t" using b2 r by auto
        obtain str u ok3 where "readLenEncString data t = Ret (str, u, ok3)" "ok3 \<longrightarrow> t < u \<and> u \<le> int (length data)"
          using readLenEncString_small [OF assms(1) t(1) assms(2)] by blast
        with False show ?thesis
          unfolding st using rec [of u "p\<lparr>sessionStateData := str\<rparr>"] t q
          by (cases ok3) (auto simp: coder_readLenEncString_def coder_read_def)
      qed
    qed
  qed
qed

text \<open>A packet whose session-state part says it is minus ten bytes long: the position is back where it was.\<close>

definition looping_packet :: "byte list" where
  "looping_packet = [0, 0, 0, 0, 0x40, 0, 0, 0, 1, 0, 0xfe, 0xf6, 0xff, 0xff, 0xff, 0xff, 0xff, 0xff, 0xff]"

lemma looping_bytes: "lenenc_bytes 0xfffffffffffffff6 = [0xfe, 0xf6, 0xff, 0xff, 0xff, 0xff, 0xff, 0xff, 0xff]"
  by (simp add: lenenc_bytes_def byte_of_def)

lemma looping_step:
  "coder_readByte \<lparr>cdata = looping_packet, cpos = 9\<rparr> = Ret (\<lparr>cdata = looping_packet, cpos = 10\<rparr>, 0, True)"
  "coder_readLenEncInt \<lparr>cdata = looping_packet, cpos = 10\<rparr> =
     Ret (\<lparr>cdata = looping_packet, cpos = 19\<rparr>, 0xfffffffffffffff6, True)"
proof -
  have h: "holds looping_packet 0 ([0, 0, 0, 0, 0x40, 0, 0, 0, 1] @ [0] @ lenenc_bytes 0xfffffffffffffff6)"
    unfolding looping_bytes using holds_self [of looping_packet] by (simp add: looping_packet_def maxInt64_def)
  note a = conjunct2 [OF holds_append [OF h]]
  note b = holds_append [OF a]
  show "coder_readByte \<lparr>cdata = looping_packet, cpos = 9\<rparr> = Ret (\<lparr>cdata = looping_packet, cpos = 10\<rparr>, 0, True)"
    using takesD [OF takes_coder(1) conjunct1 [OF b]] by simp
  show "coder_readLenEncInt \<lparr>cdata = looping_packet, cpos = 10\<rparr> =
     Ret (\<lparr>cdata = looping_packet, cpos = 19\<rparr>, 0xfffffffffffffff6, True)"
    using takesD [OF takes_coder(2) conjunct2 [OF b]] by (simp add: looping_bytes)
qed

lemma looping_packet_loops: "parseSessionState \<lparr>cdata = looping_packet, cpos = 9\<rparr> p = None"
proof (rule ccontr)
  assume "parseSessionState \<lparr>cdata = looping_packet, cpos = 9\<rparr> p \<noteq> None"
  then obtain r where ret: "parseSessionState \<lparr>cdata = looping_packet, cpos = 9\<rparr> p = Some r" by blast
  have "\<lparr>cdata = looping_packet, cpos = 9\<rparr> \<noteq> \<lparr>cdata = looping_packet, cpos = 9\<rparr>"
  proof (rule parseSessionState.raw_induct [where P = "\<lambda>d p r. d \<noteq> \<lparr>cdata = looping_packet, cpos = 9\<rparr>", OF _ ret])
    fix f d p r
    assume IH: "\<And>d p r. f d p = Some r \<Longrightarrow> d \<noteq> \<lparr>cdata = looping_packet, cpos = 9\<rparr>"
      and step: "(case coder_readByte d of
       Panic \<Rightarrow> Some Panic
     | Ret (d, sscType, ok) \<Rightarrow>
         if \<not> ok then Some (Ret (Inr p))
         else (case coder_readLenEncInt d of
             Panic \<Rightarrow> Some Panic
           | Ret (d, sessionLen, ok) \<Rightarrow>
               if \<not> ok then Some (Ret (Inl (InvalidSessionLength sscType)))
               else if sscType \<noteq> SessionTrackGtids then f (d\<lparr>cpos := add64 (cpos d) (sint sessionLen)\<rparr>) p
               else (case coder_readByte d of
                   Panic \<Rightarrow> Some Panic
                 | Ret (d, _, ok) \<Rightarrow>
                     if \<not> ok then Some (Ret (Inl InvalidGtidsType))
                     else (case coder_readLenEncString d of
                         Panic \<Rightarrow> Some Panic
                       | Ret (d, gtids, ok) \<Rightarrow>
                           if \<not> ok then Some (Ret (Inl InvalidGtids))
                           else f d (p\<lparr>sessionStateData := gtids\<rparr>))))) = Some r"
    show "d \<noteq> \<lparr>cdata = looping_packet, cpos = 9\<rparr>"
    proof
      assume d: "d = \<lparr>cdata = looping_packet, cpos = 9\<rparr>"
      from step have "f \<lparr>cdata = looping_packet, cpos = 9\<rparr> p = Some r"
        unfolding d by (simp add: looping_step(1,2) SessionTrackGtids_def) (simp add: add64_def wrap64_def)
      then show False using IH by blast
    qed
  qed
  then show False by simp
qed

lemma parseOKPacket_loops: "session_track c \<Longrightarrow> parseOKPacket c looping_packet = None"
proof -
  assume t: "session_track c"
  have "state_changed 0x4000" by (simp add: state_changed_def ServerSessionStateChanged_def)
  moreover have "coder_readLenEncInt \<lparr>cdata = looping_packet, cpos = 1\<rparr> = Ret (\<lparr>cdata = looping_packet, cpos = 2\<rparr>, 0, True)"
    "coder_readLenEncInt \<lparr>cdata = looping_packet, cpos = 2\<rparr> = Ret (\<lparr>cdata = looping_packet, cpos = 3\<rparr>, 0, True)"
    "coder_readUint16 \<lparr>cdata = looping_packet, cpos = 3\<rparr> = Ret (\<lparr>cdata = looping_packet, cpos = 5\<rparr>, 0x4000, True)"
    "coder_readUint16 \<lparr>cdata = looping_packet, cpos = 5\<rparr> = Ret (\<lparr>cdata = looping_packet, cpos = 7\<rparr>, 0, True)"
    "coder_readLenEncInfo \<lparr>cdata = looping_packet, cpos = 7\<rparr> = Ret (\<lparr>cdata = looping_packet, cpos = 8\<rparr>, [], True)"
    "coder_readLenEncInt \<lparr>cdata = looping_packet, cpos = 8\<rparr> = Ret (\<lparr>cdata = looping_packet, cpos = 9\<rparr>, 1, True)"
    by (simp_all add: coder_readLenEncInt_def coder_readUint16_def coder_readLenEncInfo_def coder_read_def readLenEncInt_def
        readUint16_def readLenEncString_def looping_packet_def get_byte_def slice_def add64_def sub64_def wrap64_def)
  ultimately show ?thesis using t by (simp add: parseOKPacket_def looping_packet_loops)
qed

text \<open>
  Without session tracking the info is sent to the end of the packet and parsed as a length-encoded
  string: a client that asks for it gets nothing, or the wrong part of it.
\<close>

definition untracked_packet :: PacketOK where
  "untracked_packet = \<lparr>affectedRows = 0, lastInsertID = 0, statusFlags = 2, warnings = 0, info = [104, 105], sessionStateData = []\<rparr>"

lemma untracked_info_is_lost:
  assumes "\<not> session_track c" "enableQueryInfo c"
  shows "ok_payload c untracked_packet OKPacket = [0, 0, 0, 2, 0, 0, 0, 104, 105]"
    "parseOKPacket c [0, 0, 0, 2, 0, 0, 0, 104, 105] = Some (Ret (Inr (untracked_packet\<lparr>info := []\<rparr>)))"
proof -
  let ?d = "\<lambda>p. \<lparr>cdata = [0, 0, 0, 2, 0, 0, 0, 104, 105], cpos = p\<rparr>"
  have "le_enc 2 2 = [2, 0]" "le_enc 2 0 = [0, 0]"
    using le_enc_bytes(1) [of 2] le_enc_bytes(1) [of 0] by (simp_all add: byte_of_def)
  then show "ok_payload c untracked_packet OKPacket = [0, 0, 0, 2, 0, 0, 0, 104, 105]"
    using assms(1) by (simp add: ok_payload_def untracked_packet_def OKPacket_def lenenc_bytes_def byte_of_def)
  have "coder_readLenEncInt (?d 1) = Ret (?d 2, 0, True)" "coder_readLenEncInt (?d 2) = Ret (?d 3, 0, True)"
    "coder_readUint16 (?d 3) = Ret (?d 5, 2, True)" "coder_readUint16 (?d 5) = Ret (?d 7, 0, True)"
    "coder_readLenEncInfo (?d 7) = Ret (?d 7, [], False)"
    by (simp_all add: coder_readLenEncInt_def coder_readUint16_def coder_readLenEncInfo_def coder_read_def readLenEncInt_def
        readUint16_def readLenEncString_def get_byte_def slice_def add64_def sub64_def wrap64_def)
  with assms show "parseOKPacket c [0, 0, 0, 2, 0, 0, 0, 104, 105] = Some (Ret (Inr (untracked_packet\<lparr>info := []\<rparr>)))"
    by (simp add: parseOKPacket_def untracked_packet_def)
qed

section \<open>Error and EOF packets\<close>

definition error_payload :: "16 word \<Rightarrow> byte list \<Rightarrow> byte list \<Rightarrow> byte list" where
  "error_payload code st msg =
     ([ErrPacket] @ le_enc 2 (unat code) @ [35] @ (if st = [] then SSUnknownSQLState else st)) @ msg"

lemma patch_chain:
  assumes "room data pos (int (length a) + int (length b))"
  shows "room (patch data pos a) (pos + int (length a)) (int (length b))"
    "patch (patch data pos a) (pos + int (length a)) b = patch data pos (a @ b)"
  using room_patch(2) [OF assms] patch_patch [OF assms] by simp_all

lemma writeErrorPacket_sends:
  assumes "policy c = ephemeralUnused" "write_limit c = Unlimited" "st = [] \<or> length st = 5"
    "int (length msg) + 13 \<le> maxInt64"
  shows "sends c (writeErrorPacket old c code st msg) (error_payload code st msg)"
proof -
  let ?st = "if st = [] then SSUnknownSQLState else st" and ?p = "error_payload code st msg"
  have st: "length ?st = 5" using assms(3) by (auto simp: SSUnknownSQLState_def)
  have n: "length ?p = 9 + length msg" using st by (simp add: error_payload_def)
  then have b: "int (length ?p) + 4 \<le> maxInt64" using assms(4) by simp
  let ?buf = "pooled old (length ?p + 4)"
  note s = startEphemeral_room [OF assms(1) b, of old]
  have len: "add64 (1 + 2 + 1 + 5) (int (length msg)) = int (length ?p)"
    using n assms(4) by (simp add: add64_small)
  let ?u = "le_enc 2 (unat code)"
  have r: "room ?buf 4 1" "room (patch ?buf 4 [ErrPacket]) 5 2" "room (patch ?buf 4 ([ErrPacket] @ ?u)) 7 1"
    "room (patch ?buf 4 ([ErrPacket] @ ?u @ [35])) 8 5" "room (patch ?buf 4 ([ErrPacket] @ ?u @ [35] @ ?st)) 13 (int (length msg))"
    and m: "int (length (patch ?buf 4 [ErrPacket])) \<le> maxInt64"
    using b n st length_patch [of ?buf 4] by (simp_all add: room_def)
  have p: "patch (patch ?buf 4 a) (4 + int (length a)) b = patch ?buf 4 (a @ b)" if "length a + length b \<le> length ?p" for a b
    using that b by (intro patch_patch) (simp add: room_def)
  have w: "writeByte ?buf 4 ErrPacket = Ret (patch ?buf 4 [ErrPacket], 5)"
    "writeUint16 (patch ?buf 4 [ErrPacket]) 5 code = Ret (patch ?buf 4 ([ErrPacket] @ ?u), 7)"
    "writeByte (patch ?buf 4 ([ErrPacket] @ ?u)) 7 35 = Ret (patch ?buf 4 ([ErrPacket] @ ?u @ [35]), 8)"
    "writeEOFString (patch ?buf 4 ([ErrPacket] @ ?u @ [35])) 8 ?st = Ret (patch ?buf 4 ([ErrPacket] @ ?u @ [35] @ ?st), 13)"
    "writeEOFString (patch ?buf 4 ([ErrPacket] @ ?u @ [35] @ ?st)) 13 msg = Ret (patch ?buf 4 ?p, 13 + int (length msg))"
    using writeByte_patch [OF r(1)] read_write_Uint(1) [OF m r(2), of code] writeByte_patch [OF r(3), of 35]
      writeEOFString_patch [of _ 8 ?st] r(4) st writeEOFString_patch [OF r(5)] n
      p [of "[ErrPacket]" ?u] p [of "[ErrPacket] @ ?u" "[35]"] p [of "[ErrPacket] @ ?u @ [35]" ?st]
      p [of "[ErrPacket] @ ?u @ [35] @ ?st" msg]
    by (simp_all add: error_payload_def)
  have "writeErrorPacket old c code st msg =
      writeEphemeralPacket (c\<lparr>policy := ephemeralWrite, ephemeralBuffer := Some (patch ?buf 4 ?p)\<rparr>)"
    unfolding writeErrorPacket_def len s(1) obind.simps prod.case w(1-3) Let_def
    using st w(4,5) by simp
  with writeEphemeralPacket_payload [of "c\<lparr>policy := ephemeralWrite\<rparr>" ?buf ?p] assms(2) show ?thesis
    by (simp add: sends_def)
qed

lemma ParseErrorPacket_payload:
  assumes "length st = 5" "int (length msg) + 13 \<le> maxInt64"
  shows "ParseErrorPacket f g (error_payload code st msg) = Ret \<lparr>Num = uint code, State = st, Message = msg\<rparr>"
proof -
  let ?p = "error_payload code st msg" and ?u = "le_enc 2 (unat code)"
  have st: "st \<noteq> []" using assms(1) by auto
  then have p: "?p = [ErrPacket] @ ?u @ [35] @ st @ msg" by (simp add: error_payload_def)
  have len: "int (length ?p) = 9 + int (length msg)" "int (length ?p) \<le> maxInt64" using assms by (simp_all add: p)
  have "holds ?p 0 ([ErrPacket] @ ?u @ [35] @ st @ msg)" using holds_self [OF len(2)] p by simp
  note a = conjunct2 [OF holds_append [OF this]]
  note b = conjunct2 [OF holds_append [OF a]]
  note d = conjunct2 [OF holds_append [OF b]]
  note e = holds_append [OF d]
  have "readUint16 ?p 1 = Ret (code, 3, True)"
    using read_write_Uint(4) [OF len(2), of 1 code] conjunct1 [OF holds_append [OF a]] by simp
  moreover have "add64 3 1 = 4" "add64 4 5 = 9" "sub64 9 1 = 8" by (simp_all add: add64_def sub64_def wrap64_def)
  moreover have "slice ?p 4 9 = Ret st" using holds_slice [OF conjunct1 [OF e]] assms(1) by simp
  moreover have "slice ?p 9 (int (length ?p)) = Ret msg" using holds_slice [OF conjunct2 [OF e]] assms(1) len by simp
  ultimately show ?thesis using st len by (simp add: ParseErrorPacket_def readBytes_def NewSQLError_def)
qed

definition eof_payload :: "16 word \<Rightarrow> 16 word \<Rightarrow> byte list" where
  "eof_payload flags warns = [EOFPacket] @ le_enc 2 (unat warns) @ le_enc 2 (unat flags)"

lemma writeEOFPacket_sends:
  assumes "policy c = ephemeralUnused" "write_limit c = Unlimited"
  shows "sends c (writeEOFPacket old c flags warns) (eof_payload flags warns)"
proof -
  let ?p = "eof_payload flags warns" and ?w = "le_enc 2 (unat warns)" and ?f = "le_enc 2 (unat flags)"
  have n: "length ?p = 5" by (simp add: eof_payload_def)
  let ?buf = "pooled old (5 + 4)"
  have b: "int 5 + 4 \<le> maxInt64" by (simp add: maxInt64_def)
  note s = startEphemeral_room [OF assms(1) b, of old]
  have r: "room ?buf 4 1" "room (patch ?buf 4 [EOFPacket]) 5 2" "room (patch ?buf 4 ([EOFPacket] @ ?w)) 7 2"
    and m: "int (length (patch ?buf 4 [EOFPacket])) \<le> maxInt64" "int (length (patch ?buf 4 ([EOFPacket] @ ?w))) \<le> maxInt64"
    using b length_patch [of ?buf 4] by (simp_all add: room_def)
  have p: "patch (patch ?buf 4 a) (4 + int (length a)) b = patch ?buf 4 (a @ b)" if "length a + length b \<le> 5" for a b
    using that b by (intro patch_patch) (simp add: room_def)
  have w: "writeByte ?buf 4 EOFPacket = Ret (patch ?buf 4 [EOFPacket], 5)"
    "writeUint16 (patch ?buf 4 [EOFPacket]) 5 warns = Ret (patch ?buf 4 ([EOFPacket] @ ?w), 7)"
    "writeUint16 (patch ?buf 4 ([EOFPacket] @ ?w)) 7 flags = Ret (patch ?buf 4 ?p, 9)"
    using writeByte_patch [OF r(1)] read_write_Uint(1) [OF m(1) r(2), of warns] read_write_Uint(1) [OF m(2) r(3), of flags]
      p [of "[EOFPacket]" ?w] p [of "[EOFPacket] @ ?w" ?f]
    by (simp_all add: eof_payload_def)
  have "writeEOFPacket old c flags warns =
      writeEphemeralPacket (c\<lparr>policy := ephemeralWrite, ephemeralBuffer := Some (patch ?buf 4 ?p)\<rparr>)"
    using s(1) w by (simp add: writeEOFPacket_def)
  with writeEphemeralPacket_payload [of "c\<lparr>policy := ephemeralWrite\<rparr>" ?buf ?p] assms(2) n show ?thesis
    by (simp add: sends_def)
qed

text \<open>
  An EOF packet is recognised as one whatever was negotiated, is never taken for an error, and
  gives its warnings and flags back.
\<close>

lemma parseEOFPacket_payload:
  "parseEOFPacket (eof_payload flags warns) = Ret (Some (warns, flags))"
  "isEOFPacket c (eof_payload flags warns) = Ret True"
  "isErrorPacket (eof_payload flags warns) = Ret False"
proof -
  let ?p = "eof_payload flags warns" and ?w = "le_enc 2 (unat warns)" and ?f = "le_enc 2 (unat flags)"
  have len: "int (length ?p) \<le> maxInt64" "length ?p = 5" by (simp_all add: eof_payload_def maxInt64_def)
  have "holds ?p 0 ([EOFPacket] @ ?w @ ?f)" using holds_self [OF len(1)] by (simp add: eof_payload_def)
  note a = conjunct2 [OF holds_append [OF this]]
  note b = holds_append [OF a]
  show "parseEOFPacket ?p = Ret (Some (warns, flags))"
    using read_write_Uint(4) [OF len(1), of 1 warns] read_write_Uint(4) [OF len(1), of 3 flags] conjunct1 [OF b] conjunct2 [OF b]
    by (simp add: parseEOFPacket_def)
  show "isEOFPacket c ?p = Ret True" "isErrorPacket ?p = Ret False"
    using len(2)
    by (simp_all add: isEOFPacket_def isErrorPacket_def get_byte_def eof_payload_def EOFPacket_def ErrPacket_def MaxPacketSize_def)
qed

lemma obind_Panic: "obind m (\<lambda>x. Panic) = Panic" by (cases m) simp_all

section \<open>Properties\<close>

lemma sends_read:
  assumes "sends s res p"
  shows "\<exists>s' bs. res = Ret (s', None) \<and> policy s' = ephemeralUnused \<and> outgoing s' = outgoing s @ bs \<and>
    (\<forall>r rest. incoming r = bs @ rest \<longrightarrow> seq r = seq s \<longrightarrow> readPacket r = (r\<lparr>incoming := rest, seq := seq s'\<rparr>, Inr p))"
  using assms readPacket_frames [of _ p] by (auto simp: sends_def)

lemma length_lenenc_le: "length (lenenc_bytes i) \<le> 9" by (simp add: lenenc_bytes_def)

lemma ok_payload_bound: "length (ok_payload c p h) \<le> length (info p) + length (sessionStateData p) + 80"
proof -
  note l = length_lenenc_le
  have "length (gtid_data s) \<le> length s + 40" for s
  proof -
    let ?e = "[0] @ lenenc_bytes (of_nat (length s)) @ s"
    let ?g = "[3] @ lenenc_bytes (of_nat (length ?e)) @ ?e"
    have "gtid_data s = lenenc_bytes (of_nat (length ?g)) @ ?g" by (simp only: gtid_data_bytes Let_def)
    then have "length (gtid_data s) = length (lenenc_bytes (of_nat (length ?g))) + length (lenenc_bytes (of_nat (length ?e))) +
        length (lenenc_bytes (of_nat (length s))) + 2 + length s" by simp
    with l [of "of_nat (length ?g)"] l [of "of_nat (length ?e)"] l [of "of_nat (length s)"] show ?thesis by linarith
  qed
  from this [of "sessionStateData p"] show ?thesis
    using l [of "affectedRows p"] l [of "lastInsertID p"] l [of "of_nat (length (info p))"]
    by (cases "session_track c"; cases "state_changed (statusFlags p)") (simp_all add: ok_payload_def)
qed

text \<open>
  C12. An OK packet arrives as it was sent. The server writes it whatever a recycled buffer held, and
  the client that negotiated session tracking reads it back: counts, flags and warnings, the info
  text when it asks for it, and the GTID of the session state when the server announces one.
\<close>

theorem ok_packet_roundtrip:
  assumes "policy s = ephemeralUnused" "write_limit s = Unlimited" "session_track s"
    "int (length (info p)) + int (length (sessionStateData p)) + 100 \<le> maxInt64"
  shows "\<exists>s' bs. writeOKPacketWithHeader old s p headerType = Ret (s', None) \<and> policy s' = ephemeralUnused \<and>
    outgoing s' = outgoing s @ bs \<and>
    (\<forall>r rest. incoming r = bs @ rest \<longrightarrow> seq r = seq s \<longrightarrow> session_track r \<longrightarrow>
      (\<exists>payload. readPacket r = (r\<lparr>incoming := rest, seq := seq s'\<rparr>, Inr payload) \<and>
         parseOKPacket r payload = Some (Ret (Inr (p\<lparr>info := if enableQueryInfo r then info p else [],
           sessionStateData := if state_changed (statusFlags p) then sessionStateData p else []\<rparr>)))))"
proof -
  let ?p = "ok_payload s p headerType"
  have b: "int (length ?p) + 4 \<le> maxInt64" using ok_payload_bound [of s p headerType] assms(4) by linarith
  then have b': "int (length ?p) \<le> maxInt64" by simp
  obtain s' bs where w: "writeOKPacketWithHeader old s p headerType = Ret (s', None)" "policy s' = ephemeralUnused"
      "outgoing s' = outgoing s @ bs"
    and r: "\<And>r rest. incoming r = bs @ rest \<Longrightarrow> seq r = seq s \<Longrightarrow> readPacket r = (r\<lparr>incoming := rest, seq := seq s'\<rparr>, Inr ?p)"
    using sends_read [OF writeOKPacket_sends [OF assms(1,2) b]] by metis
  have t: "\<exists>payload. readPacket r = (r\<lparr>incoming := rest, seq := seq s'\<rparr>, Inr payload) \<and>
         parseOKPacket r payload = Some (Ret (Inr (p\<lparr>info := if enableQueryInfo r then info p else [],
           sessionStateData := if state_changed (statusFlags p) then sessionStateData p else []\<rparr>)))"
    if "incoming r = bs @ rest" "seq r = seq s" "session_track r" for r rest
    by (intro exI [of _ ?p] conjI r [OF that(1,2)] parseOKPacket_payload [OF b' assms(3) that(3)])
  show ?thesis by (rule exI [of _ s'], rule exI [of _ bs], intro conjI allI impI w, rule t)
qed

definition gtid_packet :: PacketOK where
  "gtid_packet = \<lparr>affectedRows = 300, lastInsertID = 70000, statusFlags = 0x4002, warnings = 1, info = [104, 105],
     sessionStateData = [49, 45, 50]\<rparr>"

theorem ok_packet_roundtrip_witness:
  "\<exists>s' bs payload. writeOKPacketWithHeader [9, 9, 9, 9, 9, 9] (conn0\<lparr>Capabilities := 0x800000\<rparr>) gtid_packet OKPacket = Ret (s', None) \<and>
     outgoing s' = bs \<and>
     snd (readPacket (conn0\<lparr>Capabilities := 0x800000, incoming := bs\<rparr>)) = Inr payload \<and>
     parseOKPacket (conn0\<lparr>Capabilities := 0x800000, incoming := bs\<rparr>) payload = Some (Ret (Inr (gtid_packet\<lparr>info := []\<rparr>)))"
proof -
  let ?s = "conn0\<lparr>Capabilities := 0x800000\<rparr>"
  have h: "policy ?s = ephemeralUnused" "write_limit ?s = Unlimited" "session_track ?s"
    "int (length (info gtid_packet)) + int (length (sessionStateData gtid_packet)) + 100 \<le> maxInt64"
    and c: "state_changed (statusFlags gtid_packet)"
    by (simp_all add: conn0_def session_track_def CapabilityClientSessionTrack_def gtid_packet_def maxInt64_def
        state_changed_def ServerSessionStateChanged_def)
  obtain s' bs where w: "writeOKPacketWithHeader [9, 9, 9, 9, 9, 9] ?s gtid_packet OKPacket = Ret (s', None)" "outgoing s' = outgoing ?s @ bs"
    and r: "\<forall>r rest. incoming r = bs @ rest \<longrightarrow> seq r = seq ?s \<longrightarrow> session_track r \<longrightarrow>
      (\<exists>payload. readPacket r = (r\<lparr>incoming := rest, seq := seq s'\<rparr>, Inr payload) \<and>
         parseOKPacket r payload = Some (Ret (Inr (gtid_packet\<lparr>info := if enableQueryInfo r then info gtid_packet else [],
           sessionStateData := if state_changed (statusFlags gtid_packet) then sessionStateData gtid_packet else []\<rparr>))))"
    using ok_packet_roundtrip [OF h, of "[9, 9, 9, 9, 9, 9]" OKPacket] by (elim exE conjE)
  let ?r = "conn0\<lparr>Capabilities := 0x800000, incoming := bs\<rparr>"
  have "incoming ?r = bs @ []" "seq ?r = seq ?s" "session_track ?r" "\<not> enableQueryInfo ?r" "outgoing ?s = []"
    using h(3) by (simp_all add: session_track_def conn0_def)
  with r [rule_format, of ?r "[]"] w c show ?thesis by auto
qed

text \<open>
  An error packet arrives as it was sent: number, SQL state and message, the state \<open>HY000\<close> when
  none is given. A state of another length than five is a panic.
\<close>

theorem error_packet_roundtrip:
  assumes "policy s = ephemeralUnused" "write_limit s = Unlimited" "int (length msg) + 13 \<le> maxInt64"
  shows "(st \<noteq> [] \<and> length st \<noteq> 5 \<longrightarrow> writeErrorPacket old s code st msg = Panic) \<and>
    (st = [] \<or> length st = 5 \<longrightarrow>
      (\<exists>s' bs. writeErrorPacket old s code st msg = Ret (s', None) \<and> outgoing s' = outgoing s @ bs \<and>
        (\<forall>r rest. incoming r = bs @ rest \<longrightarrow> seq r = seq s \<longrightarrow>
          (\<exists>payload. readPacket r = (r\<lparr>incoming := rest, seq := seq s'\<rparr>, Inr payload) \<and>
            isErrorPacket payload = Ret True \<and>
            ParseErrorPacket f g payload =
              Ret \<lparr>Num = uint code, State = if st = [] then SSUnknownSQLState else st, Message = msg\<rparr>))))"
proof (intro conjI impI)
  assume "st \<noteq> [] \<and> length st \<noteq> 5"
  then show "writeErrorPacket old s code st msg = Panic"
    by (simp add: writeErrorPacket_def case_prod_unfold obind_Panic)
next
  assume st: "st = [] \<or> length st = 5"
  let ?st = "if st = [] then SSUnknownSQLState else st" and ?p = "error_payload code st msg"
  have p: "?p = error_payload code ?st msg" "length ?st = 5" using st by (auto simp: error_payload_def SSUnknownSQLState_def)
  have e: "isErrorPacket ?p = Ret True" by (simp add: isErrorPacket_def error_payload_def get_byte_def)
  obtain s' bs where w: "writeErrorPacket old s code st msg = Ret (s', None)" "outgoing s' = outgoing s @ bs"
    and r: "\<And>r rest. incoming r = bs @ rest \<Longrightarrow> seq r = seq s \<Longrightarrow> readPacket r = (r\<lparr>incoming := rest, seq := seq s'\<rparr>, Inr ?p)"
    using sends_read [OF writeErrorPacket_sends [OF assms(1,2) st assms(3)]] by metis
  note q = ParseErrorPacket_payload [OF p(2) assms(3), of f g code, folded p(1)]
  show "\<exists>s' bs. writeErrorPacket old s code st msg = Ret (s', None) \<and> outgoing s' = outgoing s @ bs \<and>
        (\<forall>r rest. incoming r = bs @ rest \<longrightarrow> seq r = seq s \<longrightarrow>
          (\<exists>payload. readPacket r = (r\<lparr>incoming := rest, seq := seq s'\<rparr>, Inr payload) \<and>
            isErrorPacket payload = Ret True \<and> ParseErrorPacket f g payload = Ret \<lparr>Num = uint code, State = ?st, Message = msg\<rparr>))"
    by (rule exI [of _ s'], rule exI [of _ bs], intro conjI allI impI w, rule exI [of _ ?p], intro conjI e q, rule r)
qed

theorem error_packet_roundtrip_witness:
  "writeErrorPacket [] conn0 1064 [1] [104] = Panic \<and>
   (\<exists>s' bs payload. writeErrorPacket [] conn0 1064 [] [104] = Ret (s', None) \<and> outgoing s' = bs \<and>
      snd (readPacket (conn0\<lparr>incoming := bs\<rparr>)) = Inr payload \<and>
      ParseErrorPacket id id payload = Ret \<lparr>Num = 1064, State = SSUnknownSQLState, Message = [104]\<rparr>)"
proof -
  have h: "policy conn0 = ephemeralUnused" "write_limit conn0 = Unlimited" "int (length [104 :: byte]) + 13 \<le> maxInt64"
    by (simp_all add: conn0_def maxInt64_def)
  note e = error_packet_roundtrip [OF h, where old = "[]" and code = 1064 and f = id and g = id]
  obtain s' bs where w: "writeErrorPacket [] conn0 1064 [] [104] = Ret (s', None)" "outgoing s' = outgoing conn0 @ bs"
    and r: "\<forall>r rest. incoming r = bs @ rest \<longrightarrow> seq r = seq conn0 \<longrightarrow>
      (\<exists>payload. readPacket r = (r\<lparr>incoming := rest, seq := seq s'\<rparr>, Inr payload) \<and> isErrorPacket payload = Ret True \<and>
         ParseErrorPacket id id payload = Ret \<lparr>Num = uint (1064 :: 16 word), State = SSUnknownSQLState, Message = [104]\<rparr>)"
    using e [of "[]"] by auto
  have "incoming (conn0\<lparr>incoming := bs\<rparr>) = bs @ []" "seq (conn0\<lparr>incoming := bs\<rparr>) = seq conn0" "outgoing conn0 = []"
    by (simp_all add: conn0_def)
  with r [rule_format, of "conn0\<lparr>incoming := bs\<rparr>" "[]"] w e [of "[1]"] show ?thesis by auto
qed

lemma readUint16_total:
  assumes "0 \<le> pos" "pos \<le> int (length data)" "moderate data"
  shows "\<exists>v p ok. readUint16 data pos = Ret (v, p, ok) \<and> (ok \<longrightarrow> 0 \<le> p \<and> p \<le> int (length data))"
proof -
  have a: "add64 pos 1 = pos + 1" "add64 pos 2 = pos + 2"
    using assms by (simp_all add: add64_small moderate_def)
  show ?thesis
  proof (cases "pos + 1 \<ge> int (length data)")
    case True
    then have "readUint16 data pos = Ret (0, 0, False)" by (simp add: readUint16_def a)
    then show ?thesis by auto
  next
    case False
    then have "slice data pos (pos + 2) = Ret (take 2 (drop (nat pos) data))" using assms(1) by (simp add: slice_def)
    then have "readUint16 data pos = Ret (of_nat (le_dec (take 2 (drop (nat pos) data))), pos + 2, True)"
      using False by (simp add: readUint16_def a)
    with False assms(1) show ?thesis by auto
  qed
qed

lemma parseOKPacket_returns:
  assumes no_fe: "0xfe \<notin> set data" and m: "moderate data"
  shows "\<exists>r. parseOKPacket c data = Some (Ret r)"
proof -
  note lei = readLenEncInt_bounds [OF _ moderate_sane [OF m]]
  let ?d = "\<lambda>p. \<lparr>cdata = data, cpos = p\<rparr>"
  obtain v1 p1 ok1 where r1: "coder_readLenEncInt (?d 1) = Ret (?d p1, v1, ok1)" "ok1 \<longrightarrow> 0 \<le> p1"
    using lei [of 1] by (auto simp: coder_readLenEncInt_def coder_read_def)
  show ?thesis
  proof (cases ok1)
    case False
    with r1 show ?thesis by (simp add: parseOKPacket_def)
  next
    case ok1: True
    obtain v2 p2 ok2 where r2: "coder_readLenEncInt (?d p1) = Ret (?d p2, v2, ok2)" "ok2 \<longrightarrow> 0 \<le> p2 \<and> p2 \<le> int (length data)"
      using lei [of p1] r1 ok1 by (fastforce simp: coder_readLenEncInt_def coder_read_def)
    show ?thesis
    proof (cases ok2)
      case False
      with r1 ok1 r2 show ?thesis by (simp add: parseOKPacket_def)
    next
      case ok2: True
      obtain v3 p3 ok3 where r3: "coder_readUint16 (?d p2) = Ret (?d p3, v3, ok3)" "ok3 \<longrightarrow> 0 \<le> p3 \<and> p3 \<le> int (length data)"
        using readUint16_total [of p2 data] m r2 ok2 by (auto simp: coder_readUint16_def coder_read_def)
      show ?thesis
      proof (cases ok3)
        case False
        with r1 ok1 r2 ok2 r3 show ?thesis by (simp add: parseOKPacket_def)
      next
        case ok3: True
        obtain v4 p4 ok4 where r4: "coder_readUint16 (?d p3) = Ret (?d p4, v4, ok4)" "ok4 \<longrightarrow> 0 \<le> p4"
          using readUint16_total [of p3 data] m r3 ok3 by (auto simp: coder_readUint16_def coder_read_def)
        show ?thesis
        proof (cases ok4)
          case False
          with r1 ok1 r2 ok2 r3 ok3 r4 show ?thesis by (simp add: parseOKPacket_def)
        next
          case ok4: True
          then have p4: "0 \<le> p4" using r4 by simp
          obtain v5 q ok5 where q: "readLenEncString data p4 = Ret (v5, q, ok5)" "ok5 \<longrightarrow> p4 < q"
            using readLenEncString_small [OF no_fe p4 m] by blast
          define p5 where "p5 = (if ok5 then q else p4)"
          have r5: "coder_readLenEncInfo (?d p4) = Ret (?d p5, v5, ok5)" "0 \<le> p5"
            using q p4 by (auto simp: coder_readLenEncInfo_def p5_def)
          obtain v6 p6 ok6 where r6: "coder_readLenEncInt (?d p5) = Ret (?d p6, v6, ok6)" "ok6 \<longrightarrow> 0 \<le> p6"
            using lei [of p5] r5 by (auto simp: coder_readLenEncInt_def coder_read_def)
          have "ok6 \<Longrightarrow> \<exists>r. parseSessionState (?d p6) q = Some (Ret r)" for q
            using parseSessionState_returns [OF no_fe m] r6 by simp
          with r1 ok1 r2 ok2 r3 ok3 r4 ok4 r5 r6 show ?thesis by (simp add: parseOKPacket_def Let_def)
        qed
      qed
    qed
  qed
qed

text \<open>
  C32. Parsing an OK packet returns, without a panic, when no byte of the packet is the marker of an
  eight-byte length. With such a length it may never return: there is a packet of nineteen bytes on
  which a client that tracks the session loops for ever.
\<close>

theorem parseOKPacket_returns_or_loops:
  "(0xfe \<notin> set data \<and> moderate data \<longrightarrow> (\<exists>r. parseOKPacket c data = Some (Ret r))) \<and>
   (session_track c \<longrightarrow> parseOKPacket c looping_packet = None)"
  by (intro conjI impI parseOKPacket_returns parseOKPacket_loops) simp_all

theorem parseOKPacket_returns_or_loops_witness:
  "(\<exists>r. parseOKPacket conn0 [0, 1, 0, 2, 0, 0, 0] = Some (Ret r)) \<and>
   parseOKPacket (conn0\<lparr>Capabilities := 0x800000\<rparr>) looping_packet = None"
  using parseOKPacket_returns_or_loops [of "[0, 1, 0, 2, 0, 0, 0]" conn0]
    parseOKPacket_returns_or_loops [of "[]" "conn0\<lparr>Capabilities := 0x800000\<rparr>"]
  by (simp add: moderate_def maxInt64_def session_track_def CapabilityClientSessionTrack_def)

end
