(* ===== verification/AuthScramble.thy ===== *)
theory AuthScramble
  imports GoStrings
begin

unbundle bit_operations_syntax

text \<open>
  The password exchanges of \<open>go/mysql/auth_server.go\<close>: the client answers the server's salt with a
  scramble of its password, and the server checks the answer against the stored double hash. SHA-1
  and SHA-256 are parameters; what is used of them is the length of the digest. An index out of
  range is a panic.
\<close>

type_synonym hash = "8 word list \<Rightarrow> 8 word list"

section \<open>Model\<close>

text \<open>\<open>for i := range a { a[i] ^= b[i] }\<close>: panics when b is shorter.\<close>

definition xor_into :: "8 word list \<Rightarrow> 8 word list \<Rightarrow> 8 word list outcome" where
  "xor_into a b =
     (if length b < length a then Panic else Ret (map2 (\<lambda>x y. x XOR y) a (take (length a) b)))"

definition ScrambleMysqlNativePassword :: "hash \<Rightarrow> 8 word list \<Rightarrow> 8 word list \<Rightarrow> 8 word list outcome" where
  "ScrambleMysqlNativePassword sha1 salt password =
     (if password = [] then Ret []
      else (let stage1 = sha1 password; h = sha1 stage1; scramble = sha1 (salt @ h) in xor_into scramble stage1))"

definition DecodeMysqlNativePasswordHex :: "string \<Rightarrow> 8 word list option outcome" where
  "DecodeMysqlNativePasswordHex s = (case s of
       [] \<Rightarrow> Panic
     | c # cs \<Rightarrow> Ret (hexDecode (if c = CHR ''*'' then cs else s)))"

definition VerifyHashedMysqlNativePassword :: "hash \<Rightarrow> 8 word list \<Rightarrow> 8 word list \<Rightarrow> 8 word list \<Rightarrow> bool outcome" where
  "VerifyHashedMysqlNativePassword sha1 reply salt hashedNativePassword =
     (if reply = [] \<or> hashedNativePassword = [] then Ret False
      else (let scramble = sha1 (salt @ hashedNativePassword) in
        obind (xor_into scramble reply) (\<lambda>hashStage1.
          Ret (sha1 hashStage1 = hashedNativePassword))))"

definition ScrambleCachingSha2Password :: "hash \<Rightarrow> 8 word list \<Rightarrow> 8 word list \<Rightarrow> 8 word list outcome" where
  "ScrambleCachingSha2Password sha256 salt password =
     (if password = [] then Ret []
      else (let stage1 = sha256 password; innerHash = sha256 stage1; scramble = sha256 (innerHash @ salt) in
        xor_into stage1 scramble))"

definition VerifyHashedCachingSha2Password :: "hash \<Rightarrow> 8 word list \<Rightarrow> 8 word list \<Rightarrow> 8 word list \<Rightarrow> bool outcome" where
  "VerifyHashedCachingSha2Password sha256 reply salt hashedCachingSha2Password =
     (if reply = [] \<or> hashedCachingSha2Password = [] then Ret False
      else (let scramble = sha256 (hashedCachingSha2Password @ salt) in
        obind (xor_into scramble reply) (\<lambda>hashStage1.
          Ret (sha256 hashStage1 = hashedCachingSha2Password))))"

text \<open>The salt from twenty random bytes.\<close>

definition salt_byte :: "8 word \<Rightarrow> 8 word" where
  "salt_byte b = (let b = b AND 0x7f in if b = 0 \<or> b = 0x24 then b + 1 else b)"

definition newSalt :: "8 word list \<Rightarrow> 8 word list" where
  "newSalt random = map salt_byte random"

text \<open>\<open>EncryptPasswordWithPublicKey\<close> up to the encryption: the password with a zero byte, under the repeated salt.\<close>

definition obfuscate :: "8 word list \<Rightarrow> 8 word list \<Rightarrow> 8 word list outcome" where
  "obfuscate salt password =
     (if password = [] then Ret []
      else if salt = [] then Panic
      else (let buffer = password @ [0] in
        Ret (map (\<lambda>i. buffer ! i XOR salt ! (i mod length salt)) [0..<length buffer])))"

section \<open>Exclusive or\<close>

definition xors :: "8 word list \<Rightarrow> 8 word list \<Rightarrow> 8 word list" where
  "xors a b = map2 (\<lambda>x y. x XOR y) a b"

lemma length_xors [simp]: "length (xors a b) = min (length a) (length b)"
  by (simp add: xors_def)

lemma xors_xors: "length a = length b \<Longrightarrow> xors a (xors a b) = b"
  by (simp add: xors_def list_eq_iff_nth_eq flip: xor.assoc)

lemma xors_commute: "xors a b = xors b a"
proof (induction a arbitrary: b)
  case (Cons x xs)
  then show ?case by (cases b) (simp_all add: xors_def xor.commute)
qed (simp add: xors_def)

lemma xor_into_xors: "xor_into a b = (if length b < length a then Panic else Ret (xors a (take (length a) b)))"
  by (simp add: xor_into_def xors_def)

text \<open>
  The exchange both methods share: the digest d of the salt and the stored hash, and a reply that is
  accepted when d xor the reply is a preimage of the stored hash.
\<close>

lemma accepted_iff:
  assumes "length d = n"
  shows "obind (xor_into d reply) (\<lambda>s. Ret (f s = h)) = Ret True \<longleftrightarrow>
    n \<le> length reply \<and> (\<exists>stage1. length stage1 = n \<and> f stage1 = h \<and> take n reply = xors d stage1)"
proof -
  have "(\<exists>stage1. length stage1 = n \<and> f stage1 = h \<and> take n reply = xors d stage1) \<longleftrightarrow> f (xors d (take n reply)) = h"
    if len: "n \<le> length reply"
  proof
    assume "\<exists>stage1. length stage1 = n \<and> f stage1 = h \<and> take n reply = xors d stage1"
    then obtain stage1 where "length stage1 = n" "f stage1 = h" "take n reply = xors d stage1" by blast
    then show "f (xors d (take n reply)) = h" using assms by (simp add: xors_xors)
  next
    assume "f (xors d (take n reply)) = h"
    with len assms show "\<exists>stage1. length stage1 = n \<and> f stage1 = h \<and> take n reply = xors d stage1"
      by (intro exI [of _ "xors d (take n reply)"]) (simp add: xors_xors)
  qed
  then show ?thesis using assms by (auto simp: xor_into_xors)
qed

lemma panics_iff: "length d = n \<Longrightarrow> obind (xor_into d reply) (\<lambda>s. Ret (f s = h)) = Panic \<longleftrightarrow> length reply < n"
  by (simp add: xor_into_xors)

section \<open>Properties\<close>

text \<open>
  C13. Native authentication. The scramble of a password is accepted against the double hash of that
  password. A reply is accepted only if it is the scramble of a value whose hash is the stored one,
  that is, if its sender knows a preimage of the stored hash. The check panics exactly on a reply
  that is not empty but shorter than a digest.
\<close>

theorem native_password_verified:
  assumes "\<And>x. length (sha1 x) = 20"
  shows "(password \<noteq> [] \<longrightarrow>
      (\<exists>reply. ScrambleMysqlNativePassword sha1 salt password = Ret reply \<and>
         VerifyHashedMysqlNativePassword sha1 reply salt (sha1 (sha1 password)) = Ret True)) \<and>
    (VerifyHashedMysqlNativePassword sha1 reply salt h = Ret True \<longleftrightarrow>
      h \<noteq> [] \<and> 20 \<le> length reply \<and>
      (\<exists>stage1. length stage1 = 20 \<and> sha1 stage1 = h \<and> take 20 reply = xors (sha1 (salt @ h)) stage1)) \<and>
    (VerifyHashedMysqlNativePassword sha1 reply salt h = Panic \<longleftrightarrow> reply \<noteq> [] \<and> h \<noteq> [] \<and> length reply < 20)"
proof (intro conjI impI)
  show iff: "VerifyHashedMysqlNativePassword sha1 reply salt h = Ret True \<longleftrightarrow>
      h \<noteq> [] \<and> 20 \<le> length reply \<and>
      (\<exists>stage1. length stage1 = 20 \<and> sha1 stage1 = h \<and> take 20 reply = xors (sha1 (salt @ h)) stage1)" for reply h
    using accepted_iff [of "sha1 (salt @ h)" 20 reply sha1 h] assms
    by (cases "reply = []") (simp_all add: VerifyHashedMysqlNativePassword_def Let_def)
  show "VerifyHashedMysqlNativePassword sha1 reply salt h = Panic \<longleftrightarrow> reply \<noteq> [] \<and> h \<noteq> [] \<and> length reply < 20"
    using panics_iff [of "sha1 (salt @ h)" 20 reply sha1 h] assms
    by (simp add: VerifyHashedMysqlNativePassword_def Let_def)
  let ?h = "sha1 (sha1 password)"
  let ?r = "xors (sha1 (salt @ ?h)) (sha1 password)"
  assume "password \<noteq> []"
  then have "ScrambleMysqlNativePassword sha1 salt password = Ret ?r"
    using assms by (simp add: ScrambleMysqlNativePassword_def Let_def xor_into_xors)
  moreover have "length ?r = 20" "?h \<noteq> []" using assms by (simp, metis list.size(3) zero_neq_numeral)
  then have "VerifyHashedMysqlNativePassword sha1 ?r salt ?h = Ret True"
    unfolding iff using assms by (intro conjI exI [of _ "sha1 password"]) simp_all
  ultimately show "\<exists>reply. ScrambleMysqlNativePassword sha1 salt password = Ret reply \<and>
      VerifyHashedMysqlNativePassword sha1 reply salt ?h = Ret True" by blast
qed

definition toy_digest :: hash where
  "toy_digest x = replicate 20 (fold (\<lambda>b s. s + b) x 1)"

theorem native_password_verified_witness:
  "(\<forall>x. length (toy_digest x) = 20) \<and>
   (\<exists>reply. ScrambleMysqlNativePassword toy_digest [1, 2] [7] = Ret reply \<and>
      VerifyHashedMysqlNativePassword toy_digest reply [1, 2] (toy_digest (toy_digest [7])) = Ret True) \<and>
   VerifyHashedMysqlNativePassword toy_digest [5] [1, 2] [9] = Panic"
proof -
  have "\<And>x. length (toy_digest x) = 20" by (simp add: toy_digest_def)
  note v = native_password_verified [where ?sha1.0 = toy_digest, OF this]
  show ?thesis
    using v [where password = "[7]" and salt = "[1, 2]" and reply = "[5]" and h = "[9]"] by (simp add: toy_digest_def)
qed

text \<open>The same of the SHA-256 method, where the stored hash comes before the salt.\<close>

lemma caching_sha2_password_verified:
  assumes "\<And>x. length (sha256 x) = 32"
  shows "password \<noteq> [] \<Longrightarrow>
      \<exists>reply. ScrambleCachingSha2Password sha256 salt password = Ret reply \<and>
         VerifyHashedCachingSha2Password sha256 reply salt (sha256 (sha256 password)) = Ret True"
    and "VerifyHashedCachingSha2Password sha256 reply salt h = Ret True \<longleftrightarrow>
      h \<noteq> [] \<and> 32 \<le> length reply \<and>
      (\<exists>stage1. length stage1 = 32 \<and> sha256 stage1 = h \<and> take 32 reply = xors (sha256 (h @ salt)) stage1)"
proof -
  show iff: "VerifyHashedCachingSha2Password sha256 reply salt h = Ret True \<longleftrightarrow>
      h \<noteq> [] \<and> 32 \<le> length reply \<and>
      (\<exists>stage1. length stage1 = 32 \<and> sha256 stage1 = h \<and> take 32 reply = xors (sha256 (h @ salt)) stage1)" for reply h
    using accepted_iff [of "sha256 (h @ salt)" 32 reply sha256 h] assms
    by (cases "reply = []") (simp_all add: VerifyHashedCachingSha2Password_def Let_def)
  let ?h = "sha256 (sha256 password)"
  let ?r = "xors (sha256 password) (sha256 (?h @ salt))"
  assume "password \<noteq> []"
  then have "ScrambleCachingSha2Password sha256 salt password = Ret ?r"
    using assms by (simp add: ScrambleCachingSha2Password_def Let_def xor_into_xors)
  moreover have "length ?r = 32" "?h \<noteq> []" using assms by (simp, metis list.size(3) zero_neq_numeral)
  then have "VerifyHashedCachingSha2Password sha256 ?r salt ?h = Ret True"
    unfolding iff using assms xors_commute by (intro conjI exI [of _ "sha256 password"]) simp_all
  ultimately show "\<exists>reply. ScrambleCachingSha2Password sha256 salt password = Ret reply \<and>
      VerifyHashedCachingSha2Password sha256 reply salt ?h = Ret True" by blast
qed

text \<open>A salt has no zero byte, no dollar sign and only seven-bit bytes, as its encoding in the handshake needs.\<close>

lemma newSalt_bytes: "b \<in> set (newSalt random) \<Longrightarrow> b \<noteq> 0 \<and> b \<noteq> 0x24 \<and> b < 0x80"
proof -
  have lt: "x AND 0x7f < 0x80" for x :: "8 word"
    using word_and_le1 [of x "0x7f"] by (simp add: word_le_nat_alt word_less_nat_alt)
  assume "b \<in> set (newSalt random)"
  then obtain x where "b = salt_byte x" by (auto simp: newSalt_def)
  then show ?thesis using lt [of x] by (auto simp: salt_byte_def Let_def)
qed

end
