(* ===== verification/KeyRange.thy ===== *)
theory KeyRange
  imports GoStrings Bytes
begin

text \<open>
  Key ranges and sharding specifications (\<open>go/vt/key/key.go\<close>). A range is a pair of byte strings,
  the end exclusive and empty when unbounded; a nil pointer is \<open>None\<close> and stands for the whole
  key space. The abstraction function is the set of keyspace ids a range contains.
  \<open>GenerateShardRanges\<close> works with floating point numbers and is left out.
\<close>

unbundle bit_operations_syntax

record key_range =
  krStart :: "byte list"
  krEnd :: "byte list"

datatype key_error =
    ShardCountNotPositive int
  | ShardIndexTooLarge int int
  | ShardCountNotPowerOfTwo int
  | BadHex string
  | NoOverlap
  | NotARange string
  | LimitInTheMiddle string
  | LimitsNotInOrder string
  | NoShardInKeyspace
  | NoShardMatches string
  | NotExactShards string

section \<open>Even shards\<close>

definition be_bytes :: "64 word \<Rightarrow> byte list" where
  "be_bytes i = rev (le_enc 8 (unat i))"

fun min_bytes :: "nat \<Rightarrow> nat" where
  "min_bytes nn = (if nn > 0 then Suc (min_bytes (nn div 256)) else 0)"

declare min_bytes.simps [simp del]

definition EvenShardsKeyRange :: "int \<Rightarrow> int \<Rightarrow> key_error + key_range" where
  "EvenShardsKeyRange i n =
     (if n \<le> 0 then Inl (ShardCountNotPositive n)
      else if i \<ge> n then Inl (ShardIndexTooLarge i n)
      else if n AND (n - 1) \<noteq> 0 then Inl (ShardCountNotPowerOfTwo n)
      else
        (let minBytes = min_bytes (unat (of_int (n - 1) :: 64 word));
             width = - 1 div of_int n + 1 :: 64 word;
             start = of_int i * width;
             en = start + width
         in Inr \<lparr>krStart = (if start = 0 then [] else take minBytes (be_bytes start)),
                 krEnd = (if en = 0 then [] else take minBytes (be_bytes en))\<rparr>))"

section \<open>Operations on ranges\<close>

definition KeyRangeAdd :: "key_range option \<Rightarrow> key_range option \<Rightarrow> key_range option" where
  "KeyRangeAdd first second =
     (case (first, second) of
        (Some f, Some s) \<Rightarrow>
          if length (krEnd f) \<noteq> 0 \<and> krEnd f = krStart s then Some \<lparr>krStart = krStart f, krEnd = krEnd s\<rparr>
          else if length (krEnd s) \<noteq> 0 \<and> krEnd s = krStart f then Some \<lparr>krStart = krStart s, krEnd = krEnd f\<rparr>
          else None
      | _ \<Rightarrow> None)"

definition KeyRangeContains :: "key_range option \<Rightarrow> byte list \<Rightarrow> bool" where
  "KeyRangeContains kr id0 =
     (case kr of None \<Rightarrow> True
      | Some k \<Rightarrow> bytes_compare (krStart k) id0 \<le> 0 \<and> (length (krEnd k) = 0 \<or> bytes_compare id0 (krEnd k) < 0))"

definition ParseKeyRangeParts :: "string \<Rightarrow> string \<Rightarrow> key_error + key_range" where
  "ParseKeyRangeParts start en =
     (case hexDecode start of None \<Rightarrow> Inl (BadHex start)
      | Some s \<Rightarrow> (case hexDecode en of None \<Rightarrow> Inl (BadHex en) | Some e \<Rightarrow> Inr \<lparr>krStart = s, krEnd = e\<rparr>))"

definition KeyRangeString :: "key_range option \<Rightarrow> string" where
  "KeyRangeString k =
     (case k of None \<Rightarrow> ''-'' | Some k \<Rightarrow> hexEncode (krStart k) @ CHR ''-'' # hexEncode (krEnd k))"

definition KeyRangeIsPartial :: "key_range option \<Rightarrow> bool" where
  "KeyRangeIsPartial kr =
     (case kr of None \<Rightarrow> False | Some k \<Rightarrow> \<not> (length (krStart k) = 0 \<and> length (krEnd k) = 0))"

text \<open>The buffer starts with eight zero bytes of its own, to which the padded key is appended.\<close>

definition addPadding :: "byte list \<Rightarrow> byte list" where
  "addPadding kr = replicate 8 0 @ kr @ replicate (8 - length kr) 0"

definition KeyRangeEqual :: "key_range option \<Rightarrow> key_range option \<Rightarrow> bool" where
  "KeyRangeEqual left right =
     (case left of
        None \<Rightarrow> (case right of None \<Rightarrow> True | Some r \<Rightarrow> length (krStart r) = 0 \<and> length (krEnd r) = 0)
      | Some l \<Rightarrow>
          (case right of None \<Rightarrow> length (krStart l) = 0 \<and> length (krEnd l) = 0
           | Some r \<Rightarrow> addPadding (krStart l) = addPadding (krStart r) \<and> addPadding (krEnd l) = addPadding (krEnd r)))"

definition KeyRangeStartSmaller :: "key_range option \<Rightarrow> key_range option \<Rightarrow> bool" where
  "KeyRangeStartSmaller left right =
     (case left of None \<Rightarrow> right \<noteq> None
      | Some l \<Rightarrow> (case right of None \<Rightarrow> False | Some r \<Rightarrow> bytes_compare (krStart l) (krStart r) < 0))"

definition KeyRangeStartEqual :: "key_range option \<Rightarrow> key_range option \<Rightarrow> bool" where
  "KeyRangeStartEqual left right =
     (case left of None \<Rightarrow> (case right of None \<Rightarrow> True | Some r \<Rightarrow> length (krStart r) = 0)
      | Some l \<Rightarrow> (case right of None \<Rightarrow> length (krStart l) = 0
          | Some r \<Rightarrow> addPadding (krStart l) = addPadding (krStart r)))"

definition KeyRangeContiguous :: "key_range option \<Rightarrow> key_range option \<Rightarrow> bool" where
  "KeyRangeContiguous left right =
     (case left of
        None \<Rightarrow> (case right of None \<Rightarrow> True | Some r \<Rightarrow> length (krStart r) = 0 \<and> length (krEnd r) = 0)
      | Some l \<Rightarrow> (case right of None \<Rightarrow> length (krStart l) = 0 \<and> length (krEnd l) = 0
          | Some r \<Rightarrow> addPadding (krEnd l) = addPadding (krStart r)))"

definition KeyRangeEndEqual :: "key_range option \<Rightarrow> key_range option \<Rightarrow> bool" where
  "KeyRangeEndEqual left right =
     (case left of None \<Rightarrow> (case right of None \<Rightarrow> True | Some r \<Rightarrow> length (krEnd r) = 0)
      | Some l \<Rightarrow> (case right of None \<Rightarrow> length (krEnd l) = 0
          | Some r \<Rightarrow> addPadding (krEnd l) = addPadding (krEnd r)))"

definition KeyRangesIntersect :: "key_range option \<Rightarrow> key_range option \<Rightarrow> bool" where
  "KeyRangesIntersect first second =
     (case (first, second) of
        (Some f, Some s) \<Rightarrow>
          (length (krEnd f) = 0 \<or> bytes_compare (krStart s) (krEnd f) < 0) \<and>
          (length (krEnd s) = 0 \<or> bytes_compare (krStart f) (krEnd s) < 0)
      | _ \<Rightarrow> True)"

definition KeyRangesOverlap :: "key_range option \<Rightarrow> key_range option \<Rightarrow> key_error + key_range option" where
  "KeyRangesOverlap first second =
     (if \<not> KeyRangesIntersect first second then Inl NoOverlap
      else (case first of None \<Rightarrow> Inr second
        | Some f \<Rightarrow>
            (case second of None \<Rightarrow> Inr first
             | Some s \<Rightarrow>
                 Inr (Some
                   \<lparr>krStart = (if bytes_compare (krStart s) (krStart f) > 0 then krStart s else krStart f),
                    krEnd = (if length (krEnd f) = 0 \<or>
                        (length (krEnd s) \<noteq> 0 \<and> bytes_compare (krEnd s) (krEnd f) < 0) then krEnd s else krEnd f)\<rparr>))))"

definition KeyRangeIncludes :: "key_range option \<Rightarrow> key_range option \<Rightarrow> bool" where
  "KeyRangeIncludes big small =
     (case big of None \<Rightarrow> True
      | Some b \<Rightarrow>
          (case small of None \<Rightarrow> length (krStart b) = 0 \<and> length (krEnd b) = 0
           | Some s \<Rightarrow>
               if length (krStart b) \<noteq> 0 \<and> bytes_compare (krStart s) (krStart b) < 0 then False
               else if length (krEnd b) \<noteq> 0 \<and> (length (krEnd s) = 0 \<or> bytes_compare (krEnd s) (krEnd b) > 0) then False
               else True))"

section \<open>Sharding specifications\<close>

text \<open>The loop over \<open>parts[1:]\<close>; the last part may be empty.\<close>

fun spec_loop :: "string \<Rightarrow> string \<Rightarrow> string list \<Rightarrow> key_error + key_range list" where
  "spec_loop spec old [] = Inr []"
| "spec_loop spec old (p # ps) =
     (if p = [] \<and> ps \<noteq> [] then Inl (LimitInTheMiddle spec)
      else if p \<noteq> [] \<and> \<not> str_less old p then Inl (LimitsNotInOrder spec)
      else (case hexDecode old of None \<Rightarrow> Inl (BadHex old)
        | Some s \<Rightarrow> (case hexDecode p of None \<Rightarrow> Inl (BadHex p)
          | Some e \<Rightarrow> (case spec_loop spec p ps of Inl err \<Rightarrow> Inl err
            | Inr rs \<Rightarrow> Inr (\<lparr>krStart = s, krEnd = e\<rparr> # rs)))))"

definition ParseShardingSpec :: "string \<Rightarrow> key_error + key_range list" where
  "ParseShardingSpec spec =
     (let parts0 = split CHR ''-'' spec in
      if length parts0 = 1 \<and> spec \<noteq> ''0'' then Inl (NotARange spec)
      else (let parts = (if length parts0 = 1 then [[], []] else parts0) in
        spec_loop spec (hd parts) (tl parts)))"

definition is_hex :: "char \<Rightarrow> bool" where
  "is_hex c \<longleftrightarrow> (let n = of_char c :: nat in 48 \<le> n \<and> n \<le> 57 \<or> 97 \<le> n \<and> n \<le> 102 \<or> 65 \<le> n \<and> n \<le> 70)"

definition IsKeyRange :: "string \<Rightarrow> bool" where
  "IsKeyRange kr =
     (case cut CHR ''-'' kr of (a, b, ok) \<Rightarrow> ok \<and> list_all is_hex a \<and> list_all is_hex b)"

section \<open>The ids of a range\<close>

definition kr_set :: "key_range option \<Rightarrow> byte list set" where
  "kr_set kr =
     (case kr of None \<Rightarrow> UNIV
      | Some k \<Rightarrow> {x. \<not> bytes_less x (krStart k) \<and> (krEnd k = [] \<or> bytes_less x (krEnd k))})"

definition valid_kr :: "key_range option \<Rightarrow> bool" where
  "valid_kr kr = (case kr of None \<Rightarrow> True | Some k \<Rightarrow> krEnd k = [] \<or> bytes_less (krStart k) (krEnd k))"

lemma KeyRangeContains_iff: "KeyRangeContains kr x \<longleftrightarrow> x \<in> kr_set kr"
  by (auto simp: KeyRangeContains_def kr_set_def split: option.splits)

lemma kr_set_start: "valid_kr (Some k) \<Longrightarrow> krStart k \<in> kr_set (Some k)"
  by (simp add: kr_set_def valid_kr_def)

lemma max_start:
  assumes "valid_kr (Some a)" "valid_kr (Some b)" "KeyRangesIntersect (Some a) (Some b)"
  shows "(if bytes_less (krStart a) (krStart b) then krStart b else krStart a) \<in> kr_set (Some a) \<inter> kr_set (Some b)"
  using assms bytes_less_asym [of "krStart a" "krStart b"]
  by (auto simp: KeyRangesIntersect_def kr_set_def valid_kr_def)

lemma kr_set_nonempty: "valid_kr kr \<Longrightarrow> kr_set kr \<noteq> {}"
  using kr_set_start by (cases kr) (simp add: kr_set_def, blast)

lemma KeyRangesIntersect_iff:
  assumes "valid_kr a" "valid_kr b"
  shows "KeyRangesIntersect a b \<longleftrightarrow> kr_set a \<inter> kr_set b \<noteq> {}"
proof (cases "a = None \<or> b = None")
  case True
  then have "KeyRangesIntersect a b" "kr_set a = UNIV \<or> kr_set b = UNIV"
    by (auto simp: KeyRangesIntersect_def kr_set_def split: option.splits)
  then show ?thesis using kr_set_nonempty assms by auto
next
  case False
  then obtain f s where fs: "a = Some f" "b = Some s" by auto
  have "KeyRangesIntersect a b" if "x \<in> kr_set a" "x \<in> kr_set b" for x
    using that fs bytes_le_less_trans [of x "krStart s" "krEnd f"] bytes_le_less_trans [of x "krStart f" "krEnd s"]
    by (auto simp: kr_set_def KeyRangesIntersect_def)
  with max_start [of f s] assms fs show ?thesis by blast
qed

lemma KeyRangesOverlap_set:
  assumes "valid_kr a" "valid_kr b"
  shows "KeyRangesOverlap a b = Inl NoOverlap \<and> kr_set a \<inter> kr_set b = {} \<or>
    (\<exists>r. KeyRangesOverlap a b = Inr r \<and> valid_kr r \<and> kr_set r = kr_set a \<inter> kr_set b)"
proof (cases "KeyRangesIntersect a b")
  case False
  then show ?thesis using KeyRangesIntersect_iff [OF assms] by (simp add: KeyRangesOverlap_def)
next
  case True
  show ?thesis
  proof (cases "a = None \<or> b = None")
    case none: True
    then show ?thesis using True assms by (auto simp: KeyRangesOverlap_def kr_set_def split: option.splits)
  next
    case False
    then obtain f s where fs: "a = Some f" "b = Some s" by auto
    define st where "st = (if bytes_less (krStart f) (krStart s) then krStart s else krStart f)"
    define en where "en = (if krEnd f = [] \<or> krEnd s \<noteq> [] \<and> bytes_less (krEnd s) (krEnd f) then krEnd s else krEnd f)"
    have o: "KeyRangesOverlap a b = Inr (Some \<lparr>krStart = st, krEnd = en\<rparr>)"
      using True fs bytes_less_asym by (auto simp: KeyRangesOverlap_def st_def en_def bytes_compare_def)
    have "\<not> bytes_less x st \<longleftrightarrow> \<not> bytes_less x (krStart f) \<and> \<not> bytes_less x (krStart s)" for x
      using bytes_less_trans [of x "krStart f" "krStart s"] bytes_less_le_trans [of x "krStart s" "krStart f"]
      by (auto simp: st_def)
    moreover have "(en = [] \<or> bytes_less x en) \<longleftrightarrow>
        (krEnd f = [] \<or> bytes_less x (krEnd f)) \<and> (krEnd s = [] \<or> bytes_less x (krEnd s))" for x
      using bytes_less_trans [of x "krEnd s" "krEnd f"] bytes_less_le_trans [of x "krEnd f" "krEnd s"]
      by (auto simp: en_def)
    ultimately have set: "kr_set (Some \<lparr>krStart = st, krEnd = en\<rparr>) = kr_set a \<inter> kr_set b"
      using fs by (auto simp: kr_set_def)
    have "st \<in> kr_set (Some \<lparr>krStart = st, krEnd = en\<rparr>)"
      using max_start [of f s] assms fs True set unfolding st_def by blast
    then have "valid_kr (Some \<lparr>krStart = st, krEnd = en\<rparr>)" by (simp add: kr_set_def valid_kr_def)
    with o set show ?thesis by blast
  qed
qed

lemma KeyRangeIncludes_iff:
  assumes "valid_kr a" "valid_kr b"
  shows "KeyRangeIncludes a b \<longleftrightarrow> kr_set b \<subseteq> kr_set a"
proof (cases a)
  case None
  then show ?thesis by (simp add: KeyRangeIncludes_def kr_set_def)
next
  case (Some big)
  show ?thesis
  proof (cases b)
    case None
    have "krStart big = [] \<and> krEnd big = []" if "UNIV \<subseteq> kr_set (Some big)"
    proof
      have "[] \<in> kr_set (Some big)" using that by blast
      then show "krStart big = []" by (simp add: kr_set_def)
      have "krEnd big \<in> kr_set (Some big)" using that by blast
      then show "krEnd big = []" by (simp add: kr_set_def)
    qed
    then show ?thesis using Some None by (auto simp: KeyRangeIncludes_def kr_set_def)
  next
    case sm: (Some small)
    have fwd: "KeyRangeIncludes a b" if sub: "kr_set b \<subseteq> kr_set a"
    proof -
      have s: "krStart small \<in> kr_set a" using kr_set_start assms(2) sm sub by blast
      have "krEnd small \<noteq> [] \<and> \<not> bytes_less (krEnd big) (krEnd small)" if "krEnd big \<noteq> []"
      proof (rule ccontr)
        assume neg: "\<not> ?thesis"
        define x where "x = (if bytes_less (krEnd big) (krStart small) then krStart small else krEnd big)"
        have "x \<in> kr_set b" using neg assms(2) sm bytes_less_asym by (auto simp: x_def kr_set_def valid_kr_def)
        moreover have "x \<notin> kr_set a" using that Some bytes_less_asym by (auto simp: x_def kr_set_def)
        ultimately show False using sub by blast
      qed
      with s Some sm show ?thesis by (auto simp: KeyRangeIncludes_def kr_set_def bytes_compare_def)
    qed
    have "x \<in> kr_set a" if inc: "KeyRangeIncludes a b" and x: "x \<in> kr_set b" for x
    proof -
      have 1: "\<not> bytes_less (krStart small) (krStart big)" "krEnd big = [] \<or> krEnd small \<noteq> [] \<and> \<not> bytes_less (krEnd big) (krEnd small)"
        using inc Some sm bytes_less_asym [of "krEnd big" "krEnd small"]
        by (auto simp: KeyRangeIncludes_def bytes_compare_def split: if_splits)
      have "\<not> bytes_less x (krStart small)" "krEnd small = [] \<or> bytes_less x (krEnd small)"
        using x sm by (auto simp: kr_set_def)
      with 1 have "\<not> bytes_less x (krStart big)" "krEnd big = [] \<or> bytes_less x (krEnd big)"
        using bytes_less_le_trans [of x "krStart big" "krStart small"] bytes_less_le_trans [of x "krEnd small" "krEnd big"] by blast+
      then show ?thesis using Some by (simp add: kr_set_def)
    qed
    with fwd show ?thesis by blast
  qed
qed

lemma KeyRangeAdd_set:
  assumes "valid_kr (Some a)" "valid_kr (Some b)" "KeyRangeAdd (Some a) (Some b) = Some r"
  shows "valid_kr (Some r) \<and> kr_set (Some r) = kr_set (Some a) \<union> kr_set (Some b) \<and> kr_set (Some a) \<inter> kr_set (Some b) = {}"
proof -
  have glue: "valid_kr (Some r) \<and> kr_set (Some r) = kr_set (Some f) \<union> kr_set (Some s) \<and> kr_set (Some f) \<inter> kr_set (Some s) = {}"
    if "krEnd f \<noteq> []" "krEnd f = krStart s" "r = \<lparr>krStart = krStart f, krEnd = krEnd s\<rparr>" "valid_kr (Some f)" "valid_kr (Some s)"
    for f s
  proof -
    have fs: "bytes_less (krStart f) (krEnd f)" using that by (simp add: valid_kr_def)
    have v: "valid_kr (Some r)" using that fs bytes_less_trans [of "krStart f" "krStart s" "krEnd s"] by (auto simp: valid_kr_def)
    have "x \<in> kr_set (Some r) \<longleftrightarrow> x \<in> kr_set (Some f) \<or> x \<in> kr_set (Some s)" for x
      using that fs bytes_less_trans [of x "krEnd f" "krEnd s"] bytes_less_trans [of x "krStart f" "krStart s"]
      by (auto simp: kr_set_def valid_kr_def)
    moreover have "kr_set (Some f) \<inter> kr_set (Some s) = {}" using that by (auto simp: kr_set_def)
    ultimately show ?thesis using v by blast
  qed
  consider "krEnd a \<noteq> []" "krEnd a = krStart b" "r = \<lparr>krStart = krStart a, krEnd = krEnd b\<rparr>"
    | "krEnd b \<noteq> []" "krEnd b = krStart a" "r = \<lparr>krStart = krStart b, krEnd = krEnd a\<rparr>"
    using assms(3) by (auto simp: KeyRangeAdd_def split: if_splits)
  then show ?thesis
  proof cases
    case 1
    then show ?thesis using glue [of a b] assms by blast
  next
    case 2
    then show ?thesis using glue [of b a] assms by blast
  qed
qed

section \<open>Ranges that tile the key space\<close>

text \<open>Each range starts where the one before ends, and the last is unbounded.\<close>

fun tiles :: "byte list \<Rightarrow> key_range list \<Rightarrow> bool" where
  "tiles st [] = False"
| "tiles st [k] = (krStart k = st \<and> krEnd k = [])"
| "tiles st (k # ks) = (krStart k = st \<and> bytes_less st (krEnd k) \<and> tiles (krEnd k) ks)"

lemma tiles_Cons:
  "tiles st (k # ks) \<longleftrightarrow> krStart k = st \<and> (if ks = [] then krEnd k = [] else bytes_less st (krEnd k) \<and> tiles (krEnd k) ks)"
  by (cases ks) auto

lemma tiles_below: "tiles st ks \<Longrightarrow> k \<in> set ks \<Longrightarrow> x \<in> kr_set (Some k) \<Longrightarrow> \<not> bytes_less x st"
proof (induction ks arbitrary: st)
  case (Cons k' ks)
  show ?case
  proof (cases "k = k'")
    case True
    with Cons.prems show ?thesis by (auto simp: tiles_Cons kr_set_def)
  next
    case False
    then have "tiles (krEnd k') ks" "bytes_less st (krEnd k')" "k \<in> set ks"
      using Cons.prems by (auto simp: tiles_Cons split: if_splits)
    then show ?thesis using Cons.IH Cons.prems(3) bytes_less_trans [of x st "krEnd k'"] by blast
  qed
qed simp

lemma tiles_unique:
  "tiles st ks \<Longrightarrow> \<not> bytes_less x st \<Longrightarrow> \<exists>!i. i < length ks \<and> x \<in> kr_set (Some (ks ! i))"
proof (induction ks arbitrary: st)
  case (Cons k ks)
  have st: "krStart k = st" using Cons.prems by (simp add: tiles_Cons)
  show ?case
  proof (cases "ks = []")
    case True
    with Cons.prems st show ?thesis by (auto simp: kr_set_def)
  next
    case False
    then have t: "bytes_less st (krEnd k)" "tiles (krEnd k) ks" using Cons.prems by (simp_all add: tiles_Cons)
    have ne: "krEnd k \<noteq> []" using t(1) by auto
    show ?thesis
    proof (cases "bytes_less x (krEnd k)")
      case True
      then have "x \<in> kr_set (Some k)" using Cons.prems(2) st by (simp add: kr_set_def)
      moreover have "x \<notin> kr_set (Some (ks ! i))" if "i < length ks" for i
        using tiles_below [OF t(2), of "ks ! i" x] True that by auto
      ultimately show ?thesis by (intro ex1I [of _ 0]) (auto simp: nth_Cons split: nat.splits)
    next
      case False
      then obtain i where i: "i < length ks" "x \<in> kr_set (Some (ks ! i))"
          "\<And>j. j < length ks \<Longrightarrow> x \<in> kr_set (Some (ks ! j)) \<Longrightarrow> j = i"
        using Cons.IH [OF t(2) False] by blast
      have nk: "x \<notin> kr_set (Some k)" using False ne by (simp add: kr_set_def)
      show ?thesis
      proof (rule ex1I [of _ "Suc i"])
        show "Suc i < length (k # ks) \<and> x \<in> kr_set (Some ((k # ks) ! Suc i))" using i(1,2) by simp
        fix j assume "j < length (k # ks) \<and> x \<in> kr_set (Some ((k # ks) ! j))"
        then show "j = Suc i" using nk i(3) by (cases j) simp_all
      qed
    qed
  qed
qed simp

section \<open>The order of hexadecimal strings\<close>

definition lower_hex :: "char \<Rightarrow> bool" where
  "lower_hex c \<longleftrightarrow> (let n = of_char c :: nat in 48 \<le> n \<and> n \<le> 57 \<or> 97 \<le> n \<and> n \<le> 102)"

lemma char_byte_less: "char_byte c < char_byte d \<longleftrightarrow> (of_char c :: nat) < of_char d"
  by (simp add: char_byte_def word_less_nat_alt unat_of_nat)

lemma hex_val_lower:
  assumes "lower_hex c" "hex_val c = Some h"
  shows "h < 16 \<and> (of_char c :: nat) = (if h < 10 then 48 + h else 87 + h)"
  using assms by (auto simp: lower_hex_def hex_val_def Let_def split: if_splits)

lemma byte_less: "a < 256 \<Longrightarrow> b < 256 \<Longrightarrow> (of_nat a :: byte) < of_nat b \<longleftrightarrow> a < b"
  by (simp add: word_less_nat_alt unat_of_nat)

lemma str_less_Cons: "str_less (c # cs) (d # ds) \<longleftrightarrow> (of_char c :: nat) < of_char d \<or> c = d \<and> str_less cs ds"
  by (simp add: str_less_def char_byte_less char_byte_inj)

lemma hexDecode_order:
  "list_all lower_hex p \<Longrightarrow> list_all lower_hex q \<Longrightarrow> hexDecode p = Some a \<Longrightarrow> hexDecode q = Some b \<Longrightarrow>
     str_less p q \<Longrightarrow> bytes_less a b"
proof (induction p arbitrary: q a b rule: hexDecode.induct)
  case 1
  then show ?case by (cases q rule: hexDecode.cases) (auto simp: str_less_def split: option.splits)
next
  case (3 c d cs)
  obtain c' d' cs' where q: "q = c' # d' # cs'" using 3(6,5) by (cases q rule: hexDecode.cases) (auto simp: str_less_def)
  obtain h l as where p: "hex_val c = Some h" "hex_val d = Some l" "hexDecode cs = Some as" "a = of_nat (16 * h + l) # as"
    using 3(4) by (auto split: option.splits)
  obtain h' l' bs where q': "hex_val c' = Some h'" "hex_val d' = Some l'" "hexDecode cs' = Some bs" "b = of_nat (16 * h' + l') # bs"
    using 3(5) q by (auto split: option.splits)
  have b: "h < 16" "l < 16" "h' < 16" "l' < 16"
    and v: "(of_char c :: nat) = (if h < 10 then 48 + h else 87 + h)" "(of_char c' :: nat) = (if h' < 10 then 48 + h' else 87 + h')"
      "(of_char d :: nat) = (if l < 10 then 48 + l else 87 + l)" "(of_char d' :: nat) = (if l' < 10 then 48 + l' else 87 + l')"
    using hex_val_lower 3(2,3) p q q' by (auto simp: list_all_iff)
  have "(of_char c :: nat) < of_char c' \<or> c = c' \<and> ((of_char d :: nat) < of_char d' \<or> d = d' \<and> str_less cs cs')"
    using 3(6) q by (simp add: str_less_Cons)
  then consider (hi) "h < h'" | (lo) "h = h'" "l < l'" | (eq) "h = h'" "l = l'" "str_less cs cs'"
    using v p q' by (auto split: if_splits)
  then show ?case
  proof cases
    case hi
    then have "16 * h + l < 16 * h' + l'" using b by linarith
    with p q' b show ?thesis by (simp add: byte_less del: of_nat_add of_nat_mult)
  next
    case lo
    with p q' b show ?thesis by (simp add: byte_less del: of_nat_add of_nat_mult)
  next
    case eq
    have "bytes_less as bs" using 3(2,3) q eq(3) by (intro 3(1) [OF p(1,2) _ _ p(3) q'(3)]) simp_all
    with eq p(4) q'(4) show ?thesis by simp
  qed
qed auto

lemma spec_loop_tiles:
  "spec_loop spec old ps = Inr rs \<Longrightarrow> list_all (list_all lower_hex) (old # ps) \<Longrightarrow> hexDecode old = Some st \<Longrightarrow>
     ps \<noteq> [] \<Longrightarrow> last ps = [] \<Longrightarrow> tiles st rs"
proof (induction ps arbitrary: old st rs)
  case (Cons p ps)
  obtain e rs' where e: "hexDecode p = Some e" "spec_loop spec p ps = Inr rs'" "rs = \<lparr>krStart = st, krEnd = e\<rparr> # rs'"
    using Cons.prems(1,3) by (auto split: if_splits option.splits sum.splits)
  show ?case
  proof (cases "ps = []")
    case True
    with e Cons.prems show ?thesis by auto
  next
    case False
    then have "p \<noteq> []" "str_less old p" using Cons.prems(1) by (auto split: if_splits)
    then have "bytes_less st e" using hexDecode_order [of old p st e] Cons.prems(2,3) e(1) by simp
    moreover have "tiles e rs'" using Cons.IH [OF e(2) _ e(1)] False Cons.prems by simp
    moreover have "rs' \<noteq> []" using \<open>tiles e rs'\<close> by auto
    ultimately show ?thesis using e(3) by (simp add: tiles_Cons)
  qed
qed simp

lemma hexEncode_lower: "list_all lower_hex (hexEncode bs)"
  by (auto simp: list_all_iff lower_hex_def Let_def dest!: hexEncode_chars)

lemma hexEncode_no_dash: "CHR ''-'' \<notin> set (hexEncode bs)"
  by (auto dest!: hexEncode_chars)

lemma IsKeyRange_String: "IsKeyRange (KeyRangeString kr)"
proof (cases kr)
  case None
  then show ?thesis by (simp add: KeyRangeString_def IsKeyRange_def)
next
  case (Some k)
  have "list_all is_hex (hexEncode bs)" for bs
    using hexEncode_lower [of bs] by (auto simp: list_all_iff lower_hex_def is_hex_def Let_def)
  with Some show ?thesis by (simp add: KeyRangeString_def IsKeyRange_def cut_append hexEncode_no_dash)
qed

section \<open>Properties\<close>

text \<open>
  Two valid key ranges intersect, as \<open>KeyRangesIntersect\<close> decides, exactly when some keyspace
  id is in both; \<open>KeyRangesOverlap\<close> then returns the range of exactly the common ids and an error
  otherwise.
\<close>

theorem overlap_is_intersection:
  assumes "valid_kr a" "valid_kr b"
  shows "(KeyRangesIntersect a b \<longleftrightarrow> kr_set a \<inter> kr_set b \<noteq> {}) \<and>
    (KeyRangesOverlap a b = Inl NoOverlap \<and> kr_set a \<inter> kr_set b = {} \<or>
     (\<exists>r. KeyRangesOverlap a b = Inr r \<and> valid_kr r \<and> kr_set r = kr_set a \<inter> kr_set b))"
  using KeyRangesIntersect_iff [OF assms] KeyRangesOverlap_set [OF assms] by blast

theorem overlap_is_intersection_witness:
  "valid_kr (Some \<lparr>krStart = [0x40], krEnd = [0xc0]\<rparr>) \<and> valid_kr (Some \<lparr>krStart = [0x80], krEnd = []\<rparr>) \<and>
   KeyRangesOverlap (Some \<lparr>krStart = [0x40], krEnd = [0xc0]\<rparr>) (Some \<lparr>krStart = [0x80], krEnd = []\<rparr>) =
     Inr (Some \<lparr>krStart = [0x80], krEnd = [0xc0]\<rparr>) \<and>
   kr_set (Some \<lparr>krStart = [0x80], krEnd = [0xc0]\<rparr>) =
     kr_set (Some \<lparr>krStart = [0x40], krEnd = [0xc0]\<rparr>) \<inter> kr_set (Some \<lparr>krStart = [0x80], krEnd = []\<rparr>)"
proof -
  have v: "valid_kr (Some \<lparr>krStart = [0x40], krEnd = [0xc0]\<rparr>)" "valid_kr (Some \<lparr>krStart = [0x80], krEnd = []\<rparr>)"
    by (simp_all add: valid_kr_def)
  have o: "KeyRangesOverlap (Some \<lparr>krStart = [0x40], krEnd = [0xc0]\<rparr>) (Some \<lparr>krStart = [0x80], krEnd = []\<rparr>) =
      Inr (Some \<lparr>krStart = [0x80], krEnd = [0xc0]\<rparr>)" by code_simp
  from overlap_is_intersection [OF v] v o show ?thesis by auto
qed

text \<open>
  \<open>KeyRangeIncludes\<close> decides inclusion of the sets of ids, and \<open>KeyRangeAdd\<close> of adjacent ranges
  returns the range of exactly the ids of both, which are disjoint.
\<close>

theorem includes_and_add:
  assumes "valid_kr (Some a)" "valid_kr (Some b)"
  shows "(KeyRangeIncludes (Some a) (Some b) \<longleftrightarrow> kr_set (Some b) \<subseteq> kr_set (Some a)) \<and>
    (\<forall>r. KeyRangeAdd (Some a) (Some b) = Some r \<longrightarrow>
      kr_set (Some r) = kr_set (Some a) \<union> kr_set (Some b) \<and> kr_set (Some a) \<inter> kr_set (Some b) = {})"
  using KeyRangeIncludes_iff [OF assms] KeyRangeAdd_set [OF assms] by blast

theorem includes_and_add_witness:
  "KeyRangeAdd (Some \<lparr>krStart = [0x80], krEnd = []\<rparr>) (Some \<lparr>krStart = [0x40], krEnd = [0x80]\<rparr>) =
     Some \<lparr>krStart = [0x40], krEnd = []\<rparr> \<and>
   kr_set (Some \<lparr>krStart = [0x40], krEnd = []\<rparr>) =
     kr_set (Some \<lparr>krStart = [0x80], krEnd = []\<rparr>) \<union> kr_set (Some \<lparr>krStart = [0x40], krEnd = [0x80]\<rparr>)"
proof -
  have v: "valid_kr (Some \<lparr>krStart = [0x80], krEnd = []\<rparr>)" "valid_kr (Some \<lparr>krStart = [0x40], krEnd = [0x80]\<rparr>)"
    by (simp_all add: valid_kr_def)
  have a: "KeyRangeAdd (Some \<lparr>krStart = [0x80], krEnd = []\<rparr>) (Some \<lparr>krStart = [0x40], krEnd = [0x80]\<rparr>) =
      Some \<lparr>krStart = [0x40], krEnd = []\<rparr>" by code_simp
  from includes_and_add [OF v] a show ?thesis by blast
qed

text \<open>
  C24. A sharding specification in lower-case hexadecimal that parses, and that starts and ends
  unbounded, partitions the key space: every keyspace id is in exactly one of its ranges.
\<close>

theorem sharding_spec_partitions:
  assumes "ParseShardingSpec spec = Inr rs" "list_all (list_all lower_hex) (split CHR ''-'' spec)"
    and "2 \<le> length (split CHR ''-'' spec)" "hd (split CHR ''-'' spec) = []" "last (split CHR ''-'' spec) = []"
  shows "\<exists>!i. i < length rs \<and> KeyRangeContains (Some (rs ! i)) x"
proof -
  obtain p ps where ps: "split CHR ''-'' spec = p # ps" "ps \<noteq> []"
    using assms(3) by (cases "split CHR ''-'' spec"; cases "tl (split CHR ''-'' spec)") auto
  then have "tiles [] rs"
    using assms by (intro spec_loop_tiles [of spec p ps]) (auto simp: ParseShardingSpec_def Let_def)
  then show ?thesis using tiles_unique [of "[]" rs x] by (simp add: KeyRangeContains_iff)
qed

theorem sharding_spec_partitions_witness:
  "ParseShardingSpec ''-40-80-'' = Inr [\<lparr>krStart = [], krEnd = [0x40]\<rparr>, \<lparr>krStart = [0x40], krEnd = [0x80]\<rparr>, \<lparr>krStart = [0x80], krEnd = []\<rparr>] \<and>
   (\<exists>!i. i < 3 \<and> KeyRangeContains (Some ([\<lparr>krStart = [], krEnd = [0x40]\<rparr>, \<lparr>krStart = [0x40], krEnd = [0x80]\<rparr>, \<lparr>krStart = [0x80], krEnd = []\<rparr>] ! i)) [0x41, 7])"
proof -
  have p: "ParseShardingSpec ''-40-80-'' = Inr [\<lparr>krStart = [], krEnd = [0x40]\<rparr>, \<lparr>krStart = [0x40], krEnd = [0x80]\<rparr>, \<lparr>krStart = [0x80], krEnd = []\<rparr>]"
    by code_simp
  have h: "list_all (list_all lower_hex) (split CHR ''-'' ''-40-80-'')" "2 \<le> length (split CHR ''-'' ''-40-80-'')"
    "hd (split CHR ''-'' ''-40-80-'') = []" "last (split CHR ''-'' ''-40-80-'') = []" by code_simp+
  from sharding_spec_partitions [OF p h, of "[0x41, 7]"] p show ?thesis by (simp add: numeral_3_eq_3)
qed

section \<open>Where the operations fall short\<close>

text \<open>
  Padding makes an unbounded end equal to a start of zero: the last shard counts as contiguous to
  the first, in this order.
\<close>

lemma Contiguous_wraps_around:
  "KeyRangeContiguous (Some \<lparr>krStart = [0x80], krEnd = []\<rparr>) (Some \<lparr>krStart = [], krEnd = [0x80]\<rparr>)"
  by code_simp

text \<open>Limits are compared as text: in upper case the bytes may be in order and the spec refused.\<close>

lemma spec_case_sensitive:
  "ParseShardingSpec ''-a0-B0-'' = Inl (LimitsNotInOrder ''-a0-B0-'') \<and>
   ParseShardingSpec ''-a0-b0-'' = Inr [\<lparr>krStart = [], krEnd = [0xa0]\<rparr>, \<lparr>krStart = [0xa0], krEnd = [0xb0]\<rparr>, \<lparr>krStart = [0xb0], krEnd = []\<rparr>]"
  by code_simp

end
