(* ===== verification/Destination.thy ===== *)
theory Destination
  imports KeyRange
begin

text \<open>
  Query destinations and the shards they resolve to (\<open>go/vt/key/destination.go\<close>). The callback
  \<open>addShard\<close> is a function on the caller's state that may fail; the state it leaves behind is
  kept also when it fails. \<open>sort.SliceStable\<close> is the stable insertion sort of the prelude. The
  random choice of \<open>DestinationAnyShard\<close> is the parameter \<open>pick\<close>.
\<close>

record shard_ref =
  sName :: string
  sRange :: "key_range option"

datatype destination =
    DestinationShard string
  | DestinationShards "string list"
  | DestinationExactKeyRange "key_range option"
  | DestinationExactKeyRanges "key_range option list"
  | DestinationKeyRange "key_range option"
  | DestinationKeyRanges "key_range option list"
  | DestinationKeyspaceID "byte list"
  | DestinationKeyspaceIDs "byte list list"
  | DestinationAnyShard
  | DestinationAllShards
  | DestinationNone

type_synonym 's adder = "string \<Rightarrow> 's \<Rightarrow> 's \<times> key_error option"

section \<open>Resolution\<close>

text \<open>A loop that calls \<open>f\<close> on each element and stops at the first error.\<close>

fun each :: "('a \<Rightarrow> 's \<Rightarrow> 's \<times> key_error option) \<Rightarrow> 'a list \<Rightarrow> 's \<Rightarrow> 's \<times> key_error option" where
  "each f [] st = (st, None)"
| "each f (x # xs) st = (case f x st of (st', Some e) \<Rightarrow> (st', Some e) | (st', None) \<Rightarrow> each f xs st')"

fun exact_skip :: "key_range option \<Rightarrow> shard_ref list \<Rightarrow> shard_ref list" where
  "exact_skip kr [] = []"
| "exact_skip kr (s # ss) = (if KeyRangeStartEqual kr (sRange s) then s # ss else exact_skip kr ss)"

fun exact_add :: "key_range option \<Rightarrow> 's adder \<Rightarrow> shard_ref list \<Rightarrow> 's \<Rightarrow> 's \<times> key_error option" where
  "exact_add kr addShard [] st = (st, Some (NotExactShards (KeyRangeString kr)))"
| "exact_add kr addShard (s # ss) st =
     (if \<not> KeyRangesIntersect kr (sRange s) then (st, Some (NotExactShards (KeyRangeString kr)))
      else (case addShard (sName s) st of
        (st', Some e) \<Rightarrow> (st', Some e)
      | (st', None) \<Rightarrow>
          if KeyRangeEndEqual kr (sRange s) then (st', None) else exact_add kr addShard ss st'))"

definition sort_shards :: "shard_ref list \<Rightarrow> shard_ref list" where
  "sort_shards allShards = insertion_sort (\<lambda>a b. KeyRangeStartSmaller (sRange a) (sRange b)) allShards"

definition processExactKeyRange :: "shard_ref list \<Rightarrow> key_range option \<Rightarrow> 's adder \<Rightarrow> 's \<Rightarrow> 's \<times> key_error option" where
  "processExactKeyRange allShards kr addShard st = exact_add kr addShard (exact_skip kr (sort_shards allShards)) st"

definition processKeyRange :: "shard_ref list \<Rightarrow> key_range option \<Rightarrow> 's adder \<Rightarrow> 's \<Rightarrow> 's \<times> key_error option" where
  "processKeyRange allShards kr addShard st =
     each (\<lambda>shard st. if \<not> KeyRangesIntersect kr (sRange shard) then (st, None) else addShard (sName shard) st) allShards st"

fun find_shard :: "shard_ref list \<Rightarrow> byte list \<Rightarrow> string option" where
  "find_shard [] k = None"
| "find_shard (s # ss) k = (if KeyRangeContains (sRange s) k then Some (sName s) else find_shard ss k)"

definition GetShardForKeyspaceID :: "shard_ref list \<Rightarrow> byte list \<Rightarrow> key_error + string" where
  "GetShardForKeyspaceID allShards keyspaceID =
     (if length allShards = 0 then Inl NoShardInKeyspace
      else (case find_shard allShards keyspaceID of
        None \<Rightarrow> Inl (NoShardMatches (hexEncode keyspaceID)) | Some name \<Rightarrow> Inr name))"

definition DestinationShard_Resolve :: "string \<Rightarrow> 's adder \<Rightarrow> 's \<Rightarrow> 's \<times> key_error option" where
  "DestinationShard_Resolve d addShard st = addShard d st"

definition DestinationShards_Resolve :: "string list \<Rightarrow> 's adder \<Rightarrow> 's \<Rightarrow> 's \<times> key_error option" where
  "DestinationShards_Resolve d addShard st = each addShard d st"

definition DestinationExactKeyRange_Resolve ::
  "key_range option \<Rightarrow> shard_ref list \<Rightarrow> 's adder \<Rightarrow> 's \<Rightarrow> 's \<times> key_error option" where
  "DestinationExactKeyRange_Resolve kr allShards addShard st = processExactKeyRange allShards kr addShard st"

definition DestinationExactKeyRanges_Resolve ::
  "key_range option list \<Rightarrow> shard_ref list \<Rightarrow> 's adder \<Rightarrow> 's \<Rightarrow> 's \<times> key_error option" where
  "DestinationExactKeyRanges_Resolve d allShards addShard st = each (\<lambda>kr. processExactKeyRange allShards kr addShard) d st"

definition DestinationKeyRange_Resolve ::
  "key_range option \<Rightarrow> shard_ref list \<Rightarrow> 's adder \<Rightarrow> 's \<Rightarrow> 's \<times> key_error option" where
  "DestinationKeyRange_Resolve kr allShards addShard st = processKeyRange allShards kr addShard st"

definition DestinationKeyRanges_Resolve ::
  "key_range option list \<Rightarrow> shard_ref list \<Rightarrow> 's adder \<Rightarrow> 's \<Rightarrow> 's \<times> key_error option" where
  "DestinationKeyRanges_Resolve d allShards addShard st = each (\<lambda>kr. processKeyRange allShards kr addShard) d st"

definition DestinationKeyspaceID_Resolve :: "byte list \<Rightarrow> shard_ref list \<Rightarrow> 's adder \<Rightarrow> 's \<Rightarrow> 's \<times> key_error option" where
  "DestinationKeyspaceID_Resolve d allShards addShard st =
     (case GetShardForKeyspaceID allShards d of Inl e \<Rightarrow> (st, Some e) | Inr shard \<Rightarrow> addShard shard st)"

definition DestinationKeyspaceIDs_Resolve ::
  "byte list list \<Rightarrow> shard_ref list \<Rightarrow> 's adder \<Rightarrow> 's \<Rightarrow> 's \<times> key_error option" where
  "DestinationKeyspaceIDs_Resolve d allShards addShard st =
     each (\<lambda>ksid st. case GetShardForKeyspaceID allShards ksid of Inl e \<Rightarrow> (st, Some e) | Inr shard \<Rightarrow> addShard shard st) d st"

definition DestinationAnyShard_Resolve ::
  "(nat \<Rightarrow> nat) \<Rightarrow> shard_ref list \<Rightarrow> 's adder \<Rightarrow> 's \<Rightarrow> 's \<times> key_error option" where
  "DestinationAnyShard_Resolve pick allShards addShard st =
     (if length allShards = 0 then (st, Some NoShardInKeyspace)
      else addShard (sName (allShards ! pick (length allShards))) st)"

definition DestinationAllShards_Resolve :: "shard_ref list \<Rightarrow> 's adder \<Rightarrow> 's \<Rightarrow> 's \<times> key_error option" where
  "DestinationAllShards_Resolve allShards addShard st = each (\<lambda>shard. addShard (sName shard)) allShards st"

definition DestinationNone_Resolve :: "'s \<Rightarrow> 's \<times> key_error option" where
  "DestinationNone_Resolve st = (st, None)"

definition Resolve :: "(nat \<Rightarrow> nat) \<Rightarrow> destination \<Rightarrow> shard_ref list \<Rightarrow> 's adder \<Rightarrow> 's \<Rightarrow> 's \<times> key_error option" where
  "Resolve pick d allShards addShard st =
     (case d of
        DestinationShard s \<Rightarrow> DestinationShard_Resolve s addShard st
      | DestinationShards ss \<Rightarrow> DestinationShards_Resolve ss addShard st
      | DestinationExactKeyRange kr \<Rightarrow> DestinationExactKeyRange_Resolve kr allShards addShard st
      | DestinationExactKeyRanges krs \<Rightarrow> DestinationExactKeyRanges_Resolve krs allShards addShard st
      | DestinationKeyRange kr \<Rightarrow> DestinationKeyRange_Resolve kr allShards addShard st
      | DestinationKeyRanges krs \<Rightarrow> DestinationKeyRanges_Resolve krs allShards addShard st
      | DestinationKeyspaceID ksid \<Rightarrow> DestinationKeyspaceID_Resolve ksid allShards addShard st
      | DestinationKeyspaceIDs ksids \<Rightarrow> DestinationKeyspaceIDs_Resolve ksids allShards addShard st
      | DestinationAnyShard \<Rightarrow> DestinationAnyShard_Resolve pick allShards addShard st
      | DestinationAllShards \<Rightarrow> DestinationAllShards_Resolve allShards addShard st
      | DestinationNone \<Rightarrow> DestinationNone_Resolve st)"

section \<open>Printing\<close>

definition DestinationShard_String :: "string \<Rightarrow> string" where
  "DestinationShard_String d = ''DestinationShard('' @ d @ '')''"

definition DestinationShards_String :: "string list \<Rightarrow> string" where
  "DestinationShards_String d = ''DestinationShards('' @ join CHR '','' d @ '')''"

definition DestinationExactKeyRange_String :: "key_range option \<Rightarrow> string" where
  "DestinationExactKeyRange_String d = ''DestinationExactKeyRange('' @ KeyRangeString d @ '')''"

definition DestinationExactKeyRanges_String :: "key_range option list \<Rightarrow> string" where
  "DestinationExactKeyRanges_String d = ''DestinationExactKeyRanges('' @ join CHR '','' (map KeyRangeString d) @ '')''"

definition DestinationKeyRange_String :: "key_range option \<Rightarrow> string" where
  "DestinationKeyRange_String d = ''DestinationKeyRange('' @ KeyRangeString d @ '')''"

definition DestinationKeyRanges_String :: "key_range option list \<Rightarrow> string" where
  "DestinationKeyRanges_String d = ''DestinationKeyRanges('' @ join CHR '','' (map KeyRangeString d) @ '')''"

definition DestinationKeyspaceID_String :: "byte list \<Rightarrow> string" where
  "DestinationKeyspaceID_String d = ''DestinationKeyspaceID('' @ hexEncode d @ '')''"

definition DestinationKeyspaceIDs_String :: "byte list list \<Rightarrow> string" where
  "DestinationKeyspaceIDs_String d = ''DestinationKeyspaceIDs('' @ join CHR '','' (map hexEncode d) @ '')''"

definition DestinationAnyShard_String :: string where
  "DestinationAnyShard_String = ''DestinationAnyShard()''"

definition DestinationAllShards_String :: string where
  "DestinationAllShards_String = ''DestinationAllShards()''"

definition DestinationNone_String :: string where
  "DestinationNone_String = ''DestinationNone()''"

definition dest_String :: "destination \<Rightarrow> string" where
  "dest_String dest =
     (case dest of
        DestinationShard d \<Rightarrow> DestinationShard_String d
      | DestinationShards d \<Rightarrow> DestinationShards_String d
      | DestinationExactKeyRange d \<Rightarrow> DestinationExactKeyRange_String d
      | DestinationExactKeyRanges d \<Rightarrow> DestinationExactKeyRanges_String d
      | DestinationKeyRange d \<Rightarrow> DestinationKeyRange_String d
      | DestinationKeyRanges d \<Rightarrow> DestinationKeyRanges_String d
      | DestinationKeyspaceID d \<Rightarrow> DestinationKeyspaceID_String d
      | DestinationKeyspaceIDs d \<Rightarrow> DestinationKeyspaceIDs_String d
      | DestinationAnyShard \<Rightarrow> DestinationAnyShard_String
      | DestinationAllShards \<Rightarrow> DestinationAllShards_String
      | DestinationNone \<Rightarrow> DestinationNone_String)"

definition DestinationsString :: "destination list \<Rightarrow> string" where
  "DestinationsString ds = ''Destinations:'' @ join CHR '','' (map dest_String ds)"

section \<open>What a destination resolves to\<close>

text \<open>The callback that collects the names of the shards.\<close>

definition collect :: "string list adder" where
  "collect name l = (l @ [name], None)"

lemma collect_app [simp]: "collect name l = (l @ [name], None)"
  by (simp add: collect_def)

lemma each_collect: "each (\<lambda>x st. if P x then (st, None) else collect (f x) st) xs l = (l @ map f (filter (\<lambda>x. \<not> P x) xs), None)"
  by (induction xs arbitrary: l) auto

text \<open>Keys in the form the padding does not identify with others.\<close>

definition canon :: "byte list \<Rightarrow> bool" where
  "canon k \<longleftrightarrow> length k \<le> 8 \<and> (k \<noteq> [] \<longrightarrow> last k \<noteq> 0)"

lemma dropWhile_replicate: "dropWhile (\<lambda>b. b = x) (replicate n x @ ys) = dropWhile (\<lambda>b. b = x) ys"
  by (induction n) auto

lemma addPadding_inj: "canon a \<Longrightarrow> canon b \<Longrightarrow> addPadding a = addPadding b \<longleftrightarrow> a = b"
proof
  assume c: "canon a" "canon b" and eq: "addPadding a = addPadding b"
  have strip: "rev (dropWhile (\<lambda>x. x = 0) (rev (k @ replicate n 0))) = k" if "canon k" for k and n
  proof (cases "k = []")
    case True
    then show ?thesis by simp
  next
    case False
    then obtain ys y where "k = ys @ [y]" by (cases k rule: rev_cases) auto
    then have "dropWhile (\<lambda>x. x = 0) (rev k) = rev k" using that False by (simp add: canon_def)
    then show ?thesis by (simp add: dropWhile_replicate)
  qed
  have "a @ replicate (8 - length a) 0 = b @ replicate (8 - length b) 0" using eq by (simp add: addPadding_def)
  then show "a = b" using strip [OF c(1)] strip [OF c(2)] by metis
qed simp

text \<open>A shard list whose ranges are bounded as in \<open>rs\<close>.\<close>

definition ranged :: "shard_ref list \<Rightarrow> key_range list \<Rightarrow> bool" where
  "ranged ss rs \<longleftrightarrow> map sRange ss = map Some rs \<and> list_all (\<lambda>r. canon (krStart r) \<and> canon (krEnd r)) rs"

lemma ranged_Cons: "ranged (s # ss) rs \<Longrightarrow> \<exists>r rs'. rs = r # rs' \<and> sRange s = Some r \<and> canon (krStart r) \<and> canon (krEnd r) \<and> ranged ss rs'"
  by (cases rs) (auto simp: ranged_def)

lemma kr_set_join:
  assumes "bytes_less st e" "en = [] \<or> bytes_less e en"
  shows "kr_set (Some \<lparr>krStart = st, krEnd = e\<rparr>) \<union> kr_set (Some \<lparr>krStart = e, krEnd = en\<rparr>) = kr_set (Some \<lparr>krStart = st, krEnd = en\<rparr>)"
proof -
  have "x \<in> kr_set (Some \<lparr>krStart = st, krEnd = e\<rparr>) \<union> kr_set (Some \<lparr>krStart = e, krEnd = en\<rparr>) \<longleftrightarrow>
      x \<in> kr_set (Some \<lparr>krStart = st, krEnd = en\<rparr>)" for x
    using assms bytes_less_trans [of x e en] bytes_less_trans [of x st e] by (auto simp: kr_set_def)
  then show ?thesis by blast
qed

lemma exact_add_covers:
  assumes "exact_add (Some k) collect ss l = (l', None)" "ranged ss rs" "tiles st rs" "canon (krEnd k)"
    and "\<not> bytes_less st (krStart k)"
  shows "\<exists>n. l' = l @ map sName (take n ss) \<and>
    (\<Union>s\<in>set (take n ss). kr_set (sRange s)) = kr_set (Some \<lparr>krStart = st, krEnd = krEnd k\<rparr>) \<and>
    (krEnd k = [] \<or> bytes_less st (krEnd k))"
  using assms
proof (induction ss arbitrary: l rs st)
  case (Cons s ss)
  obtain r rs' where r: "rs = r # rs'" "sRange s = Some r" "canon (krStart r)" "canon (krEnd r)" "ranged ss rs'"
    using ranged_Cons [OF Cons.prems(2)] by blast
  have st: "krStart r = st" using Cons.prems(3) r(1) by (simp add: tiles_Cons)
  have int: "KeyRangesIntersect (Some k) (Some r)" using Cons.prems(1) r(2) by (auto split: if_splits)
  then have bound: "krEnd k = [] \<or> bytes_less st (krEnd k)" using st by (simp add: KeyRangesIntersect_def)
  have eqend: "KeyRangeEndEqual (Some k) (Some r) \<longleftrightarrow> krEnd k = krEnd r"
    using addPadding_inj [OF Cons.prems(4) r(4)] by (simp add: KeyRangeEndEqual_def)
  have rr: "Some r = Some \<lparr>krStart = st, krEnd = krEnd r\<rparr>" using st by simp
  show ?case
  proof (cases "krEnd k = krEnd r")
    case True
    then have "l' = l @ [sName s]" using Cons.prems(1) int eqend r(2) by simp
    with True rr r(2) bound show ?thesis by (intro exI [of _ 1]) auto
  next
    case False
    then have rec: "exact_add (Some k) collect ss (l @ [sName s]) = (l', None)"
      using Cons.prems(1) int eqend r(2) by (simp add: collect_def [abs_def])
    then have "ss \<noteq> []" by auto
    then have "rs' \<noteq> []" using r(5) by (auto simp: ranged_def)
    then have t: "bytes_less st (krEnd r)" "tiles (krEnd r) rs'" using Cons.prems(3) r(1) by (simp_all add: tiles_Cons)
    have "\<not> bytes_less (krEnd r) (krStart k)" using t(1) Cons.prems(5) bytes_less_trans by blast
    then obtain n where n: "l' = (l @ [sName s]) @ map sName (take n ss)"
        "(\<Union>s\<in>set (take n ss). kr_set (sRange s)) = kr_set (Some \<lparr>krStart = krEnd r, krEnd = krEnd k\<rparr>)"
        "krEnd k = [] \<or> bytes_less (krEnd r) (krEnd k)"
      using Cons.IH [OF rec r(5) t(2) Cons.prems(4)] by blast
    have "(\<Union>s\<in>set (take (Suc n) (s # ss)). kr_set (sRange s)) = kr_set (Some \<lparr>krStart = st, krEnd = krEnd k\<rparr>)"
      using n(2) r(2) rr kr_set_join [OF t(1) n(3)] by simp
    with n(1) bound show ?thesis by (intro exI [of _ "Suc n"]) simp
  qed
qed simp

lemma kr_eta: "\<lparr>krStart = krStart k, krEnd = krEnd k\<rparr> = k"
  by simp

lemma exact_skip_tiles:
  "ranged ss rs \<Longrightarrow> tiles st0 rs \<Longrightarrow> canon (krStart k) \<Longrightarrow> exact_skip (Some k) ss \<noteq> [] \<Longrightarrow>
     \<exists>m rs'. exact_skip (Some k) ss = drop m ss \<and> ranged (drop m ss) rs' \<and> tiles (krStart k) rs'"
proof (induction ss arbitrary: rs st0)
  case (Cons s ss)
  obtain r rs' where r: "rs = r # rs'" "sRange s = Some r" "canon (krStart r)" "canon (krEnd r)" "ranged ss rs'"
    using ranged_Cons [OF Cons.prems(1)] by blast
  have eqst: "KeyRangeStartEqual (Some k) (Some r) \<longleftrightarrow> krStart k = krStart r"
    using addPadding_inj [OF Cons.prems(3) r(3)] by (simp add: KeyRangeStartEqual_def)
  show ?case
  proof (cases "krStart k = krStart r")
    case True
    have "exact_skip (Some k) (s # ss) = drop 0 (s # ss)" using True eqst r(2) by simp
    moreover have "tiles (krStart k) rs" using True Cons.prems(2) r(1) by (simp add: tiles_Cons)
    ultimately show ?thesis using Cons.prems(1) by (metis drop0)
  next
    case False
    then have e: "exact_skip (Some k) (s # ss) = exact_skip (Some k) ss" using eqst r(2) by simp
    then have "ss \<noteq> []" using Cons.prems(4) by auto
    then have "rs' \<noteq> []" using r(5) by (auto simp: ranged_def)
    then have t: "tiles (krEnd r) rs'" using Cons.prems(2) r(1) by (simp add: tiles_Cons)
    have "exact_skip (Some k) ss \<noteq> []" using Cons.prems(4) unfolding e .
    then obtain m rs'' where "exact_skip (Some k) ss = drop m ss" "ranged (drop m ss) rs''" "tiles (krStart k) rs''"
      using Cons.IH [OF r(5) t Cons.prems(3)] by blast
    with e show ?thesis by (intro exI [of _ "Suc m"] exI [of _ rs'']) simp
  qed
qed simp

section \<open>Properties\<close>



text \<open>
  A key range destination resolves to exactly the shards that share an id with the range, in
  the order of the shard list and without an error.
\<close>

theorem range_resolves_to_intersecting:
  assumes "valid_kr kr" "list_all (\<lambda>s. valid_kr (sRange s)) shards"
  shows "Resolve pick (DestinationKeyRange kr) shards collect [] =
    (map sName (filter (\<lambda>s. kr_set kr \<inter> kr_set (sRange s) \<noteq> {}) shards), None)"
proof -
  have "filter (\<lambda>s. KeyRangesIntersect kr (sRange s)) shards = filter (\<lambda>s. kr_set kr \<inter> kr_set (sRange s) \<noteq> {}) shards"
    using assms by (intro filter_cong) (auto simp: list_all_iff KeyRangesIntersect_iff)
  then show ?thesis
    using each_collect [of "\<lambda>s. \<not> KeyRangesIntersect kr (sRange s)" sName shards "[]"]
    by (simp add: Resolve_def DestinationKeyRange_Resolve_def processKeyRange_def)
qed

theorem range_resolves_to_intersecting_witness:
  "valid_kr (Some \<lparr>krStart = [0x20], krEnd = [0x40]\<rparr>) \<and>
   Resolve id (DestinationKeyRange (Some \<lparr>krStart = [0x20], krEnd = [0x40]\<rparr>))
     [\<lparr>sName = ''-40'', sRange = Some \<lparr>krStart = [], krEnd = [0x40]\<rparr>\<rparr>, \<lparr>sName = ''40-'', sRange = Some \<lparr>krStart = [0x40], krEnd = []\<rparr>\<rparr>] collect [] =
     ([''-40''], None) \<and>
   map sName (filter (\<lambda>s. kr_set (Some \<lparr>krStart = [0x20], krEnd = [0x40]\<rparr>) \<inter> kr_set (sRange s) \<noteq> {})
     [\<lparr>sName = ''-40'', sRange = Some \<lparr>krStart = [], krEnd = [0x40]\<rparr>\<rparr>, \<lparr>sName = ''40-'', sRange = Some \<lparr>krStart = [0x40], krEnd = []\<rparr>\<rparr>]) = [''-40'']"
proof -
  let ?kr = "Some \<lparr>krStart = [0x20], krEnd = [0x40]\<rparr>"
  let ?ss = "[\<lparr>sName = ''-40'', sRange = Some \<lparr>krStart = [], krEnd = [0x40]\<rparr>\<rparr>, \<lparr>sName = ''40-'', sRange = Some \<lparr>krStart = [0x40], krEnd = []\<rparr>\<rparr>]"
  have v: "valid_kr ?kr" "list_all (\<lambda>s. valid_kr (sRange s)) ?ss" by code_simp+
  have r: "Resolve id (DestinationKeyRange ?kr) ?ss collect [] = ([''-40''], None)" by code_simp
  from trans [OF range_resolves_to_intersecting [OF v, of id, symmetric] r]
  have "map sName (filter (\<lambda>s. kr_set ?kr \<inter> kr_set (sRange s) \<noteq> {}) ?ss) = [''-40'']"
    unfolding prod.inject by (rule conjunct1)
  with v(1) r show ?thesis by (intro conjI)
qed

text \<open>
  C26. If the shards tile the key space, every keyspace id is routed, without an error, to a shard
  that contains it, and no other shard of the list does.
\<close>

theorem keyspace_id_routed_uniquely:
  assumes "map sRange shards = map Some rs" "tiles [] rs"
  shows "\<exists>i<length shards. GetShardForKeyspaceID shards x = Inr (sName (shards ! i)) \<and>
    KeyRangeContains (sRange (shards ! i)) x \<and>
    (\<forall>j<length shards. KeyRangeContains (sRange (shards ! j)) x \<longrightarrow> j = i)"
proof -
  have len: "length shards = length rs" using assms(1) by (metis length_map)
  have nth: "sRange (shards ! i) = Some (rs ! i)" if "i < length shards" for i
    using assms(1) that len by (metis nth_map)
  have "\<exists>!i. i < length rs \<and> x \<in> kr_set (Some (rs ! i))" using assms(2) by (intro tiles_unique [of "[]"]) simp_all
  then obtain i where i: "i < length rs" "x \<in> kr_set (Some (rs ! i))"
    and uniq: "\<And>j. j < length rs \<Longrightarrow> x \<in> kr_set (Some (rs ! j)) \<Longrightarrow> j = i" by blast
  have find: "find_shard ss x = Some (sName (ss ! n))"
    if "n < length ss" "KeyRangeContains (sRange (ss ! n)) x" "\<And>j. j < n \<Longrightarrow> \<not> KeyRangeContains (sRange (ss ! j)) x" for ss n
    using that
  proof (induction ss arbitrary: n)
    case (Cons s ss)
    show ?case
    proof (cases n)
      case 0
      with Cons.prems show ?thesis by simp
    next
      case (Suc n')
      have "\<not> KeyRangeContains (sRange s) x" using Cons.prems(3) [of 0] Suc by simp
      moreover have "find_shard ss x = Some (sName (ss ! n'))"
        using Cons.prems(1,2) Cons.prems(3) [of "Suc _"] Suc by (intro Cons.IH) auto
      ultimately show ?thesis using Suc by simp
    qed
  qed simp
  have c: "KeyRangeContains (sRange (shards ! j)) x \<longleftrightarrow> x \<in> kr_set (Some (rs ! j))" if "j < length shards" for j
    by (simp add: KeyRangeContains_iff nth [OF that])
  have il: "i < length shards" using i(1) len by simp
  have "find_shard shards x = Some (sName (shards ! i))"
  proof (rule find [OF il])
    show "KeyRangeContains (sRange (shards ! i)) x" using c [OF il] i(2) by simp
    show "\<not> KeyRangeContains (sRange (shards ! j)) x" if "j < i" for j
      using that il len c [of j] uniq [of j] by (metis nat_neq_iff less_trans)
  qed
  then have "GetShardForKeyspaceID shards x = Inr (sName (shards ! i))" using il by (auto simp: GetShardForKeyspaceID_def)
  moreover have "KeyRangeContains (sRange (shards ! i)) x" using c [OF il] i(2) by simp
  moreover have "\<forall>j<length shards. KeyRangeContains (sRange (shards ! j)) x \<longrightarrow> j = i"
    using c uniq len by simp
  ultimately show ?thesis using il by blast
qed

theorem keyspace_id_routed_uniquely_witness:
  "GetShardForKeyspaceID [\<lparr>sName = ''-40'', sRange = Some \<lparr>krStart = [], krEnd = [0x40]\<rparr>\<rparr>, \<lparr>sName = ''40-'', sRange = Some \<lparr>krStart = [0x40], krEnd = []\<rparr>\<rparr>] [0x40] = Inr ''40-'' \<and>
   (\<exists>i<length [\<lparr>sName = ''-40'', sRange = Some \<lparr>krStart = [], krEnd = [0x40]\<rparr>\<rparr>, \<lparr>sName = ''40-'', sRange = Some \<lparr>krStart = [0x40], krEnd = []\<rparr>\<rparr>]. GetShardForKeyspaceID [\<lparr>sName = ''-40'', sRange = Some \<lparr>krStart = [], krEnd = [0x40]\<rparr>\<rparr>, \<lparr>sName = ''40-'', sRange = Some \<lparr>krStart = [0x40], krEnd = []\<rparr>\<rparr>] [0x40] =
       Inr (sName ([\<lparr>sName = ''-40'', sRange = Some \<lparr>krStart = [], krEnd = [0x40]\<rparr>\<rparr>, \<lparr>sName = ''40-'', sRange = Some \<lparr>krStart = [0x40], krEnd = []\<rparr>\<rparr>] ! i)) \<and>
     KeyRangeContains (sRange ([\<lparr>sName = ''-40'', sRange = Some \<lparr>krStart = [], krEnd = [0x40]\<rparr>\<rparr>, \<lparr>sName = ''40-'', sRange = Some \<lparr>krStart = [0x40], krEnd = []\<rparr>\<rparr>] ! i)) [0x40] \<and>
     (\<forall>j<length [\<lparr>sName = ''-40'', sRange = Some \<lparr>krStart = [], krEnd = [0x40]\<rparr>\<rparr>, \<lparr>sName = ''40-'', sRange = Some \<lparr>krStart = [0x40], krEnd = []\<rparr>\<rparr>]. KeyRangeContains (sRange ([\<lparr>sName = ''-40'', sRange = Some \<lparr>krStart = [], krEnd = [0x40]\<rparr>\<rparr>, \<lparr>sName = ''40-'', sRange = Some \<lparr>krStart = [0x40], krEnd = []\<rparr>\<rparr>] ! j)) [0x40] \<longrightarrow> j = i))"
proof -
  let ?ss = "[\<lparr>sName = ''-40'', sRange = Some \<lparr>krStart = [], krEnd = [0x40]\<rparr>\<rparr>, \<lparr>sName = ''40-'', sRange = Some \<lparr>krStart = [0x40], krEnd = []\<rparr>\<rparr>]"
  have r: "GetShardForKeyspaceID ?ss [0x40] = Inr ''40-''" by code_simp
  have m: "map sRange ?ss = map Some [\<lparr>krStart = [], krEnd = [0x40]\<rparr>, \<lparr>krStart = [0x40], krEnd = []\<rparr>]" by simp
  have t: "tiles [] [\<lparr>krStart = [], krEnd = [0x40]\<rparr>, \<lparr>krStart = [0x40], krEnd = []\<rparr>]" by simp
  show ?thesis by (rule conjI [OF r keyspace_id_routed_uniquely [OF m t]])
qed

end
