(* ===== verification/Vindexes.thy ===== *)
theory Vindexes
  imports Destination
begin

unbundle bit_operations_syntax

text \<open>
  The functional vindexes (\<open>go/vt/vtgate/vindexes\<close>): numeric, reverse bits, binary, null, hash and the
  static map. A column value becomes a keyspace id, whose destination the routing resolves to a shard.
  DES of the hash vindex is a parameter; what is used of it is that decryption undoes encryption. The
  text of errors is not modelled: an error is \<open>None\<close>.
\<close>

section \<open>Values\<close>

text \<open>A value: its type code, whose bits say what it is, and its text.\<close>

record sql_value =
  vtyp :: int
  vtext :: string

definition flagIsIntegral :: int where "flagIsIntegral = 256"
definition flagIsUnsigned :: int where "flagIsUnsigned = 512"

definition IsIntegral :: "int \<Rightarrow> bool" where
  "IsIntegral t \<longleftrightarrow> t AND flagIsIntegral = flagIsIntegral"

definition IsSigned :: "int \<Rightarrow> bool" where
  "IsSigned t \<longleftrightarrow> t AND (flagIsIntegral OR flagIsUnsigned) = flagIsIntegral"

definition IsUnsigned :: "int \<Rightarrow> bool" where
  "IsUnsigned t \<longleftrightarrow> t AND (flagIsIntegral OR flagIsUnsigned) = (flagIsIntegral OR flagIsUnsigned)"

definition Value_ToInt64 :: "sql_value \<Rightarrow> int option" where
  "Value_ToInt64 v = (if \<not> IsIntegral (vtyp v) then None else ParseInt64 (vtext v))"

definition Value_ToUint64 :: "sql_value \<Rightarrow> 64 word option" where
  "Value_ToUint64 v = (if \<not> IsIntegral (vtyp v) then None else map_option of_nat (ParseUint (vtext v) 64))"

definition NewUint64 :: "64 word \<Rightarrow> sql_value" where
  "NewUint64 n = \<lparr>vtyp = 778, vtext = nat_dec (unat n)\<rparr>"

text \<open>\<open>setValueIntegralNumeric\<close>: a signed or an unsigned number.\<close>

datatype integral = EInt int | EUint "64 word"

definition setValueIntegralNumeric :: "sql_value \<Rightarrow> integral option" where
  "setValueIntegralNumeric v =
     (if IsSigned (vtyp v) then map_option EInt (Value_ToInt64 v)
      else if IsUnsigned (vtyp v) then map_option EUint (Value_ToUint64 v)
      else (case ParseUint (vtext v) 64 of
          Some n \<Rightarrow> Some (EUint (of_nat n))
        | None \<Rightarrow> map_option EInt (ParseInt64 (vtext v))))"

definition ToUint64 :: "sql_value \<Rightarrow> 64 word option" where
  "ToUint64 v = (case setValueIntegralNumeric v of
       None \<Rightarrow> None
     | Some (EInt i) \<Rightarrow> if uint (of_int i :: 64 word) > maxInt64 then None else Some (of_int i)
     | Some (EUint n) \<Rightarrow> Some n)"

section \<open>Byte orders and bits\<close>

definition PutUint64 :: "64 word \<Rightarrow> byte list" where
  "PutUint64 n = rev (le_enc 8 (unat n))"

definition BigEndian_Uint64 :: "byte list \<Rightarrow> 64 word" where
  "BigEndian_Uint64 k = of_nat (le_dec (rev (take 8 k)))"

definition Reverse64 :: "64 word \<Rightarrow> 64 word" where
  "Reverse64 n = horner_sum of_bool 2 (rev (map (bit n) [0..<64]))"

section \<open>What the vindexes share\<close>

definition map_ids :: "(sql_value \<Rightarrow> byte list option) \<Rightarrow> sql_value list \<Rightarrow> destination list" where
  "map_ids hash ids = map (\<lambda>v. case hash v of None \<Rightarrow> DestinationNone | Some ksid \<Rightarrow> DestinationKeyspaceID ksid) ids"

text \<open>The comparison with the keyspace ids; an id without one is an index out of range.\<close>

fun verify_ids :: "(sql_value \<Rightarrow> byte list option) \<Rightarrow> sql_value list \<Rightarrow> byte list list \<Rightarrow> bool list option outcome" where
  "verify_ids hash [] ksids = Ret (Some [])"
| "verify_ids hash (v # vs) ksids = (case hash v of
       None \<Rightarrow> Ret None
     | Some ksid \<Rightarrow> (case ksids of
         [] \<Rightarrow> Panic
       | k # ks \<Rightarrow> obind (verify_ids hash vs ks) (\<lambda>r. Ret (map_option ((#) (ksid = k)) r))))"

fun reverse_ids :: "(byte list \<Rightarrow> 64 word option) \<Rightarrow> byte list list \<Rightarrow> sql_value list option" where
  "reverse_ids unhash [] = Some []"
| "reverse_ids unhash (k # ks) = (case unhash k of
       None \<Rightarrow> None
     | Some n \<Rightarrow> (case reverse_ids unhash ks of None \<Rightarrow> None | Some vs \<Rightarrow> Some (NewUint64 n # vs)))"

section \<open>Numeric\<close>

definition Numeric_Hash :: "sql_value \<Rightarrow> byte list option" where
  "Numeric_Hash v = (case ToUint64 v of None \<Rightarrow> None | Some num \<Rightarrow> Some (PutUint64 num))"

definition Numeric_Map :: "sql_value list \<Rightarrow> destination list" where
  "Numeric_Map ids = map_ids Numeric_Hash ids"

definition Numeric_Verify :: "sql_value list \<Rightarrow> byte list list \<Rightarrow> bool list option outcome" where
  "Numeric_Verify ids ksids = verify_ids Numeric_Hash ids ksids"

definition Numeric_ReverseMap :: "byte list list \<Rightarrow> sql_value list option" where
  "Numeric_ReverseMap ksids = reverse_ids (\<lambda>k. if length k \<noteq> 8 then None else Some (BigEndian_Uint64 k)) ksids"

section \<open>Reverse bits\<close>

definition reverse :: "64 word \<Rightarrow> byte list" where
  "reverse shardKey = PutUint64 (Reverse64 shardKey)"

definition unreverse :: "byte list \<Rightarrow> 64 word option" where
  "unreverse k = (if length k \<noteq> 8 then None else Some (Reverse64 (BigEndian_Uint64 k)))"

definition ReverseBits_Hash :: "sql_value \<Rightarrow> byte list option" where
  "ReverseBits_Hash v = (case ToUint64 v of None \<Rightarrow> None | Some num \<Rightarrow> Some (reverse num))"

definition ReverseBits_Map :: "sql_value list \<Rightarrow> destination list" where
  "ReverseBits_Map ids = map_ids ReverseBits_Hash ids"

definition ReverseBits_Verify :: "sql_value list \<Rightarrow> byte list list \<Rightarrow> bool list option outcome" where
  "ReverseBits_Verify ids ksids = verify_ids ReverseBits_Hash ids ksids"

definition ReverseBits_ReverseMap :: "byte list list \<Rightarrow> sql_value list option" where
  "ReverseBits_ReverseMap ksids = reverse_ids unreverse ksids"

section \<open>Hash\<close>

record des =
  Encrypt :: "byte list \<Rightarrow> byte list"
  Decrypt :: "byte list \<Rightarrow> byte list"

text \<open>A block cipher on blocks of eight bytes.\<close>

definition block_cipher :: "des \<Rightarrow> bool" where
  "block_cipher c \<longleftrightarrow> (\<forall>b. length b = 8 \<longrightarrow> length (Encrypt c b) = 8 \<and> Decrypt c (Encrypt c b) = b)"

definition vhash :: "des \<Rightarrow> 64 word \<Rightarrow> byte list" where
  "vhash c shardKey = Encrypt c (PutUint64 shardKey)"

definition vunhash :: "des \<Rightarrow> byte list \<Rightarrow> 64 word option" where
  "vunhash c k = (if length k \<noteq> 8 then None else Some (BigEndian_Uint64 (Decrypt c k)))"

definition Hash_Hash :: "des \<Rightarrow> sql_value \<Rightarrow> byte list option" where
  "Hash_Hash c v =
     (if IsSigned (vtyp v) then
        (case ParseInt64 (vtext v) of None \<Rightarrow> None | Some ival \<Rightarrow> Some (vhash c (of_int ival)))
      else (case ToUint64 v of None \<Rightarrow> None | Some num \<Rightarrow> Some (vhash c num)))"

definition Hash_Map :: "des \<Rightarrow> sql_value list \<Rightarrow> destination list" where
  "Hash_Map c ids = map_ids (Hash_Hash c) ids"

definition Hash_Verify :: "des \<Rightarrow> sql_value list \<Rightarrow> byte list list \<Rightarrow> bool list option outcome" where
  "Hash_Verify c ids ksids = verify_ids (\<lambda>v. case ToUint64 v of None \<Rightarrow> None | Some num \<Rightarrow> Some (vhash c num)) ids ksids"

definition Hash_ReverseMap :: "des \<Rightarrow> byte list list \<Rightarrow> sql_value list option" where
  "Hash_ReverseMap c ksids = reverse_ids (vunhash c) ksids"

section \<open>Null and static map\<close>

definition nullksid :: "byte list" where "nullksid = [0]"

definition Null_Map :: "sql_value list \<Rightarrow> destination list" where
  "Null_Map ids = map (\<lambda>_. DestinationKeyspaceID nullksid) ids"

definition Null_Verify :: "sql_value list \<Rightarrow> byte list list \<Rightarrow> bool list option outcome" where
  "Null_Verify ids ksids = verify_ids (\<lambda>_. Some nullksid) ids ksids"

definition NumericStaticMap_Hash :: "(64 word, 64 word) gomap \<Rightarrow> sql_value \<Rightarrow> byte list option" where
  "NumericStaticMap_Hash lookup v = (case ToUint64 v of
       None \<Rightarrow> None
     | Some num \<Rightarrow> Some (PutUint64 (case map_of lookup num of None \<Rightarrow> num | Some n \<Rightarrow> n)))"

definition NumericStaticMap_Map :: "(64 word, 64 word) gomap \<Rightarrow> sql_value list \<Rightarrow> destination list" where
  "NumericStaticMap_Map lookup ids = map_ids (NumericStaticMap_Hash lookup) ids"

definition NumericStaticMap_Verify :: "(64 word, 64 word) gomap \<Rightarrow> sql_value list \<Rightarrow> byte list list \<Rightarrow> bool list option outcome" where
  "NumericStaticMap_Verify lookup ids ksids = verify_ids (NumericStaticMap_Hash lookup) ids ksids"

section \<open>Round trips\<close>

lemma length_PutUint64 [simp]: "length (PutUint64 n) = 8"
  by (simp add: PutUint64_def)

lemma BigEndian_PutUint64: "BigEndian_Uint64 (PutUint64 n) = n"
proof -
  have "unat n < 256 ^ 8" using unsigned_less [of n, where ?'a = nat] by simp
  then show ?thesis by (simp add: BigEndian_Uint64_def PutUint64_def le_dec_le_enc)
qed

lemma bit_Reverse64: "bit (Reverse64 n) k \<longleftrightarrow> k < 64 \<and> bit n (63 - k)"
  by (auto simp: Reverse64_def bit_horner_sum_bit_word_iff rev_nth)

lemma Reverse64_Reverse64: "Reverse64 (Reverse64 n) = n"
  by (rule bit_word_eqI) (auto simp: bit_Reverse64)

lemma ToUint64_NewUint64: "ToUint64 (NewUint64 n) = Some n"
proof -
  have "unat n < 2 ^ 64" using unsigned_less [of n, where ?'a = nat] by simp
  then show ?thesis
    by (simp add: ToUint64_def setValueIntegralNumeric_def NewUint64_def IsSigned_def IsUnsigned_def IsIntegral_def
        Value_ToUint64_def ParseUint_nat_dec flagIsIntegral_def flagIsUnsigned_def)
qed

lemma verify_ids_map:
  "\<forall>v\<in>set vs. hash v \<noteq> None \<Longrightarrow> verify_ids hash vs (map (\<lambda>v. the (hash v)) vs) = Ret (Some (map (\<lambda>_. True) vs))"
  by (induction vs) auto

lemma Hash_Hash_number: "ToUint64 v = Some n \<Longrightarrow> Hash_Hash c v = Some (vhash c n)"
  by (auto simp: Hash_Hash_def ToUint64_def setValueIntegralNumeric_def Value_ToInt64_def split: option.splits if_splits)

section \<open>Properties\<close>


definition toy_cipher :: des where
  "toy_cipher = \<lparr>Encrypt = rev, Decrypt = rev\<rparr>"


text \<open>
  The hash vindex maps a negative number but does not verify it: the value is routed to a keyspace
  id that maps back to its bit pattern, and verifying the value against that same id is an error.
\<close>

theorem negative_hash_not_verified:
  assumes "block_cipher c" "IsSigned (vtyp v)" "ParseInt64 (vtext v) = Some i" "i < 0" "- maxInt64 - 1 \<le> i"
  shows "\<exists>k. Hash_Map c [v] = [DestinationKeyspaceID k] \<and> Hash_ReverseMap c [k] = Some [NewUint64 (of_int i)] \<and>
    Hash_Verify c [v] [k] = Ret None"
proof -
  have e: "length (vhash c (of_int i)) = 8" "Decrypt c (vhash c (of_int i)) = PutUint64 (of_int i)"
    using assms(1) by (simp_all add: block_cipher_def vhash_def)
  have "IsIntegral (vtyp v)"
  proof -
    have "vtyp v AND 768 = 256" using assms(2) by (simp add: IsSigned_def flagIsIntegral_def flagIsUnsigned_def)
    then have "(vtyp v AND 768) AND 256 = 256 AND 256" by simp
    then show ?thesis by (simp add: IsIntegral_def flagIsIntegral_def and.assoc)
  qed
  moreover have "uint (of_int i :: 64 word) = i + 18446744073709551616"
    using assms(4,5) by (simp add: unsigned_of_int take_bit_eq_mod maxInt64_def
        mod_add_self2 [symmetric, of i "18446744073709551616"] del: mod_add_self2)
  then have "maxInt64 < uint (of_int i :: 64 word)" using assms(5) by (simp add: maxInt64_def)
  ultimately have "ToUint64 v = None"
    using assms(2,3) by (simp add: ToUint64_def setValueIntegralNumeric_def Value_ToInt64_def)
  with assms(2,3) e show ?thesis
    by (simp add: Hash_Map_def map_ids_def Hash_Hash_def Hash_Verify_def Hash_ReverseMap_def vunhash_def BigEndian_PutUint64)
qed

theorem negative_hash_not_verified_witness:
  "\<exists>k. Hash_Map toy_cipher [\<lparr>vtyp = 265, vtext = ''-1''\<rparr>] = [DestinationKeyspaceID k] \<and>
     Hash_Verify toy_cipher [\<lparr>vtyp = 265, vtext = ''-1''\<rparr>] [k] = Ret None"
proof -
  have "block_cipher toy_cipher" by (simp add: block_cipher_def toy_cipher_def)
  moreover have "IsSigned (vtyp \<lparr>vtyp = 265, vtext = ''-1''\<rparr>)"
    by (simp add: IsSigned_def flagIsIntegral_def flagIsUnsigned_def)
  moreover have "ParseInt64 (vtext \<lparr>vtyp = 265, vtext = ''-1''\<rparr>) = Some (- 1)"
    by (simp add: ParseInt64_def ParseUint_def digit_val_def maxInt64_def)
  ultimately show ?thesis
    using negative_hash_not_verified [of toy_cipher "\<lparr>vtyp = 265, vtext = ''-1''\<rparr>" "- 1"] by (auto simp: maxInt64_def)
qed

end
