(* ===== verification/LoadBalance.thy ===== *)
theory LoadBalance
  imports LastSeenGtid Complex_Main
begin

text \<open>
  How a gateway picks a tablet: \<open>PickTablet\<close> and the load balancers of \<open>tabletgateway_lb.go\<close>, with
  \<open>shuffleTablets\<close> of \<open>tabletgateway.go\<close>. The sorting routine of \<open>golang.org/x/exp/slices\<close> is a
  parameter whose comparison may panic, and \<open>rand.Intn\<close> is a parameter: the \<open>k\<close>-th call with bound
  \<open>n\<close> returns \<open>intn k n\<close>. Nil pointers are \<open>None\<close>; a finite floating-point number is a real.
\<close>

section \<open>Data\<close>

record tablet_alias =
  aliasCell :: string
  aliasUid :: "32 word"

record tablet =
  tAlias :: "tablet_alias option"
  tType :: int

record target =
  tgCell :: string
  tgTabletType :: int

record mysql_threads_stats =
  Connected :: int
  Running :: int

record realtime_stats =
  Qps :: real
  MysqlThreadStats :: "mysql_threads_stats option"
  TabletThreadsStats :: int

record 'c tablet_health =
  thConn :: "'c option"
  thTablet :: "tablet option"
  thTarget :: "target option"
  thStats :: "realtime_stats option"
  thPosition :: position

record tablet_cache_status =
  tcsQPS :: real
  tcsAvgLatency :: real

datatype load_balance_policy = RANDOM | LEAST_GLOBAL_QPS | LEAST_QPS | LEAST_RT | LEAST_BEHIND_PRIMARY
  | LEAST_MYSQL_CONNECTED_CONNECTIONS | LEAST_MYSQL_RUNNING_CONNECTIONS | LEAST_TABLET_INUSE_CONNECTIONS | OtherPolicy int

record execute_options =
  ReadAfterWriteGtid :: string
  LoadBalancePolicy :: load_balance_policy
  CanLoadBalanceBetweenReplicAndRdonly :: bool
  TabletInfoToDisplay :: "(tablet_alias option \<times> int) option"

text \<open>The fields of the gateway the balancers read; \<open>tabletStatusMap\<close> as \<open>GetCacheStatusMap\<close> returns it.\<close>

record gateway =
  localCell :: string
  retryCount :: int
  lastSeenGtid :: last_seen_gtid
  tabletStatusMap :: "(string, tablet_cache_status) gomap"

type_synonym 'a osorter = "('a \<Rightarrow> 'a \<Rightarrow> bool outcome) \<Rightarrow> 'a list \<Rightarrow> 'a list outcome"

datatype gateway_error = NoTablet | NoConn | TxOnReplica | TypeNotAllowed int | BufferFailed gateway_error "gateway_error option"
  | BeingResharded | PrimaryNotServing | NoHealthyTablet | QueryFailed string | ShardError gateway_error target

definition ptr :: "'a option \<Rightarrow> 'a outcome" where
  "ptr p = (case p of None \<Rightarrow> Panic | Some a \<Rightarrow> Ret a)"

definition GetCell :: "target option \<Rightarrow> string" where
  "GetCell t = (case t of None \<Rightarrow> [] | Some t \<Rightarrow> tgCell t)"

definition GetQps :: "realtime_stats option \<Rightarrow> real" where
  "GetQps s = (case s of None \<Rightarrow> 0 | Some s \<Rightarrow> Qps s)"

section \<open>Comparisons\<close>

text \<open>The order of two tablets of different cells, and the comparison inside one cell.\<close>

definition by_cell :: "string \<Rightarrow> ('c tablet_health \<Rightarrow> 'c tablet_health \<Rightarrow> bool outcome) \<Rightarrow>
    'c tablet_health \<Rightarrow> 'c tablet_health \<Rightarrow> bool outcome" where
  "by_cell cell cmp a b =
     (if GetCell (thTarget a) = GetCell (thTarget b) then cmp a b
      else if GetCell (thTarget a) = cell then Ret True
      else if GetCell (thTarget b) = cell then Ret False
      else Ret True)"

definition leastTabletInUseConnections :: "'c tablet_health osorter \<Rightarrow> gateway \<Rightarrow> 'c tablet_health list \<Rightarrow> 'c tablet_health list outcome" where
  "leastTabletInUseConnections srt gw candidates =
     (if candidates = [] then Ret candidates
      else srt (by_cell (localCell gw) (\<lambda>a b.
        obind (ptr (thStats a)) (\<lambda>sa. obind (ptr (thStats b)) (\<lambda>sb. Ret (TabletThreadsStats sa \<le> TabletThreadsStats sb))))) candidates)"

definition leastMysqlRunningConnections :: "'c tablet_health osorter \<Rightarrow> gateway \<Rightarrow> 'c tablet_health list \<Rightarrow> 'c tablet_health list outcome" where
  "leastMysqlRunningConnections srt gw candidates =
     (if candidates = [] then Ret candidates
      else srt (by_cell (localCell gw) (\<lambda>a b.
        obind (ptr (thStats a)) (\<lambda>sa. obind (ptr (MysqlThreadStats sa)) (\<lambda>ma.
        obind (ptr (thStats b)) (\<lambda>sb. obind (ptr (MysqlThreadStats sb)) (\<lambda>mb. Ret (Running ma \<le> Running mb))))))) candidates)"

definition leastMysqlConnectedConnections :: "'c tablet_health osorter \<Rightarrow> gateway \<Rightarrow> 'c tablet_health list \<Rightarrow> 'c tablet_health list outcome" where
  "leastMysqlConnectedConnections srt gw candidates =
     (if candidates = [] then Ret candidates
      else srt (by_cell (localCell gw) (\<lambda>a b.
        obind (ptr (thStats a)) (\<lambda>sa. obind (ptr (MysqlThreadStats sa)) (\<lambda>ma.
        obind (ptr (thStats b)) (\<lambda>sb. obind (ptr (MysqlThreadStats sb)) (\<lambda>mb. Ret (Connected ma < Connected mb))))))) candidates)"

definition leastGlobalQPSLoadBalancer :: "'c tablet_health osorter \<Rightarrow> gateway \<Rightarrow> 'c tablet_health list \<Rightarrow> 'c tablet_health list outcome" where
  "leastGlobalQPSLoadBalancer srt gw candidates =
     (if candidates = [] then Ret candidates
      else srt (by_cell (localCell gw) (\<lambda>a b. Ret (GetQps (thStats a) \<le> GetQps (thStats b)))) candidates)"

definition tablet_status :: "gateway \<Rightarrow> 'c tablet_health \<Rightarrow> tablet_cache_status option outcome" where
  "tablet_status gw a =
     obind (ptr (thTablet a)) (\<lambda>t. obind (ptr (tAlias t)) (\<lambda>al. Ret (map_of (tabletStatusMap gw) (nat_dec (unat (aliasUid al))))))"

definition leastQPSLoadBalancer :: "'c tablet_health osorter \<Rightarrow> gateway \<Rightarrow> 'c tablet_health list \<Rightarrow> 'c tablet_health list outcome" where
  "leastQPSLoadBalancer srt gw candidates =
     (if candidates = [] then Ret candidates
      else srt (\<lambda>a b. obind (tablet_status gw a) (\<lambda>sa. obind (tablet_status gw b) (\<lambda>sb.
        case (sa, sb) of
          (Some aStats, Some bStats) \<Rightarrow> by_cell (localCell gw) (\<lambda>_ _. Ret (tcsQPS aStats \<le> tcsQPS bStats)) a b
        | _ \<Rightarrow> Ret True))) candidates)"

definition leastRTLoadBalancer :: "'c tablet_health osorter \<Rightarrow> gateway \<Rightarrow> 'c tablet_health list \<Rightarrow> 'c tablet_health list outcome" where
  "leastRTLoadBalancer srt gw candidates =
     (if candidates = [] then Ret candidates
      else srt (\<lambda>a b. obind (tablet_status gw a) (\<lambda>sa. obind (tablet_status gw b) (\<lambda>sb.
        case (sa, sb) of
          (Some aStats, Some bStats) \<Rightarrow> by_cell (localCell gw) (\<lambda>_ _. Ret (tcsAvgLatency aStats \<le> tcsAvgLatency bStats)) a b
        | _ \<Rightarrow> Ret True))) candidates)"

definition leastBehindPrimaryLoadBalancer :: "'c tablet_health osorter \<Rightarrow> gateway \<Rightarrow> 'c tablet_health list \<Rightarrow> 'c tablet_health list outcome" where
  "leastBehindPrimaryLoadBalancer srt gw candidates =
     (if candidates = [] then Ret candidates
      else srt (by_cell (localCell gw) (\<lambda>a b. Ret (AtLeast (thPosition a) (thPosition b)))) candidates)"


section \<open>Shuffling\<close>

function nextTablet :: "string \<Rightarrow> 'c tablet_health list \<Rightarrow> int \<Rightarrow> int \<Rightarrow> bool \<Rightarrow> int outcome" where
  "nextTablet cell tablets offset len sameCell =
     (if offset < len then
        (if offset < 0 \<or> offset \<ge> int (length tablets) then Panic
         else case thTablet (tablets ! nat offset) of
             None \<Rightarrow> Panic
           | Some t \<Rightarrow> (case tAlias t of
                 None \<Rightarrow> Panic
               | Some al \<Rightarrow> (if (aliasCell al = cell) = sameCell then Ret offset
                   else nextTablet cell tablets (offset + 1) len sameCell)))
      else Ret (- 1))"
  by pat_completeness auto

termination
  by (relation "measure (\<lambda>(_, _, offset, len, _). nat (len - offset))") auto

declare nextTablet.simps [simp del]

lemma nextTablet_range: "nextTablet cell tablets offset len sameCell = Ret r \<Longrightarrow> r = - 1 \<or> offset \<le> r \<and> 0 \<le> r \<and> r < len \<and> r < int (length tablets)"
proof (induction cell tablets offset len sameCell rule: nextTablet.induct)
  case (1 cell tablets offset len sameCell)
  from 1(2) 1(1) show ?case by (subst (asm) nextTablet.simps) (force split: if_splits option.splits)
qed

definition swap_at :: "int \<Rightarrow> int \<Rightarrow> 'a list \<Rightarrow> 'a list outcome" where
  "swap_at i j xs = (if 0 \<le> i \<and> i < int (length xs) \<and> 0 \<le> j \<and> j < int (length xs)
     then Ret (xs[nat i := xs ! nat j, nat j := xs ! nat i]) else Panic)"

text \<open>Moving the tablets of the cell to the front. Returns the tablets and \<open>sameCellMax\<close>.\<close>

function move_loop :: "string \<Rightarrow> int \<Rightarrow> 'c tablet_health list \<Rightarrow> int \<Rightarrow> int \<Rightarrow> ('c tablet_health list \<times> int) outcome" where
  "move_loop cell len tablets sameCell diffCell =
     (case nextTablet cell tablets sameCell len True of
        Panic \<Rightarrow> Panic
      | Ret s \<Rightarrow> (case nextTablet cell tablets diffCell len False of
            Panic \<Rightarrow> Panic
          | Ret d \<Rightarrow>
              (if s < 0 \<or> d < 0 then Ret (tablets, diffCell - 1)
               else if s < d then move_loop cell len tablets (d + 1) d
               else (case swap_at s d tablets of
                   Panic \<Rightarrow> Panic
                 | Ret tablets' \<Rightarrow> move_loop cell len tablets' (s + 1) (d + 1)))))"
  by pat_completeness auto

termination
  by (relation "measure (\<lambda>(_, len, _, s, _). nat (len - s))") (auto dest!: nextTablet_range)

declare move_loop.simps [simp del]

text \<open>
  The two shuffling loops: \<open>i\<close> goes down to \<open>lo + 1\<close> and is exchanged with a position of
  \<open>[lo, i]\<close> (\<open>lo = 0\<close> in the first loop, \<open>diffCellMin\<close> in the second).
\<close>

function shuffle_down :: "(nat \<Rightarrow> int \<Rightarrow> int) \<Rightarrow> int \<Rightarrow> nat \<Rightarrow> int \<Rightarrow> 'a list \<Rightarrow> ('a list \<times> nat) outcome" where
  "shuffle_down intn lo k i tablets =
     (if i > lo then
        (case swap_at i (intn k (i - lo + 1) + lo) tablets of
           Panic \<Rightarrow> Panic
         | Ret tablets' \<Rightarrow> shuffle_down intn lo (Suc k) (i - 1) tablets')
      else Ret (tablets, k))"
  by pat_completeness auto

termination
  by (relation "measure (\<lambda>(_, lo, _, i, _). nat (i - lo))") auto

declare shuffle_down.simps [simp del]

definition shuffleTablets :: "(nat \<Rightarrow> int \<Rightarrow> int) \<Rightarrow> nat \<Rightarrow> string \<Rightarrow> 'c tablet_health list \<Rightarrow> ('c tablet_health list \<times> nat) outcome" where
  "shuffleTablets intn k cell tablets =
     obind (move_loop cell (int (length tablets)) tablets 0 0) (\<lambda>(tablets1, sameCellMax).
     obind (shuffle_down intn 0 k sameCellMax tablets1) (\<lambda>(tablets2, k2).
     shuffle_down intn (sameCellMax + 1) k2 (int (length tablets) - 1) tablets2))"

definition randomLoadBalancer :: "(nat \<Rightarrow> int \<Rightarrow> int) \<Rightarrow> nat \<Rightarrow> gateway \<Rightarrow> 'c tablet_health list \<Rightarrow> ('c tablet_health list \<times> nat) outcome" where
  "randomLoadBalancer intn k gw candidates =
     (if candidates = [] then Ret (candidates, k) else shuffleTablets intn k (localCell gw) candidates)"

section \<open>Picking\<close>

text \<open>The in-place sorts leave the random generator alone.\<close>

definition loadBalance :: "'c tablet_health osorter \<Rightarrow> (nat \<Rightarrow> int \<Rightarrow> int) \<Rightarrow> nat \<Rightarrow> gateway \<Rightarrow> 'c tablet_health list \<Rightarrow>
    execute_options option \<Rightarrow> ('c tablet_health option \<times> nat) outcome" where
  "loadBalance srt intn k gw candidates options =
     (if candidates = [] then Ret (None, k)
      else
        let keep = (\<lambda>m. obind m (\<lambda>ts. Ret (ts, k))); policy = (case options of None \<Rightarrow> RANDOM | Some opts \<Rightarrow> LoadBalancePolicy opts) in
        obind
          (case policy of
             LEAST_GLOBAL_QPS \<Rightarrow> keep (leastGlobalQPSLoadBalancer srt gw candidates)
           | LEAST_QPS \<Rightarrow> keep (leastQPSLoadBalancer srt gw candidates)
           | LEAST_RT \<Rightarrow> keep (leastRTLoadBalancer srt gw candidates)
           | LEAST_BEHIND_PRIMARY \<Rightarrow> keep (leastBehindPrimaryLoadBalancer srt gw candidates)
           | RANDOM \<Rightarrow> randomLoadBalancer intn k gw candidates
           | LEAST_MYSQL_CONNECTED_CONNECTIONS \<Rightarrow> keep (leastMysqlConnectedConnections srt gw candidates)
           | LEAST_MYSQL_RUNNING_CONNECTIONS \<Rightarrow> keep (leastMysqlRunningConnections srt gw candidates)
           | LEAST_TABLET_INUSE_CONNECTIONS \<Rightarrow> keep (leastTabletInUseConnections srt gw candidates)
           | OtherPolicy _ \<Rightarrow> randomLoadBalancer intn k gw candidates)
          (\<lambda>(ts, k'). case ts of [] \<Rightarrow> Panic | t # _ \<Rightarrow> Ret (Some t, k')))"

definition filterAdvisorByGTIDThreshold :: "interval sorter \<Rightarrow> gateway \<Rightarrow> 'c tablet_health list \<Rightarrow> execute_options option \<Rightarrow> 'c tablet_health list" where
  "filterAdvisorByGTIDThreshold sf gw availableTablets options =
     (if availableTablets = [] then []
      else case options of
          None \<Rightarrow> []
        | Some opts \<Rightarrow>
            (if ReadAfterWriteGtid opts = [] then []
             else case ParsePosition sf (lsFlavor (lastSeenGtid gw)) (ReadAfterWriteGtid opts) of
                 Inl _ \<Rightarrow> []
               | Inr requestedPosition \<Rightarrow> filter (\<lambda>t. AtLeast (thPosition t) requestedPosition) availableTablets))"

definition PickTablet :: "interval sorter \<Rightarrow> 'c tablet_health osorter \<Rightarrow> (nat \<Rightarrow> int \<Rightarrow> int) \<Rightarrow> nat \<Rightarrow> gateway \<Rightarrow> 'c tablet_health list \<Rightarrow>
    execute_options option \<Rightarrow> ((gateway_error + 'c tablet_health) \<times> execute_options option \<times> nat) outcome" where
  "PickTablet sf srt intn k gw availableTablets options =
     (if availableTablets = [] then Ret (Inl NoTablet, options, k)
      else
        let filtered = filterAdvisorByGTIDThreshold sf gw availableTablets options;
            candidates = (if filtered \<noteq> [] then filtered else availableTablets);
            options' = (if filtered \<noteq> [] then map_option (\<lambda>opts. opts\<lparr>ReadAfterWriteGtid := []\<rparr>) options else options) in
        obind (loadBalance srt intn k gw candidates options') (\<lambda>(chosen, k').
          case chosen of None \<Rightarrow> Ret (Inl NoTablet, options', k') | Some t \<Rightarrow> Ret (Inr t, options', k')))"


section \<open>The shuffle\<close>

definition has_alias :: "'c tablet_health \<Rightarrow> bool" where
  "has_alias t = (case thTablet t of None \<Rightarrow> False | Some tb \<Rightarrow> tAlias tb \<noteq> None)"

definition in_cell :: "string \<Rightarrow> 'c tablet_health \<Rightarrow> bool" where
  "in_cell cell t = (case thTablet t of None \<Rightarrow> False | Some tb \<Rightarrow> (case tAlias tb of None \<Rightarrow> False | Some al \<Rightarrow> aliasCell al = cell))"

definition intn_ok :: "(nat \<Rightarrow> int \<Rightarrow> int) \<Rightarrow> bool" where
  "intn_ok intn \<longleftrightarrow> (\<forall>k n. 0 < n \<longrightarrow> 0 \<le> intn k n \<and> intn k n < n)"

lemma nextTablet_finds:
  assumes "\<forall>t \<in> set ts. has_alias t" "0 \<le> offset" "len = int (length ts)"
  shows "\<exists>r. nextTablet cell ts offset len same = Ret r \<and>
    (r = - 1 \<and> (\<forall>j. offset \<le> j \<and> j < len \<longrightarrow> in_cell cell (ts ! nat j) \<noteq> same) \<or>
     offset \<le> r \<and> r < len \<and> in_cell cell (ts ! nat r) = same \<and> (\<forall>j. offset \<le> j \<and> j < r \<longrightarrow> in_cell cell (ts ! nat j) \<noteq> same))"
  using assms
proof (induction cell ts offset len same rule: nextTablet.induct)
  case (1 cell ts offset len same)
  show ?case
  proof (cases "offset < len")
    case True
    have "ts ! nat offset \<in> set ts" using 1(3,4) True by (simp add: 1(4))
    then have "has_alias (ts ! nat offset)" using 1(2) by blast
    then obtain t al where t: "thTablet (ts ! nat offset) = Some t" "tAlias t = Some al" by (auto simp: has_alias_def split: option.splits)
    have ic: "in_cell cell (ts ! nat offset) = (aliasCell al = cell)" by (simp add: in_cell_def t)
    have bnd: "\<not> (offset < 0 \<or> offset \<ge> int (length ts))" using True 1(3,4) by simp
    show ?thesis
    proof (cases "(aliasCell al = cell) = same")
      case eq: True
      have "nextTablet cell ts offset len same = Ret offset" using True bnd eq by (subst nextTablet.simps) (simp add: t)
      then show ?thesis using True eq ic by auto
    next
      case False
      have e: "nextTablet cell ts offset len same = nextTablet cell ts (offset + 1) len same"
        using True bnd False by (subst nextTablet.simps) (simp add: t)
      have first: "in_cell cell (ts ! nat j) \<noteq> same" if "offset \<le> j" "\<not> offset + 1 \<le> j" for j
        using that ic False by (cases "j = offset") auto
      from 1(1) [OF True bnd t False 1(2) _ 1(4)] 1(3) obtain r where
        r: "nextTablet cell ts (offset + 1) len same = Ret r"
          "r = - 1 \<and> (\<forall>j. offset + 1 \<le> j \<and> j < len \<longrightarrow> in_cell cell (ts ! nat j) \<noteq> same) \<or>
           offset + 1 \<le> r \<and> r < len \<and> in_cell cell (ts ! nat r) = same \<and> (\<forall>j. offset + 1 \<le> j \<and> j < r \<longrightarrow> in_cell cell (ts ! nat j) \<noteq> same)"
        by auto
      from r(2) show ?thesis
      proof
        assume "r = - 1 \<and> (\<forall>j. offset + 1 \<le> j \<and> j < len \<longrightarrow> in_cell cell (ts ! nat j) \<noteq> same)"
        then show ?thesis using e r(1) first by metis
      next
        assume "offset + 1 \<le> r \<and> r < len \<and> in_cell cell (ts ! nat r) = same \<and> (\<forall>j. offset + 1 \<le> j \<and> j < r \<longrightarrow> in_cell cell (ts ! nat j) \<noteq> same)"
        moreover from this have "offset \<le> r" by simp
        ultimately show ?thesis using e r(1) first by metis
      qed
    qed
  next
    case False
    then show ?thesis by (subst nextTablet.simps) auto
  qed
qed

lemma swap_at_ret:
  assumes "0 \<le> i" "i < int (length xs)" "0 \<le> j" "j < int (length xs)"
  shows "\<exists>ys. swap_at i j xs = Ret ys \<and> mset ys = mset xs \<and> length ys = length xs \<and> ys ! nat i = xs ! nat j \<and> ys ! nat j = xs ! nat i \<and>
    (\<forall>n < length xs. n \<noteq> nat i \<longrightarrow> n \<noteq> nat j \<longrightarrow> ys ! n = xs ! n)"
proof -
  have "nat i < length xs" "nat j < length xs" using assms by auto
  moreover from this have "mset (xs[nat i := xs ! nat j, nat j := xs ! nat i]) = mset xs" by (simp add: mset_swap)
  ultimately show ?thesis using assms unfolding swap_at_def by (simp add: nth_list_update)
qed

text \<open>Positions below \<open>d\<close> are in the cell, those from \<open>d\<close> to \<open>s\<close> are not.\<close>

definition moved :: "string \<Rightarrow> 'c tablet_health list \<Rightarrow> int \<Rightarrow> int \<Rightarrow> bool" where
  "moved cell ts s d \<longleftrightarrow> 0 \<le> s \<and> 0 \<le> d \<and> d \<le> int (length ts) \<and> (\<forall>t \<in> set ts. has_alias t) \<and>
     (\<forall>j. 0 \<le> j \<and> j < d \<longrightarrow> in_cell cell (ts ! nat j)) \<and> (\<forall>j. d \<le> j \<and> j < s \<and> j < int (length ts) \<longrightarrow> \<not> in_cell cell (ts ! nat j))"

lemma move_loop_moves:
  assumes "moved cell ts s d" "len = int (length ts)"
  shows "\<exists>ts' m. move_loop cell len ts s d = Ret (ts', m) \<and> mset ts' = mset ts \<and> - 1 \<le> m \<and> m < len \<and>
    (\<forall>j. 0 \<le> j \<and> j \<le> m \<longrightarrow> in_cell cell (ts' ! nat j)) \<and>
    ((\<forall>j. m < j \<and> j < len \<longrightarrow> \<not> in_cell cell (ts' ! nat j)) \<or> (\<forall>j. m < j \<and> j < len \<longrightarrow> in_cell cell (ts' ! nat j)))"
  using assms
proof (induction cell len ts s d rule: move_loop.induct)
  case (1 cell len ts s d)
  note M = 1(3) [unfolded moved_def]
  from nextTablet_finds [of ts s len cell True] M 1(4) obtain s' where
    s': "nextTablet cell ts s len True = Ret s'" "s' = - 1 \<and> (\<forall>j. s \<le> j \<and> j < len \<longrightarrow> \<not> in_cell cell (ts ! nat j)) \<or>
      s \<le> s' \<and> s' < len \<and> in_cell cell (ts ! nat s') \<and> (\<forall>j. s \<le> j \<and> j < s' \<longrightarrow> \<not> in_cell cell (ts ! nat j))" by auto
  from nextTablet_finds [of ts d len cell False] M 1(4) obtain d' where
    d': "nextTablet cell ts d len False = Ret d'" "d' = - 1 \<and> (\<forall>j. d \<le> j \<and> j < len \<longrightarrow> in_cell cell (ts ! nat j)) \<or>
      d \<le> d' \<and> d' < len \<and> \<not> in_cell cell (ts ! nat d') \<and> (\<forall>j. d \<le> j \<and> j < d' \<longrightarrow> in_cell cell (ts ! nat j))" by auto
  note rec = move_loop.simps [of cell len ts s d, unfolded s'(1) d'(1) outcome.simps]
  consider (stop) "s' < 0 \<or> d' < 0" | (skip) "0 \<le> s'" "0 \<le> d'" "s' < d'" | (swap) "0 \<le> s'" "0 \<le> d'" "\<not> s' < d'" by linarith
  then show ?case
  proof cases
    case stop
    have "(\<forall>j. d \<le> j \<and> j < len \<longrightarrow> \<not> in_cell cell (ts ! nat j)) \<or> (\<forall>j. d \<le> j \<and> j < len \<longrightarrow> in_cell cell (ts ! nat j))"
      using stop s'(2) d'(2) M 1(4) by (metis linorder_not_le order_less_le_trans)
    moreover have "move_loop cell len ts s d = Ret (ts, d - 1)" using stop by (simp add: rec)
    ultimately show ?thesis using M 1(4) by (intro exI [of _ ts] exI [of _ "d - 1"]) auto
  next
    case skip
    have "moved cell ts (d' + 1) d'" unfolding moved_def
    proof (intro conjI allI impI)
      show "0 \<le> d' + 1" "0 \<le> d'" "d' \<le> int (length ts)" "\<forall>t \<in> set ts. has_alias t" using skip d'(2) M 1(4) by auto
      show "in_cell cell (ts ! nat j)" if "0 \<le> j \<and> j < d'" for j using that M d'(2) skip by (cases "j < d") auto
      show "\<not> in_cell cell (ts ! nat j)" if "d' \<le> j \<and> j < d' + 1 \<and> j < int (length ts)" for j
        using that d'(2) skip by (cases "j = d'") auto
    qed
    from 1(1) [OF s'(1) d'(1) _ _ this 1(4)] skip show ?thesis by (simp add: rec)
  next
    case swap
    have S: "s \<le> s'" "s' < len" "in_cell cell (ts ! nat s')" "\<forall>j. s \<le> j \<and> j < s' \<longrightarrow> \<not> in_cell cell (ts ! nat j)" using s'(2) swap by auto
    have D: "d \<le> d'" "d' < len" "\<not> in_cell cell (ts ! nat d')" "\<forall>j. d \<le> j \<and> j < d' \<longrightarrow> in_cell cell (ts ! nat j)" using d'(2) swap by auto
    have ne: "d' < s'" using swap S(3) D(3) by (cases "s' = d'") auto
    obtain us where us: "swap_at s' d' ts = Ret us" "mset us = mset ts" "length us = length ts" "us ! nat s' = ts ! nat d'" "us ! nat d' = ts ! nat s'"
      "\<forall>n < length ts. n \<noteq> nat s' \<longrightarrow> n \<noteq> nat d' \<longrightarrow> us ! n = ts ! n"
      using swap_at_ret [of s' ts d'] swap S(2) D(2) 1(4) by auto
    have keep: "us ! nat j = ts ! nat j" if "0 \<le> j" "j < int (length ts)" "j \<noteq> s'" "j \<noteq> d'" for j
      using us(6) that swap by (simp add: nat_eq_iff)
    have "moved cell us (s' + 1) (d' + 1)" unfolding moved_def us(3)
    proof (intro conjI allI impI)
      show "0 \<le> s' + 1" "0 \<le> d' + 1" "d' + 1 \<le> int (length ts)" using swap D 1(4) by auto
      show "\<forall>t \<in> set us. has_alias t" using M us(2) by (metis set_mset_mset)
      show "in_cell cell (us ! nat j)" if "0 \<le> j \<and> j < d' + 1" for j
      proof (cases "j = d'")
        case True then show ?thesis using us(5) S(3) by simp
      next
        case False
        then have "us ! nat j = ts ! nat j" using that ne D(2) 1(4) by (intro keep) auto
        then show ?thesis using that False M D(4) by (cases "j < d") auto
      qed
      show "\<not> in_cell cell (us ! nat j)" if "d' + 1 \<le> j \<and> j < s' + 1 \<and> j < int (length ts)" for j
      proof (cases "j = s'")
        case True then show ?thesis using us(4) D(3) by simp
      next
        case False
        then have "us ! nat j = ts ! nat j" using that swap by (intro keep) auto
        then show ?thesis using that False M S(4) D(1) by (cases "j < s") auto
      qed
    qed
    moreover have "move_loop cell len ts s d = move_loop cell len us (s' + 1) (d' + 1)" using swap us(1) by (simp add: rec)
    ultimately show ?thesis using 1(2) [OF s'(1) d'(1) _ swap(3) us(1)] swap 1(4) us(2,3) by simp
  qed
qed


lemma shuffle_down_permutes:
  assumes "intn_ok intn" "0 \<le> lo" "i < int (length ts)"
  shows "\<exists>us k'. shuffle_down intn lo k i ts = Ret (us, k') \<and> mset us = mset ts \<and>
    (\<forall>n < length ts. int n < lo \<or> i < int n \<longrightarrow> us ! n = ts ! n)"
  using assms
proof (induction intn lo k i ts rule: shuffle_down.induct)
  case (1 intn lo k i ts)
  show ?case
  proof (cases "i > lo")
    case True
    let ?j = "intn k (i - lo + 1) + lo"
    have "0 < i - lo + 1" using True by simp
    then have "0 \<le> intn k (i - lo + 1) \<and> intn k (i - lo + 1) < i - lo + 1" using 1(2) unfolding intn_ok_def by blast
    then have j: "lo \<le> ?j" "?j \<le> i" by auto
    obtain us where us: "swap_at i ?j ts = Ret us" "mset us = mset ts" "length us = length ts"
      "\<forall>n < length ts. n \<noteq> nat i \<longrightarrow> n \<noteq> nat ?j \<longrightarrow> us ! n = ts ! n"
      using swap_at_ret [of i ts ?j] j True 1(3,4) by auto
    from 1(1) [OF True us(1) 1(2,3)] 1(4) us(3) obtain vs k' where
      vs: "shuffle_down intn lo (Suc k) (i - 1) us = Ret (vs, k')" "mset vs = mset us" "\<forall>n < length us. int n < lo \<or> i - 1 < int n \<longrightarrow> vs ! n = us ! n" by auto
    have "shuffle_down intn lo k i ts = Ret (vs, k')" using True us(1) vs(1) by (subst shuffle_down.simps) simp
    moreover have "vs ! n = ts ! n" if "n < length ts" "int n < lo \<or> i < int n" for n
    proof -
      have "n \<noteq> nat i" "n \<noteq> nat ?j" using that(2) j True 1(3) by linarith+
      moreover have "int n < lo \<or> i - 1 < int n" using that(2) by auto
      ultimately show ?thesis using that(1) us(3,4) vs(3) by auto
    qed
    ultimately show ?thesis using vs(2) us(2) by auto
  next
    case False
    then show ?thesis by (subst shuffle_down.simps) simp
  qed
qed

lemma take_drop_nth_eq:
  assumes "length us = length ts" "\<forall>n < length ts. n < m \<longrightarrow> us ! n = ts ! n"
  shows "take m us = take m ts"
  by (rule nth_equalityI) (use assms in auto)

lemma mset_drop_of_take: "mset us = mset ts \<Longrightarrow> take m us = take m ts \<Longrightarrow> mset (drop m us) = mset (drop m ts)"
  by (metis add_left_cancel append_take_drop_id mset_append)

lemma mset_take_of_drop: "mset us = mset ts \<Longrightarrow> drop m us = drop m ts \<Longrightarrow> mset (take m us) = mset (take m ts)"
  by (metis add_right_cancel append_take_drop_id mset_append)

lemma shuffleTablets_sorts:
  assumes al: "\<forall>t \<in> set ts. has_alias t" and rnd: "intn_ok intn"
  shows "\<exists>us k'. shuffleTablets intn k cell ts = Ret (us, k') \<and> mset us = mset ts \<and>
    (\<exists>n. (\<forall>t \<in> set (take n us). in_cell cell t) \<and> (\<forall>t \<in> set (drop n us). \<not> in_cell cell t))"
proof -
  have "moved cell ts 0 0" using al by (auto simp: moved_def)
  from move_loop_moves [OF this refl] obtain us m where
    u: "move_loop cell (int (length ts)) ts 0 0 = Ret (us, m)" "mset us = mset ts" "- 1 \<le> m" "m < int (length ts)"
      "\<forall>j. 0 \<le> j \<and> j \<le> m \<longrightarrow> in_cell cell (us ! nat j)"
      "(\<forall>j. m < j \<and> j < int (length ts) \<longrightarrow> \<not> in_cell cell (us ! nat j)) \<or> (\<forall>j. m < j \<and> j < int (length ts) \<longrightarrow> in_cell cell (us ! nat j))"
    by auto
  have lu: "length us = length ts" using u(2) mset_eq_length by blast
  define n where "n = nat (m + 1)"
  have n: "int n = m + 1" "n \<le> length ts" using u(3,4) by (auto simp: n_def)
  have pre: "in_cell cell t" if t: "t \<in> set (take n us)" for t
  proof -
    obtain i where "i < n" "i < length us" "t = us ! i" using t by (auto simp: in_set_conv_nth)
    then show ?thesis using u(5) [rule_format, of "int i"] n by auto
  qed
  have post: "(\<forall>t \<in> set (drop n us). \<not> in_cell cell t) \<or> (\<forall>t \<in> set (drop n us). in_cell cell t)"
  proof -
    have "\<exists>j. m < j \<and> j < int (length ts) \<and> t = us ! nat j" if t: "t \<in> set (drop n us)" for t
    proof -
      obtain i where "i < length us - n" "t = us ! (n + i)" using t lu n(2) by (auto simp: in_set_conv_nth)
      then show ?thesis using n lu by (intro exI [of _ "int (n + i)"]) (simp_all del: of_nat_add)
    qed
    then show ?thesis using u(6) by metis
  qed
  from shuffle_down_permutes [OF rnd, of 0 m us k] u(4) lu obtain vs k2 where
    v: "shuffle_down intn 0 k m us = Ret (vs, k2)" "mset vs = mset us" "\<forall>i < length us. m < int i \<longrightarrow> vs ! i = us ! i" by auto
  have lv: "length vs = length us" using v(2) mset_eq_length by blast
  have "drop n vs = drop n us" using v(3) lv n by (intro nth_equalityI) auto
  note v' = this mset_take_of_drop [OF v(2) this]
  from shuffle_down_permutes [OF rnd, of "m + 1" "int (length ts) - 1" vs k2] u(3) lu lv obtain ws k3 where
    w: "shuffle_down intn (m + 1) k2 (int (length ts) - 1) vs = Ret (ws, k3)" "mset ws = mset vs" "\<forall>i < length vs. int i < m + 1 \<longrightarrow> ws ! i = vs ! i" by auto
  have lw: "length ws = length vs" using w(2) mset_eq_length by blast
  have "take n ws = take n vs" using w(3) n by (intro take_drop_nth_eq [OF lw]) auto
  note w' = this mset_drop_of_take [OF w(2) this]
  have sets: "set (take n ws) = set (take n us)" "set (drop n ws) = set (drop n us)"
    using v' w' by (metis set_mset_mset, metis set_mset_mset)
  have "\<exists>n. (\<forall>t \<in> set (take n ws). in_cell cell t) \<and> (\<forall>t \<in> set (drop n ws). \<not> in_cell cell t)"
  proof (cases "\<forall>t \<in> set (drop n us). \<not> in_cell cell t")
    case True
    then show ?thesis using pre sets by metis
  next
    case False
    then have "\<forall>t \<in> set (drop n us). in_cell cell t" using post by blast
    moreover have "set ws = set (take n us) \<union> set (drop n us)" using sets by (metis append_take_drop_id set_append)
    ultimately have "\<forall>t \<in> set ws. in_cell cell t" using pre by auto
    then show ?thesis by (intro exI [of _ "length ws"]) simp
  qed
  moreover have "shuffleTablets intn k cell ts = Ret (ws, k3)" using u(1) v(1) w(1) by (simp add: shuffleTablets_def)
  ultimately show ?thesis using u(2) v(2) w(2) by simp
qed


text \<open>
  Shuffling keeps the tablets (each as often as before) and puts every tablet of the local
  cell before every other one, whatever the random numbers are. It never panics when every tablet
  has an alias.
\<close>

theorem shuffle_prefers_local_cell:
  assumes "\<forall>t \<in> set tablets. has_alias t" "intn_ok intn"
  shows "\<exists>shuffled k'. shuffleTablets intn k cell tablets = Ret (shuffled, k') \<and> mset shuffled = mset tablets \<and>
    (\<exists>n. (\<forall>t \<in> set (take n shuffled). in_cell cell t) \<and> (\<forall>t \<in> set (drop n shuffled). \<not> in_cell cell t))"
  by (rule shuffleTablets_sorts [OF assms])

section \<open>The choice\<close>

text \<open>
  What is known of the sorting routine: it permutes the slice, it panics only where the comparison
  panics, and it sorts by a strict weak order.
\<close>

definition osort_func :: "'a osorter \<Rightarrow> bool" where
  "osort_func srt \<longleftrightarrow> (\<forall>less xs ys. srt less xs = Ret ys \<longrightarrow> mset ys = mset xs) \<and>
     (\<forall>less xs. (\<forall>a \<in> set xs. \<forall>b \<in> set xs. less a b \<noteq> Panic) \<longrightarrow> srt less xs \<noteq> Panic) \<and>
     (\<forall>less lt xs ys. strict_weak lt \<longrightarrow> (\<forall>a \<in> set xs. \<forall>b \<in> set xs. less a b = Ret (lt a b)) \<longrightarrow>
        srt less xs = Ret ys \<longrightarrow> sorted_wrt (\<lambda>a b. \<not> lt b a) ys)"

lemmas osort_func_sorted = osort_func_def [THEN iffD1, THEN conjunct2, THEN conjunct2, rule_format]

text \<open>A tablet whose health record has the parts the balancers read.\<close>

definition healthy :: "'c tablet_health \<Rightarrow> bool" where
  "healthy t \<longleftrightarrow> has_alias t \<and> (case thStats t of None \<Rightarrow> False | Some s \<Rightarrow> MysqlThreadStats s \<noteq> None)"

lemma obind_not_Panic: "m \<noteq> Panic \<Longrightarrow> (\<And>a. f a \<noteq> Panic) \<Longrightarrow> obind m f \<noteq> Panic"
  by (cases m) auto

lemma ptr_Some [simp]: "ptr (Some a) = Ret a"
  by (simp add: ptr_def)

lemma healthyE:
  assumes "healthy t"
  obtains tb al s ms where "thTablet t = Some tb" "tAlias tb = Some al" "thStats t = Some s" "MysqlThreadStats s = Some ms"
  using assms by (auto simp: healthy_def has_alias_def split: option.splits)

lemma by_cell_not_Panic: "cmp a b \<noteq> Panic \<Longrightarrow> by_cell cell cmp a b \<noteq> Panic"
  by (simp add: by_cell_def)

lemma tablet_status_healthy: "healthy t \<Longrightarrow> tablet_status gw t \<noteq> Panic"
  by (auto elim!: healthyE simp: tablet_status_def)

lemma srt_permutes:
  assumes "osort_func srt" "\<forall>t \<in> set ts. healthy t" "\<And>a b. healthy a \<Longrightarrow> healthy b \<Longrightarrow> cmp a b \<noteq> Panic"
  shows "\<exists>us. srt cmp ts = Ret us \<and> mset us = mset ts"
proof (cases "srt cmp ts")
  case (Ret us)
  then show ?thesis using assms(1) unfolding osort_func_def by blast
next
  case Panic
  have "\<forall>a \<in> set ts. \<forall>b \<in> set ts. cmp a b \<noteq> Panic" using assms(2,3) by blast
  then show ?thesis using Panic assms(1) unfolding osort_func_def by meson
qed

lemma balancers_permute:
  assumes srt: "osort_func srt" and ok: "\<forall>t \<in> set ts. healthy t"
  shows "\<exists>us. leastTabletInUseConnections srt gw ts = Ret us \<and> mset us = mset ts"
    "\<exists>us. leastMysqlRunningConnections srt gw ts = Ret us \<and> mset us = mset ts"
    "\<exists>us. leastMysqlConnectedConnections srt gw ts = Ret us \<and> mset us = mset ts"
    "\<exists>us. leastGlobalQPSLoadBalancer srt gw ts = Ret us \<and> mset us = mset ts"
    "\<exists>us. leastQPSLoadBalancer srt gw ts = Ret us \<and> mset us = mset ts"
    "\<exists>us. leastRTLoadBalancer srt gw ts = Ret us \<and> mset us = mset ts"
    "\<exists>us. leastBehindPrimaryLoadBalancer srt gw ts = Ret us \<and> mset us = mset ts"
proof -
  have two: "obind (ptr (thStats a)) (\<lambda>sa. obind (ptr (MysqlThreadStats sa)) (\<lambda>ma.
      obind (ptr (thStats b)) (\<lambda>sb. obind (ptr (MysqlThreadStats sb)) (\<lambda>mb. Ret (f ma mb))))) \<noteq> Panic"
    if "healthy a" "healthy b" for a b and f :: "mysql_threads_stats \<Rightarrow> mysql_threads_stats \<Rightarrow> bool"
    using that by (auto elim!: healthyE)
  have one: "obind (ptr (thStats a)) (\<lambda>sa. obind (ptr (thStats b)) (\<lambda>sb. Ret (f sa sb))) \<noteq> Panic"
    if "healthy a" "healthy b" for a b and f :: "realtime_stats \<Rightarrow> realtime_stats \<Rightarrow> bool"
    using that by (auto elim!: healthyE)
  have stat: "obind (tablet_status gw a) (\<lambda>sa. obind (tablet_status gw b) (\<lambda>sb. g sa sb)) \<noteq> Panic"
    if "healthy a" "healthy b" "\<And>sa sb. g sa sb \<noteq> Panic" for a b and g :: "tablet_cache_status option \<Rightarrow> tablet_cache_status option \<Rightarrow> bool outcome"
    using that tablet_status_healthy by (metis obind_not_Panic)
  have p: "\<exists>us. (if ts = [] then Ret ts else srt cmp ts) = Ret us \<and> mset us = mset ts"
    if "\<And>a b. healthy a \<Longrightarrow> healthy b \<Longrightarrow> cmp a b \<noteq> Panic" for cmp
    using srt_permutes [OF srt ok that] by (cases "ts = []") simp_all
  show "\<exists>us. leastTabletInUseConnections srt gw ts = Ret us \<and> mset us = mset ts"
    unfolding leastTabletInUseConnections_def by (intro p by_cell_not_Panic one two stat; simp add: by_cell_not_Panic split: option.split)
  show "\<exists>us. leastMysqlRunningConnections srt gw ts = Ret us \<and> mset us = mset ts"
    unfolding leastMysqlRunningConnections_def by (intro p by_cell_not_Panic one two stat; simp add: by_cell_not_Panic split: option.split)
  show "\<exists>us. leastMysqlConnectedConnections srt gw ts = Ret us \<and> mset us = mset ts"
    unfolding leastMysqlConnectedConnections_def by (intro p by_cell_not_Panic one two stat; simp add: by_cell_not_Panic split: option.split)
  show "\<exists>us. leastGlobalQPSLoadBalancer srt gw ts = Ret us \<and> mset us = mset ts"
    unfolding leastGlobalQPSLoadBalancer_def by (intro p by_cell_not_Panic one two stat; simp add: by_cell_not_Panic split: option.split)
  show "\<exists>us. leastQPSLoadBalancer srt gw ts = Ret us \<and> mset us = mset ts"
    unfolding leastQPSLoadBalancer_def by (intro p by_cell_not_Panic one two stat; simp add: by_cell_not_Panic split: option.split)
  show "\<exists>us. leastRTLoadBalancer srt gw ts = Ret us \<and> mset us = mset ts"
    unfolding leastRTLoadBalancer_def by (intro p by_cell_not_Panic one two stat; simp add: by_cell_not_Panic split: option.split)
  show "\<exists>us. leastBehindPrimaryLoadBalancer srt gw ts = Ret us \<and> mset us = mset ts"
    unfolding leastBehindPrimaryLoadBalancer_def by (intro p by_cell_not_Panic one two stat; simp add: by_cell_not_Panic split: option.split)
qed


lemma loadBalance_chooses:
  assumes "osort_func srt" "intn_ok intn" "\<forall>t \<in> set ts. healthy t" "ts \<noteq> []"
  shows "\<exists>t k'. loadBalance srt intn k gw ts options = Ret (Some t, k') \<and> t \<in> set ts"
proof -
  have pick: "\<exists>t k'. obind m (\<lambda>(ts, k'). case ts of [] \<Rightarrow> Panic | t # _ \<Rightarrow> Ret (Some t, k')) = Ret (Some t, k') \<and> t \<in> set ts"
    if m: "m = Ret (us, k')" and "mset us = mset ts" for m :: "('a tablet_health list \<times> nat) outcome" and us k'
  proof -
    obtain u us' where us: "us = u # us'" using \<open>mset us = mset ts\<close> \<open>ts \<noteq> []\<close> by (cases us) auto
    then have "u \<in> set ts" using \<open>mset us = mset ts\<close> by (metis list.set_intros(1) set_mset_mset)
    then show ?thesis by (simp add: m us)
  qed
  have rnd: "\<exists>us k'. randomLoadBalancer intn k gw ts = Ret (us, k') \<and> mset us = mset ts"
    using shuffleTablets_sorts [OF _ assms(2), of ts k "localCell gw"] assms(3,4) by (auto simp: randomLoadBalancer_def healthy_def)
  have keep: "\<exists>us k'. obind m (\<lambda>ts. Ret (ts, k)) = Ret (us, k') \<and> mset us = mset ts" if "\<exists>us. m = Ret us \<and> mset us = mset ts" for m
    using that by auto
  note perm = balancers_permute [OF assms(1,3), of gw, THEN keep]
  show ?thesis unfolding loadBalance_def Let_def if_not_P [OF assms(4)]
    using rnd perm pick by (auto split: load_balance_policy.split option.split)
qed

text \<open>The tablets that satisfy the threshold of the options.\<close>

definition satisfying :: "interval sorter \<Rightarrow> gateway \<Rightarrow> execute_options option \<Rightarrow> 'c tablet_health \<Rightarrow> bool" where
  "satisfying sf gw options t \<longleftrightarrow> (\<exists>opts pos. options = Some opts \<and> ReadAfterWriteGtid opts \<noteq> [] \<and>
     ParsePosition sf (lsFlavor (lastSeenGtid gw)) (ReadAfterWriteGtid opts) = Inr pos \<and> AtLeast (thPosition t) pos)"

lemma filter_satisfying: "filterAdvisorByGTIDThreshold sf gw ts options = filter (satisfying sf gw options) ts"
  by (auto simp: filterAdvisorByGTIDThreshold_def satisfying_def intro!: filter_cong split: option.split sum.split)

lemma PickTablet_cases:
  assumes "osort_func srt" "intn_ok intn" "\<forall>t \<in> set available. healthy t"
  shows "\<exists>res options' k'. PickTablet sf srt intn k gw available options = Ret (res, options', k') \<and>
    (case res of Inl e \<Rightarrow> available = [] \<and> options' = options
     | Inr t \<Rightarrow> t \<in> set available \<and>
         (if \<exists>u \<in> set available. satisfying sf gw options u
          then satisfying sf gw options t \<and> options' = map_option (\<lambda>opts. opts\<lparr>ReadAfterWriteGtid := []\<rparr>) options
          else options' = options))"
proof (cases "available = []")
  case True
  then show ?thesis by (simp add: PickTablet_def)
next
  case False
  let ?f = "filter (satisfying sf gw options) available"
  let ?c = "if ?f \<noteq> [] then ?f else available"
  let ?o = "if ?f \<noteq> [] then map_option (\<lambda>opts. opts\<lparr>ReadAfterWriteGtid := []\<rparr>) options else options"
  have "\<forall>t \<in> set ?c. healthy t" "?c \<noteq> []" using assms(3) False by auto
  from loadBalance_chooses [OF assms(1,2) this] obtain t k' where
    t: "loadBalance srt intn k gw ?c ?o = Ret (Some t, k')" "t \<in> set ?c" by blast
  have "PickTablet sf srt intn k gw available options = Ret (Inr t, ?o, k')"
    using t(1) False unfolding PickTablet_def filter_satisfying Let_def by simp
  moreover have "?f \<noteq> [] \<longleftrightarrow> (\<exists>u \<in> set available. satisfying sf gw options u)" by (simp add: filter_empty_conv)
  ultimately show ?thesis using t(2) by (auto split: if_splits)
qed

text \<open>
  C5. Picking a tablet fails exactly when none is available. Otherwise the tablet it returns is an
  available one, and it has reached the read-after-write position of the statement whenever some
  available tablet has; then, and only then, the position is cleared from the options, so the
  tablet need not wait for it.
\<close>

theorem picked_tablet_is_fresh:
  assumes "osort_func srt" "intn_ok intn" "\<forall>t \<in> set available. healthy t"
  shows "\<exists>res options' k'. PickTablet sf srt intn k gw available options = Ret (res, options', k') \<and>
    (case res of Inl e \<Rightarrow> available = [] \<and> options' = options
     | Inr t \<Rightarrow> t \<in> set available \<and>
         (if \<exists>u \<in> set available. satisfying sf gw options u
          then satisfying sf gw options t \<and> options' = map_option (\<lambda>opts. opts\<lparr>ReadAfterWriteGtid := []\<rparr>) options
          else options' = options))"
  by (rule PickTablet_cases [OF assms])


lemma strict_weak_lex: "strict_weak (\<lambda>a b. f a < f b \<or> f a = f b \<and> g a < g b)"
  for f g :: "'a \<Rightarrow> int"
  unfolding strict_weak_def by (intro conjI allI impI) linarith+

text \<open>
  Two tablets of different cells other than the local one are each less than the other, and all
  comparisons but the one of the connected connections make a tablet less than itself. Neither is
  a strict order, so nothing is known of the order the routine leaves.
\<close>

lemma remote_cells_not_ordered:
  assumes "GetCell (thTarget a) \<noteq> GetCell (thTarget b)" "GetCell (thTarget a) \<noteq> cell" "GetCell (thTarget b) \<noteq> cell"
  shows "by_cell cell cmp a b = Ret True \<and> by_cell cell cmp b a = Ret True"
  using assms by (simp add: by_cell_def)

text \<open>The number of connections the balancer compares.\<close>

definition connected :: "'c tablet_health \<Rightarrow> int" where
  "connected t = Connected (the (MysqlThreadStats (the (thStats t))))"

text \<open>
  With the policy of the least connected connections, when the candidates outside the local
  cell are all in one cell: a tablet of the local cell is chosen if there is one, and no candidate
  of the same cell has fewer connections than the chosen one.
\<close>

theorem least_connected_is_chosen:
  assumes srt: "osort_func srt" and ok: "\<forall>t \<in> set ts. healthy t" "ts \<noteq> []"
    and cells: "\<forall>t \<in> set ts. GetCell (thTarget t) \<in> {localCell gw, remote}"
    and pol: "LoadBalancePolicy opts = LEAST_MYSQL_CONNECTED_CONNECTIONS"
  shows "\<exists>t. loadBalance srt intn k gw ts (Some opts) = Ret (Some t, k) \<and> t \<in> set ts \<and>
    ((\<exists>u \<in> set ts. GetCell (thTarget u) = localCell gw) \<longrightarrow> GetCell (thTarget t) = localCell gw) \<and>
    (\<forall>u \<in> set ts. GetCell (thTarget u) = GetCell (thTarget t) \<longrightarrow> connected t \<le> connected u)"
proof -
  define cell where "cell t = GetCell (thTarget t)" for t :: "'a tablet_health"
  define rank where "rank t = (if cell t = localCell gw then (0 :: int) else 1)" for t
  define lt where "lt = (\<lambda>a b. rank a < rank b \<or> rank a = rank b \<and> connected a < connected b)"
  have sw: "strict_weak lt" unfolding lt_def by (rule strict_weak_lex)
  define cmp :: "'a tablet_health \<Rightarrow> 'a tablet_health \<Rightarrow> bool outcome" where "cmp = by_cell (localCell gw) (\<lambda>a b.
      obind (ptr (thStats a)) (\<lambda>sa. obind (ptr (MysqlThreadStats sa)) (\<lambda>ma.
      obind (ptr (thStats b)) (\<lambda>sb. obind (ptr (MysqlThreadStats sb)) (\<lambda>mb. Ret (Connected ma < Connected mb))))))"
  have cmp: "cmp a b = Ret (lt a b)" if ab: "a \<in> set ts" "b \<in> set ts" for a b
  proof -
    have h: "healthy a" "healthy b" using ab ok(1) by auto
    obtain sa ma where sa: "thStats a = Some sa" "MysqlThreadStats sa = Some ma" using h(1) by (rule healthyE)
    obtain sb mb where sb: "thStats b = Some sb" "MysqlThreadStats sb = Some mb" using h(2) by (rule healthyE)
    have c: "cell a \<in> {localCell gw, remote}" "cell b \<in> {localCell gw, remote}" using ab cells by (auto simp: cell_def)
    have "cmp a b = (if cell a = cell b then Ret (connected a < connected b) else if cell a = localCell gw then Ret True
        else if cell b = localCell gw then Ret False else Ret True)"
      by (simp add: cmp_def by_cell_def connected_def sa sb cell_def)
    then show ?thesis using c by (auto simp: lt_def rank_def)
  qed
  obtain us where us: "leastMysqlConnectedConnections srt gw ts = Ret us" "mset us = mset ts" using balancers_permute(3) [OF srt ok(1)] by blast
  have srtd: "srt cmp ts = Ret us" using us(1) ok(2) by (simp add: leastMysqlConnectedConnections_def cmp_def)
  have sorted: "sorted_wrt (\<lambda>a b. \<not> lt b a) us" by (rule osort_func_sorted [OF srt sw cmp srtd])
  obtain t us' where t: "us = t # us'" using us(2) ok(2) by (cases us) auto
  have mem: "set us = set ts" using us(2) by (metis set_mset_mset)
  have least: "\<not> lt u t" if u: "u \<in> set ts" for u
  proof -
    have "u = t \<or> u \<in> set us'" using u mem t by auto
    moreover have "\<not> lt t t" using sw by (simp add: strict_weak_def)
    ultimately show ?thesis using sorted t by auto
  qed
  have "loadBalance srt intn k gw ts (Some opts) = Ret (Some t, k)" using us(1) t ok(2) pol by (simp add: loadBalance_def)
  moreover have "t \<in> set ts" using mem t by auto
  moreover have "cell t = localCell gw" if "u \<in> set ts" "cell u = localCell gw" for u
    using least [OF that(1)] that(2) by (simp add: lt_def rank_def split: if_splits)
  moreover have "connected t \<le> connected u" if "u \<in> set ts" "cell u = cell t" for u
    using least [OF that(1)] that(2) by (simp add: lt_def rank_def)
  ultimately show ?thesis unfolding cell_def by blast
qed

section \<open>A sorting routine and random numbers that meet the hypotheses\<close>

fun oinsert :: "('a \<Rightarrow> 'a \<Rightarrow> bool outcome) \<Rightarrow> 'a \<Rightarrow> 'a list \<Rightarrow> 'a list outcome" where
  "oinsert cmp x [] = Ret [x]"
| "oinsert cmp x (y # ys) = (case cmp x y of Panic \<Rightarrow> Panic
     | Ret b \<Rightarrow> (if b then Ret (x # y # ys) else obind (oinsert cmp x ys) (\<lambda>zs. Ret (y # zs))))"

fun oisort :: "'a osorter" where
  "oisort cmp [] = Ret []"
| "oisort cmp (x # xs) = obind (oisort cmp xs) (oinsert cmp x)"

lemma oinsert_mset: "oinsert cmp x xs = Ret ys \<Longrightarrow> mset ys = add_mset x (mset xs)"
  by (induction xs arbitrary: ys) (auto simp: obind_eq_Ret split: outcome.splits if_splits)

lemma oisort_mset: "oisort cmp xs = Ret ys \<Longrightarrow> mset ys = mset xs"
  by (induction xs arbitrary: ys) (auto simp: obind_eq_Ret dest: oinsert_mset)

lemma oinsert_returns: "\<forall>y \<in> set xs. cmp x y \<noteq> Panic \<Longrightarrow> oinsert cmp x xs \<noteq> Panic"
proof (induction xs)
  case (Cons y xs)
  then obtain b zs where "cmp x y = Ret b" "oinsert cmp x xs = Ret zs" by (cases "cmp x y"; cases "oinsert cmp x xs") auto
  then show ?case by simp
qed simp

lemma oisort_returns: "\<forall>a \<in> set xs. \<forall>b \<in> set xs. cmp a b \<noteq> Panic \<Longrightarrow> oisort cmp xs \<noteq> Panic"
proof (induction xs)
  case (Cons x xs)
  then obtain ys where ys: "oisort cmp xs = Ret ys" by (cases "oisort cmp xs") auto
  then have "set ys = set xs" using oisort_mset by (metis set_mset_mset)
  then show ?case using ys Cons.prems oinsert_returns [of ys cmp x] by simp
qed simp

lemma oinsert_sorted:
  assumes "strict_weak lt" "\<forall>y \<in> set xs. cmp x y = Ret (lt x y)" "sorted_wrt (\<lambda>a b. \<not> lt b a) xs" "oinsert cmp x xs = Ret ys"
  shows "sorted_wrt (\<lambda>a b. \<not> lt b a) ys"
  using assms(2-)
proof (induction xs arbitrary: ys)
  case (Cons y xs)
  show ?case
  proof (cases "lt x y")
    case True
    then have "ys = x # y # xs" using Cons.prems by simp
    moreover have "\<not> lt z x" if "z \<in> set (y # xs)" for z
      using that True Cons.prems(2) assms(1) unfolding strict_weak_def by (metis list.set_intros(1) set_ConsD sorted_wrt.simps(2))
    ultimately show ?thesis using Cons.prems(2) by auto
  next
    case False
    then obtain zs where zs: "oinsert cmp x xs = Ret zs" "ys = y # zs" using Cons.prems by (auto simp: obind_eq_Ret)
    have "set zs = insert x (set xs)" using oinsert_mset [OF zs(1)] by (metis set_mset_add_mset_insert set_mset_mset)
    then show ?thesis using Cons.IH [OF _ _ zs(1)] Cons.prems False zs(2) by auto
  qed
qed simp

lemma osort_func_oisort: "osort_func oisort"
proof -
  have "sorted_wrt (\<lambda>a b. \<not> lt b a) ys" if "strict_weak lt" "\<forall>a \<in> set xs. \<forall>b \<in> set xs. cmp a b = Ret (lt a b)" "oisort cmp xs = Ret ys"
    for cmp and lt :: "'a \<Rightarrow> 'a \<Rightarrow> bool" and xs ys
    using that(2,3)
  proof (induction xs arbitrary: ys)
    case (Cons x xs)
    then obtain zs where zs: "oisort cmp xs = Ret zs" "oinsert cmp x zs = Ret ys" by (auto simp: obind_eq_Ret)
    have "set zs = set xs" using oisort_mset [OF zs(1)] by (metis set_mset_mset)
    then show ?case using Cons.prems by (intro oinsert_sorted [OF that(1) _ _ zs(2)] Cons.IH [OF _ zs(1)]) auto
  qed simp
  then show ?thesis unfolding osort_func_def using oisort_mset oisort_returns by blast
qed

lemma intn_ok_zero: "intn_ok (\<lambda>k n. 0)"
  by (simp add: intn_ok_def)

definition sample_tablet :: "string \<Rightarrow> int \<Rightarrow> position \<Rightarrow> unit tablet_health" where
  "sample_tablet cell n pos = \<lparr>thConn = Some (), thTablet = Some \<lparr>tAlias = Some \<lparr>aliasCell = cell, aliasUid = word_of_int n\<rparr>, tType = 2\<rparr>,
     thTarget = Some \<lparr>tgCell = cell, tgTabletType = 2\<rparr>,
     thStats = Some \<lparr>Qps = 0, MysqlThreadStats = Some \<lparr>Connected = n, Running = n\<rparr>, TabletThreadsStats = n\<rparr>, thPosition = pos\<rparr>"

definition sample_gateway :: gateway where
  "sample_gateway = \<lparr>localCell = ''a'', retryCount = 2, lastSeenGtid = \<lparr>lsFlavor = FilePosFlavorID, lsSet = None\<rparr>, tabletStatusMap = []\<rparr>"

lemma sample_tablet_simps:
  "healthy (sample_tablet cell n pos)" "has_alias (sample_tablet cell n pos)" "in_cell c (sample_tablet cell n pos) = (cell = c)"
  "connected (sample_tablet cell n pos) = n" "GetCell (thTarget (sample_tablet cell n pos)) = cell"
  by (simp_all add: healthy_def has_alias_def in_cell_def sample_tablet_def connected_def GetCell_def)

theorem shuffle_prefers_local_cell_witness:
  "\<exists>shuffled k'. shuffleTablets (\<lambda>k n. 0) 0 ''a'' [sample_tablet ''b'' 1 None, sample_tablet ''a'' 2 None] = Ret (shuffled, k') \<and> length shuffled = 2"
proof -
  have "\<forall>t \<in> set [sample_tablet ''b'' 1 None, sample_tablet ''a'' 2 None]. has_alias t" by (simp add: sample_tablet_simps)
  from shuffle_prefers_local_cell [OF this intn_ok_zero, of 0 "''a''"] obtain us k' where
    "shuffleTablets (\<lambda>k n. 0) 0 ''a'' [sample_tablet ''b'' 1 None, sample_tablet ''a'' 2 None] = Ret (us, k')"
    "mset us = mset [sample_tablet ''b'' 1 None, sample_tablet ''a'' 2 None]" by blast
  moreover from this(2) have "length us = 2" by (metis length_Cons list.size(3) mset_eq_length numeral_2_eq_2)
  ultimately show ?thesis by blast
qed

theorem picked_tablet_is_fresh_witness:
  "\<exists>t options' k'. PickTablet insertion_sort oisort (\<lambda>k n. 0) 0 sample_gateway [sample_tablet ''b'' 1 None, sample_tablet ''a'' 2 None] None = Ret (Inr t, options', k') \<and>
     t \<in> {sample_tablet ''b'' 1 None, sample_tablet ''a'' 2 None}"
proof -
  have "\<forall>t \<in> set [sample_tablet ''b'' 1 None, sample_tablet ''a'' 2 None]. healthy t" by (simp add: sample_tablet_simps)
  from picked_tablet_is_fresh [OF osort_func_oisort intn_ok_zero this, of insertion_sort 0 sample_gateway None] show ?thesis
    by (elim exE conjE) (rename_tac res options' k', case_tac res; auto)
qed

theorem least_connected_is_chosen_witness:
  "loadBalance oisort (\<lambda>k n. 0) 0 sample_gateway [sample_tablet ''b'' 1 None, sample_tablet ''a'' 3 None, sample_tablet ''a'' 2 None]
     (Some \<lparr>ReadAfterWriteGtid = [], LoadBalancePolicy = LEAST_MYSQL_CONNECTED_CONNECTIONS, CanLoadBalanceBetweenReplicAndRdonly = False, TabletInfoToDisplay = None\<rparr>) =
   Ret (Some (sample_tablet ''a'' 2 None), 0)"
  using least_connected_is_chosen [OF osort_func_oisort, of "[sample_tablet ''b'' 1 None, sample_tablet ''a'' 3 None, sample_tablet ''a'' 2 None]" sample_gateway "''b''"
      "\<lparr>ReadAfterWriteGtid = [], LoadBalancePolicy = LEAST_MYSQL_CONNECTED_CONNECTIONS, CanLoadBalanceBetweenReplicAndRdonly = False, TabletInfoToDisplay = None\<rparr>" "\<lambda>k n. 0" 0]
  by (auto simp: sample_tablet_simps sample_gateway_def)

end
