(* ===== verification/TabletGateway.thy ===== *)
theory TabletGateway
  imports LoadBalance
begin

text \<open>
  \<open>withRetry\<close> of \<open>tabletgateway.go\<close>: a statement is tried on one tablet after another. What the
  health check offers, what the keyspace watcher and the failover buffer answer, and what the
  statement returns on a connection are arguments, given per attempt, so the theorems hold for
  every behaviour of them. \<open>invalidTablets\<close> is keyed by the printed alias.
\<close>

section \<open>Aliases\<close>

definition pad10 :: "string \<Rightarrow> string" where
  "pad10 s = replicate (10 - length s) CHR ''0'' @ s"

definition TabletAliasString :: "tablet_alias option \<Rightarrow> string" where
  "TabletAliasString ta = (case ta of None \<Rightarrow> ''<nil>'' | Some a \<Rightarrow> aliasCell a @ CHR ''-'' # pad10 (nat_dec (unat (aliasUid a))))"

section \<open>One attempt\<close>

definition TabletType_PRIMARY :: int where
  "TabletType_PRIMARY = 1"

record 'c retry_env =
  waitForFailoverEnd :: "nat \<Rightarrow> gateway_error option \<Rightarrow> bool \<times> gateway_error option"
  healthyTablets :: "nat \<Rightarrow> bool \<Rightarrow> 'c tablet_health list"
  keyspaceEvents :: "nat \<Rightarrow> (bool \<times> bool) option"
  innerCall :: "nat \<Rightarrow> 'c \<Rightarrow> execute_options option \<Rightarrow> bool \<times> gateway_error option"

text \<open>
  The variables of the loop; \<open>rTrace\<close> records the tablets the statement was sent to, with the
  options of that moment.
\<close>

record 'c retry_state =
  rErr :: "gateway_error option"
  rInvalid :: "(string, bool) gomap"
  rBuffered :: bool
  rOptions :: "execute_options option"
  rDraws :: nat
  rTrace :: "('c tablet_health \<times> execute_options option) list"

fun skip_invalid :: "(string, bool) gomap \<Rightarrow> 'c tablet_health list \<Rightarrow> 'c tablet_health list outcome" where
  "skip_invalid invalid [] = Ret []"
| "skip_invalid invalid (t # ts) =
     obind (ptr (thTablet t)) (\<lambda>tb. obind (skip_invalid invalid ts) (\<lambda>rest.
       Ret (if map_of invalid (TabletAliasString (tAlias tb)) \<noteq> None then rest else t # rest)))"

text \<open>From the choice of a tablet to the end of the loop body; the flag says whether the loop goes on.\<close>

definition attempt_on :: "'c retry_env \<Rightarrow> nat \<Rightarrow> 'c tablet_health \<Rightarrow> 'c retry_state \<Rightarrow> (bool \<times> 'c retry_state) outcome" where
  "attempt_on env i th st =
     (let opts = (case thTablet th of None \<Rightarrow> rOptions st
                  | Some tb \<Rightarrow> map_option (\<lambda>o'. o'\<lparr>TabletInfoToDisplay := Some (tAlias tb, tType tb)\<rparr>) (rOptions st)) in
      case thConn th of
        None \<Rightarrow> obind (ptr (thTablet th)) (\<lambda>tb.
          Ret (True, st\<lparr>rOptions := opts, rErr := Some NoConn, rInvalid := mput (TabletAliasString (tAlias tb)) True (rInvalid st)\<rparr>))
      | Some conn \<Rightarrow>
          let (canRetry, err) = innerCall env i conn opts in
          obind (ptr (thTablet th)) (\<lambda>tb. obind (ptr (tAlias tb)) (\<lambda>al.
            Ret (canRetry, st\<lparr>rOptions := opts, rErr := err, rTrace := rTrace st @ [(th, opts)],
              rInvalid := (if canRetry then mput (TabletAliasString (tAlias tb)) True (rInvalid st) else rInvalid st)\<rparr>))))"

definition attempt :: "interval sorter \<Rightarrow> 'c tablet_health osorter \<Rightarrow> (nat \<Rightarrow> int \<Rightarrow> int) \<Rightarrow> gateway \<Rightarrow> 'c retry_env \<Rightarrow> nat \<Rightarrow> 'c retry_state \<Rightarrow>
    (bool \<times> 'c retry_state) outcome" where
  "attempt sf srt intn gw env i st =
     (let tablets = healthyTablets env i (case rOptions st of None \<Rightarrow> False | Some opts \<Rightarrow> CanLoadBalanceBetweenReplicAndRdonly opts) in
      if tablets = [] then
        Ret (case keyspaceEvents env i of
               Some (True, _) \<Rightarrow> (True, st\<lparr>rErr := Some BeingResharded\<rparr>)
             | Some (False, True) \<Rightarrow> (True, st\<lparr>rErr := Some PrimaryNotServing\<rparr>)
             | _ \<Rightarrow> (False, st\<lparr>rErr := Some NoHealthyTablet\<rparr>))
      else
        obind (skip_invalid (rInvalid st) tablets) (\<lambda>availableTablets.
        obind (PickTablet sf srt intn (rDraws st) gw availableTablets (rOptions st)) (\<lambda>(res, options', k').
          let st1 = st\<lparr>rOptions := options', rDraws := k'\<rparr> in
          case res of
            Inl e \<Rightarrow> Ret (False, st1\<lparr>rErr := (if rErr st1 = None then Some e else rErr st1)\<rparr>)
          | Inr th \<Rightarrow> attempt_on env i th st1)))"

definition retry_body :: "interval sorter \<Rightarrow> 'c tablet_health osorter \<Rightarrow> (nat \<Rightarrow> int \<Rightarrow> int) \<Rightarrow> gateway \<Rightarrow> 'c retry_env \<Rightarrow> target \<Rightarrow> bool \<Rightarrow>
    nat \<Rightarrow> 'c retry_state \<Rightarrow> (bool \<times> 'c retry_state) outcome" where
  "retry_body sf srt intn gw env target inTransaction i st =
     (if \<not> rBuffered st \<and> \<not> inTransaction \<and> tgTabletType target = TabletType_PRIMARY then
        let (retryDone, bufferErr) = waitForFailoverEnd env i (rErr st);
            st1 = st\<lparr>rBuffered := rBuffered st \<or> retryDone\<rparr> in
        case bufferErr of
          Some e \<Rightarrow> Ret (False, st1\<lparr>rErr := Some (BufferFailed e (rErr st1))\<rparr>)
        | None \<Rightarrow> attempt sf srt intn gw env i st1
      else attempt sf srt intn gw env i st)"

function retry_loop :: "(nat \<Rightarrow> 's \<Rightarrow> (bool \<times> 's) outcome) \<Rightarrow> int \<Rightarrow> nat \<Rightarrow> 's \<Rightarrow> 's outcome" where
  "retry_loop body bound i st =
     (if int i < bound then
        (case body i st of Panic \<Rightarrow> Panic | Ret (again, st') \<Rightarrow> (if again then retry_loop body bound (Suc i) st' else Ret st'))
      else Ret st)"
  by pat_completeness auto

termination
  by (relation "measure (\<lambda>(_, bound, i, _). nat (bound - int i))") auto

declare retry_loop.simps [simp del]

definition NewShardError :: "gateway_error option \<Rightarrow> target \<Rightarrow> gateway_error option" where
  "NewShardError err target = map_option (\<lambda>e. ShardError e target) err"

definition new_retry_state :: "nat \<Rightarrow> execute_options option \<Rightarrow> 'c retry_state" where
  "new_retry_state k options = \<lparr>rErr = None, rInvalid = [], rBuffered = False, rOptions = options, rDraws = k, rTrace = []\<rparr>"

definition withRetry :: "interval sorter \<Rightarrow> 'c tablet_health osorter \<Rightarrow> (nat \<Rightarrow> int \<Rightarrow> int) \<Rightarrow> nat \<Rightarrow> gateway \<Rightarrow> int list \<Rightarrow> 'c retry_env \<Rightarrow> target \<Rightarrow> bool \<Rightarrow>
    execute_options option \<Rightarrow> (gateway_error option \<times> 'c retry_state) outcome" where
  "withRetry sf srt intn k gw allowedTabletTypes env target inTransaction options =
     (let st0 = new_retry_state k options in
      if inTransaction \<and> tgTabletType target \<noteq> TabletType_PRIMARY then Ret (Some TxOnReplica, st0)
      else if allowedTabletTypes \<noteq> [] \<and> tgTabletType target \<notin> set allowedTabletTypes then Ret (Some (TypeNotAllowed (tgTabletType target)), st0)
      else obind (retry_loop (retry_body sf srt intn gw env target inTransaction) (add64 (retryCount gw) 1) 0 st0) (\<lambda>st.
        Ret (NewShardError (rErr st) target, st)))"


section \<open>Attempts\<close>

definition alias_of :: "'c tablet_health \<Rightarrow> string" where
  "alias_of t = TabletAliasString (tAlias (the (thTablet t)))"

lemma skip_invalid_filter:
  "\<forall>t \<in> set ts. healthy t \<Longrightarrow> skip_invalid invalid ts = Ret (filter (\<lambda>t. map_of invalid (alias_of t) = None) ts)"
proof (induction ts)
  case (Cons t ts)
  then obtain tb where "thTablet t = Some tb" by (auto elim: healthyE)
  then show ?case using Cons by (simp add: alias_of_def)
qed simp

text \<open>
  Every tablet that was tried is marked, no tablet was tried twice, and there were at most as many
  tries as attempts.
\<close>

definition tried_ok :: "'c retry_env \<Rightarrow> nat \<Rightarrow> bool \<Rightarrow> 'c retry_state \<Rightarrow> bool" where
  "tried_ok env n marked st \<longleftrightarrow> length (rTrace st) \<le> n \<and> distinct (map (alias_of \<circ> fst) (rTrace st)) \<and>
     (\<forall>t \<in> fst ` set (rTrace st). (\<exists>i b. t \<in> set (healthyTablets env i b)) \<and> (marked \<longrightarrow> map_of (rInvalid st) (alias_of t) \<noteq> None))"

text \<open>No error is left only when the last call of the statement returned none.\<close>

definition success_ok :: "'c retry_env \<Rightarrow> 'c retry_state \<Rightarrow> bool" where
  "success_ok env st \<longleftrightarrow> (rErr st = None \<longrightarrow> rTrace st \<noteq> [] \<and>
     (\<exists>i conn. thConn (fst (last (rTrace st))) = Some conn \<and> snd (innerCall env i conn (snd (last (rTrace st)))) = None))"

lemma attempt_on_ok:
  assumes st: "tried_ok env n True st" and t: "healthy th" "th \<in> set (healthyTablets env i b)" "map_of (rInvalid st) (alias_of th) = None"
  shows "\<exists>again st'. attempt_on env i th st = Ret (again, st') \<and> tried_ok env (Suc n) again st' \<and> success_ok env st'"
proof -
  obtain tb al where tb: "thTablet th = Some tb" "tAlias tb = Some al" using t(1) by (rule healthyE)
  have al: "TabletAliasString (Some al) = alias_of th" by (simp add: alias_of_def tb)
  have old: "length (rTrace st) \<le> n" "distinct (map (alias_of \<circ> fst) (rTrace st))"
    "\<And>u. u \<in> fst ` set (rTrace st) \<Longrightarrow> (\<exists>i b. u \<in> set (healthyTablets env i b)) \<and> map_of (rInvalid st) (alias_of u) \<noteq> None"
    using st unfolding tried_ok_def by blast+
  define opts where "opts = map_option (\<lambda>o'. o'\<lparr>TabletInfoToDisplay := Some (tAlias tb, tType tb)\<rparr>) (rOptions st)"
  show ?thesis
  proof (cases "thConn th")
    case None
    let ?st = "st\<lparr>rOptions := opts, rErr := Some NoConn, rInvalid := mput (alias_of th) True (rInvalid st)\<rparr>"
    have "attempt_on env i th st = Ret (True, ?st)" by (simp add: attempt_on_def None tb al opts_def)
    moreover have "tried_ok env (Suc n) True ?st" using old unfolding tried_ok_def by auto
    ultimately show ?thesis by (auto simp: success_ok_def)
  next
    case (Some conn)
    obtain again err where call: "innerCall env i conn opts = (again, err)" by fastforce
    let ?st = "st\<lparr>rOptions := opts, rErr := err, rTrace := rTrace st @ [(th, opts)],
      rInvalid := (if again then mput (alias_of th) True (rInvalid st) else rInvalid st)\<rparr>"
    have e: "attempt_on env i th st = Ret (again, ?st)" using call by (simp add: attempt_on_def Some tb al opts_def [unfolded tb(2)] Let_def)
    have new: "alias_of th \<notin> (alias_of \<circ> fst) ` set (rTrace st)" unfolding image_comp [symmetric] using old(3) t(3) by fastforce
    have "tried_ok env (Suc n) again ?st" unfolding tried_ok_def
    proof (intro conjI ballI impI)
      show "length (rTrace ?st) \<le> Suc n" "distinct (map (alias_of \<circ> fst) (rTrace ?st))" using old(1,2) new by auto
      fix u assume u: "u \<in> fst ` set (rTrace ?st)"
      then have u': "u = th \<or> u \<in> fst ` set (rTrace st)" by auto
      then show "\<exists>i b. u \<in> set (healthyTablets env i b)" using old(3) t(2) by blast
      show "map_of (rInvalid ?st) (alias_of u) \<noteq> None" if again using u' old(3) that by auto
    qed
    moreover have "success_ok env ?st" by (simp add: success_ok_def Some) (metis call snd_conv)
    ultimately show ?thesis using e by blast
  qed
qed


lemma tried_ok_upd: "tried_ok env n m (st\<lparr>rErr := e\<rparr>) = tried_ok env n m st" "tried_ok env n m (st\<lparr>rBuffered := b\<rparr>) = tried_ok env n m st"
  "tried_ok env n m (st\<lparr>rOptions := p, rDraws := k\<rparr>) = tried_ok env n m st"
  by (simp_all add: tried_ok_def)

lemma tried_ok_weaken: "tried_ok env n True st \<Longrightarrow> tried_ok env (Suc n) m st"
  by (auto simp: tried_ok_def)

lemma PickTablet_member:
  assumes "osort_func srt" "intn_ok intn" "\<forall>t \<in> set ts. healthy t"
  shows "\<exists>res options' k'. PickTablet sf srt intn k gw ts options = Ret (res, options', k') \<and> (\<forall>t. res = Inr t \<longrightarrow> t \<in> set ts)"
  using PickTablet_cases [OF assms, of sf k gw options]
  by (elim exE conjE) (rename_tac res o' k', rule_tac x = res in exI, rule_tac x = o' in exI, rule_tac x = k' in exI, auto)

lemma attempt_ok:
  assumes srt: "osort_func srt" and rnd: "intn_ok intn" and hc: "\<And>i b. \<forall>t \<in> set (healthyTablets env i b). healthy t"
    and st: "tried_ok env n True st"
  shows "\<exists>again st'. attempt sf srt intn gw env i st = Ret (again, st') \<and> tried_ok env (Suc n) again st' \<and> success_ok env st'"
proof -
  let ?b = "case rOptions st of None \<Rightarrow> False | Some opts \<Rightarrow> CanLoadBalanceBetweenReplicAndRdonly opts"
  let ?ts = "healthyTablets env i ?b"
  let ?av = "filter (\<lambda>t. map_of (rInvalid st) (alias_of t) = None) ?ts"
  show ?thesis
  proof (cases "?ts = []")
    case True
    have w: "tried_ok env (Suc n) m (st\<lparr>rErr := Some e\<rparr>)" "success_ok env (st\<lparr>rErr := Some e\<rparr>)" for m e
      using tried_ok_weaken [OF st] by (auto simp: tried_ok_upd success_ok_def)
    show ?thesis using True w by (auto simp: attempt_def split: option.split bool.split prod.split)
  next
    case False
    obtain res options' k' where pick: "PickTablet sf srt intn (rDraws st) gw ?av (rOptions st) = Ret (res, options', k')"
      and res: "\<And>t. res = Inr t \<Longrightarrow> t \<in> set ?av"
    proof -
      have "\<forall>t \<in> set ?av. healthy t" using hc by auto
      from PickTablet_member [OF srt rnd this, of sf "rDraws st" gw "rOptions st"] show thesis using that by blast
    qed
    let ?st = "st\<lparr>rOptions := options', rDraws := k'\<rparr>"
    have eq: "attempt sf srt intn gw env i st = (case res of
        Inl e \<Rightarrow> Ret (False, ?st\<lparr>rErr := (if rErr ?st = None then Some e else rErr ?st)\<rparr>) | Inr th \<Rightarrow> attempt_on env i th ?st)"
      using False pick hc by (simp add: attempt_def skip_invalid_filter Let_def)
    have st': "tried_ok env n True ?st" using st by (simp add: tried_ok_upd)
    show ?thesis
    proof (cases res)
      case (Inl e)
      then show ?thesis using tried_ok_weaken [OF st', of False]
        by (intro exI [of _ False]) (auto simp: eq tried_ok_upd success_ok_def)
    next
      case (Inr th)
      have "th \<in> set ?ts" "map_of (rInvalid ?st) (alias_of th) = None" "healthy th" using res [OF Inr] hc by auto
      then show ?thesis using attempt_on_ok [OF st'] by (simp add: eq Inr)
    qed
  qed
qed

lemma retry_body_ok:
  assumes "osort_func srt" "intn_ok intn" "\<And>i b. \<forall>t \<in> set (healthyTablets env i b). healthy t" "tried_ok env n True st"
  shows "\<exists>again st'. retry_body sf srt intn gw env target inTx i st = Ret (again, st') \<and> tried_ok env (Suc n) again st' \<and> success_ok env st'"
proof (cases "\<not> rBuffered st \<and> \<not> inTx \<and> tgTabletType target = TabletType_PRIMARY")
  case True
  obtain d e where w: "waitForFailoverEnd env i (rErr st) = (d, e)" by fastforce
  show ?thesis
  proof (cases e)
    case None
    have "tried_ok env n True (st\<lparr>rBuffered := rBuffered st \<or> d\<rparr>)" using assms(4) by (simp add: tried_ok_upd)
    from attempt_ok [OF assms(1-3) this] show ?thesis using True w None by (simp add: retry_body_def)
  next
    case (Some x)
    then show ?thesis using True w tried_ok_weaken [OF assms(4), of False]
      by (intro exI [of _ False]) (simp add: retry_body_def success_ok_def tried_ok_def)
  qed
next
  case False
  then show ?thesis using attempt_ok [OF assms] by (auto simp: retry_body_def)
qed

lemma retry_loop_ok:
  assumes body: "\<And>n i st. tried_ok env n True st \<Longrightarrow> \<exists>again st'. body i st = Ret (again, st') \<and> tried_ok env (Suc n) again st' \<and> success_ok env st'"
    and "tried_ok env i True st" "0 < i \<Longrightarrow> success_ok env st"
  shows "\<exists>st'. retry_loop body bound i st = Ret st' \<and> (\<exists>n. tried_ok env n False st' \<and> int n \<le> max (int i) bound) \<and> (int i < bound \<or> 0 < i \<longrightarrow> success_ok env st')"
  using assms(2,3)
proof (induction "nat (bound - int i)" arbitrary: i st rule: less_induct)
  case less
  show ?case
  proof (cases "int i < bound")
    case True
    obtain again st' where b: "body i st = Ret (again, st')" "tried_ok env (Suc i) again st'" "success_ok env st'" using body [OF less.prems(1)] by blast
    show ?thesis
    proof (cases again)
      case again: True
      have "nat (bound - int (Suc i)) < nat (bound - int i)" using True by simp
      from less.hyps [OF this, of st'] b again obtain st2 where
        r: "retry_loop body bound (Suc i) st' = Ret st2" "\<exists>n. tried_ok env n False st2 \<and> int n \<le> max (int (Suc i)) bound" "success_ok env st2" by auto
      have "retry_loop body bound i st = Ret st2" using True b(1) again r(1) by (subst retry_loop.simps) simp
      moreover have "max (int (Suc i)) bound = max (int i) bound" using True by simp
      ultimately show ?thesis using r by metis
    next
      case False
      have "retry_loop body bound i st = Ret st'" using True b(1) False by (subst retry_loop.simps) simp
      moreover have "int (Suc i) \<le> max (int i) bound" using True by simp
      moreover have "tried_ok env (Suc i) False st'" using b(2) False by simp
      ultimately show ?thesis using b(3) by blast
    qed
  next
    case False
    have "retry_loop body bound i st = Ret st" using False by (subst retry_loop.simps) simp
    moreover have "tried_ok env i False st" using less.prems(1) by (simp add: tried_ok_def)
    moreover have "int i \<le> max (int i) bound" by simp
    ultimately show ?thesis using less.prems(2) False by blast
  qed
qed

text \<open>
  C8. A statement with retries is sent to at most \<open>retryCount + 1\<close> tablets, never twice to a
  tablet of the same alias, and only to tablets the health check offered. It succeeds only when its
  last call on a tablet returned no error, and it never panics.
\<close>

theorem retries_use_distinct_tablets:
  assumes "osort_func srt" "intn_ok intn" "\<forall>i b. \<forall>t \<in> set (healthyTablets env i b). healthy t"
    and "0 \<le> retryCount gw" "retryCount gw < maxInt64"
  shows "\<exists>err st. withRetry sf srt intn k gw allowed env target inTx options = Ret (err, st) \<and>
    int (length (rTrace st)) \<le> retryCount gw + 1 \<and> distinct (map (alias_of \<circ> fst) (rTrace st)) \<and>
    (\<forall>(t, opts) \<in> set (rTrace st). \<exists>i b. t \<in> set (healthyTablets env i b)) \<and>
    (err = None \<longrightarrow> rTrace st \<noteq> [] \<and>
      (\<exists>i conn. thConn (fst (last (rTrace st))) = Some conn \<and> snd (innerCall env i conn (snd (last (rTrace st)))) = None))"
proof -
  let ?st0 = "new_retry_state k options :: 'a retry_state"
  consider (refused) e where "withRetry sf srt intn k gw allowed env target inTx options = Ret (Some e, ?st0)"
    | (run) "withRetry sf srt intn k gw allowed env target inTx options =
        obind (retry_loop (retry_body sf srt intn gw env target inTx) (add64 (retryCount gw) 1) 0 ?st0) (\<lambda>st. Ret (NewShardError (rErr st) target, st))"
    unfolding withRetry_def Let_def by (metis (full_types))
  then show ?thesis
  proof cases
    case refused
    then show ?thesis using assms(4) by (simp add: new_retry_state_def)
  next
    case run
    have "tried_ok env 0 True ?st0" by (simp add: tried_ok_def new_retry_state_def)
    moreover have "\<exists>again st'. retry_body sf srt intn gw env target inTx i st = Ret (again, st') \<and> tried_ok env (Suc n) again st' \<and> success_ok env st'"
      if "tried_ok env n True st" for n i st using retry_body_ok [OF assms(1,2) _ that] assms(3) by blast
    ultimately obtain st n where st: "retry_loop (retry_body sf srt intn gw env target inTx) (add64 (retryCount gw) 1) 0 ?st0 = Ret st"
      "tried_ok env n False st" "int n \<le> max 0 (add64 (retryCount gw) 1)" "0 < add64 (retryCount gw) 1 \<longrightarrow> success_ok env st"
      using retry_loop_ok [of env "retry_body sf srt intn gw env target inTx" 0 ?st0 "add64 (retryCount gw) 1"] by auto
    have "add64 (retryCount gw) 1 = retryCount gw + 1" using assms(4,5) by (simp add: add64_id maxInt64_def)
    then have n: "int n \<le> retryCount gw + 1" and ok: "success_ok env st" using st(3,4) assms(4) by auto
    have w: "withRetry sf srt intn k gw allowed env target inTx options = Ret (NewShardError (rErr st) target, st)" using run st(1) by simp
    show ?thesis
    proof (rule exI, rule exI, intro conjI, rule w)
      show "int (length (rTrace st)) \<le> retryCount gw + 1" "distinct (map (alias_of \<circ> fst) (rTrace st))" using st(2) n by (simp_all add: tried_ok_def)
      show "\<forall>(t, opts) \<in> set (rTrace st). \<exists>i b. t \<in> set (healthyTablets env i b)" using st(2) unfolding tried_ok_def by force
      show "NewShardError (rErr st) target = None \<longrightarrow> rTrace st \<noteq> [] \<and>
          (\<exists>i conn. thConn (fst (last (rTrace st))) = Some conn \<and> snd (innerCall env i conn (snd (last (rTrace st)))) = None)"
        using ok unfolding success_ok_def NewShardError_def by simp
    qed
  qed
qed


definition sample_env :: "unit tablet_health list \<Rightarrow> (nat \<Rightarrow> bool \<times> gateway_error option) \<Rightarrow> unit retry_env" where
  "sample_env ts answers = \<lparr>waitForFailoverEnd = (\<lambda>_ _. (False, None)), healthyTablets = (\<lambda>_ _. ts), keyspaceEvents = (\<lambda>_. None),
     innerCall = (\<lambda>i _ _. answers i)\<rparr>"

theorem retries_use_distinct_tablets_witness:
  "\<exists>err st. withRetry insertion_sort oisort (\<lambda>k n. 0) 0 sample_gateway [] (sample_env [sample_tablet ''a'' 1 None] (\<lambda>_. (True, Some NoConn)))
     \<lparr>tgCell = ''a'', tgTabletType = 2\<rparr> False None = Ret (err, st) \<and> int (length (rTrace st)) \<le> 3"
proof -
  let ?env = "sample_env [sample_tablet ''a'' 1 None] (\<lambda>_. (True, Some NoConn))"
  have h: "\<forall>i b. \<forall>t \<in> set (healthyTablets ?env i b). healthy t" by (simp add: sample_env_def sample_tablet_simps)
  have r: "0 \<le> retryCount sample_gateway" "retryCount sample_gateway < maxInt64" "retryCount sample_gateway + 1 = 3"
    by (simp_all add: sample_gateway_def maxInt64_def)
  from retries_use_distinct_tablets [OF osort_func_oisort intn_ok_zero h r(1,2), of insertion_sort 0 "[]" "\<lparr>tgCell = ''a'', tgTabletType = 2\<rparr>" False None]
  show ?thesis unfolding r(3) by blast
qed

text \<open>
  The read-after-write position does not survive a retry: the first choice clears it from the
  options, so after a failure that can be retried the statement goes to a tablet that has not
  reached the position, and that tablet is not asked to wait for it either.
\<close>

lemma attempt_sends:
  assumes "\<forall>t \<in> set (healthyTablets env i (CanLoadBalanceBetweenReplicAndRdonly opts)). healthy t" "rOptions st = Some opts"
    and "filter (\<lambda>t. map_of (rInvalid st) (alias_of t) = None) (healthyTablets env i (CanLoadBalanceBetweenReplicAndRdonly opts)) = av" "av \<noteq> []"
    and "PickTablet sf srt intn (rDraws st) gw av (Some opts) = Ret (Inr th, Some opts', k')"
    and "healthy th" "thConn th = Some c" "\<And>p. innerCall env i c p = (again, err)"
  shows "\<exists>st' o'. attempt sf srt intn gw env i st = Ret (again, st') \<and> rTrace st' = rTrace st @ [(th, Some o')] \<and> rOptions st' = Some o' \<and>
    ReadAfterWriteGtid o' = ReadAfterWriteGtid opts' \<and> CanLoadBalanceBetweenReplicAndRdonly o' = CanLoadBalanceBetweenReplicAndRdonly opts' \<and>
    rErr st' = err \<and> rInvalid st' = (if again then mput (alias_of th) True (rInvalid st) else rInvalid st)"
proof -
  have ne: "healthyTablets env i (CanLoadBalanceBetweenReplicAndRdonly opts) \<noteq> []" using assms(3,4) by auto
  obtain tb al where tb: "thTablet th = Some tb" "tAlias tb = Some al" using assms(6) by (rule healthyE)
  have "TabletAliasString (Some al) = alias_of th" by (simp add: alias_of_def tb)
  then show ?thesis using ne assms(1,2,3,5,7,8) tb by (simp add: attempt_def skip_invalid_filter Let_def attempt_on_def)
qed

lemma PickTablet_some:
  assumes "osort_func srt" "intn_ok intn" "\<forall>t \<in> set ts. healthy t" and u: "u \<in> set ts" "satisfying sf gw options u"
  shows "\<exists>t k'. PickTablet sf srt intn k gw ts options = Ret (Inr t, map_option (\<lambda>opts. opts\<lparr>ReadAfterWriteGtid := []\<rparr>) options, k') \<and>
    t \<in> set ts \<and> satisfying sf gw options t"
proof -
  have ex: "\<exists>u \<in> set ts. satisfying sf gw options u" and ne: "ts \<noteq> []" using u by auto
  from PickTablet_cases [OF assms(1-3), of sf k gw options] show ?thesis
    unfolding if_P [OF ex] by (elim exE conjE) (rename_tac res o' k', case_tac res; use ne in auto)
qed

lemma PickTablet_none:
  assumes "osort_func srt" "intn_ok intn" "\<forall>t \<in> set ts. healthy t" and u: "\<not> (\<exists>u \<in> set ts. satisfying sf gw options u)" and ne: "ts \<noteq> []"
  shows "\<exists>t k'. PickTablet sf srt intn k gw ts options = Ret (Inr t, options, k') \<and> t \<in> set ts"
  using PickTablet_cases [OF assms(1-3), of sf k gw options] unfolding if_not_P [OF u]
  by (elim exE conjE) (rename_tac res o' k', case_tac res; use ne in auto)

lemma retry_forgets_gtid_threshold:
  assumes srt: "osort_func srt" "intn_ok intn" and ok: "healthy fresh" "healthy stale" "alias_of fresh \<noteq> alias_of stale"
    and th: "satisfying sf gw (Some opts) fresh" "\<not> satisfying sf gw (Some opts) stale"
    and env: "\<And>i b. healthyTablets env i b = [fresh, stale]" "thConn fresh = Some c" "thConn stale = Some d"
      "\<And>p. innerCall env 0 c p = (True, Some e)" "\<And>p. innerCall env 1 d p = (False, None)"
    and more: "retryCount gw = 1" "tgTabletType target \<noteq> TabletType_PRIMARY"
  shows "\<exists>st o1 o2. withRetry sf srt intn k gw [] env target False (Some opts) = Ret (None, st) \<and>
    rTrace st = [(fresh, Some o1), (stale, Some o2)] \<and> ReadAfterWriteGtid o2 = []"
proof -
  define st0 where "st0 = (new_retry_state k (Some opts) :: 'a retry_state)"
  have s0: "rInvalid st0 = []" "rOptions st0 = Some opts" "rTrace st0 = []" by (simp_all add: st0_def new_retry_state_def)
  obtain k1 where p1: "PickTablet sf srt intn (rDraws st0) gw [fresh, stale] (Some opts) = Ret (Inr fresh, Some (opts\<lparr>ReadAfterWriteGtid := []\<rparr>), k1)"
    using PickTablet_some [OF srt, of "[fresh, stale]" fresh sf gw "Some opts" "rDraws st0"] ok th by auto
  obtain st1 o1 where a1: "attempt sf srt intn gw env 0 st0 = Ret (True, st1)" "rTrace st1 = [(fresh, Some o1)]" "rOptions st1 = Some o1"
      "ReadAfterWriteGtid o1 = []" "rInvalid st1 = mput (alias_of fresh) True []"
    using attempt_sends [of env 0 opts st0 "[fresh, stale]", OF _ s0(2) _ _ p1 ok(1) env(2,4)] ok s0 env(1) by auto
  have uns: "\<not> satisfying sf gw (Some o1) stale" using a1(4) by (simp add: satisfying_def)
  obtain k2 where p2: "PickTablet sf srt intn (rDraws st1) gw [stale] (Some o1) = Ret (Inr stale, Some o1, k2)"
    using PickTablet_none [OF srt, of "[stale]" sf gw "Some o1" "rDraws st1"] ok uns by auto
  obtain st2 o2 where a2: "attempt sf srt intn gw env 1 st1 = Ret (False, st2)" "rTrace st2 = [(fresh, Some o1), (stale, Some o2)]"
      "ReadAfterWriteGtid o2 = []" "rErr st2 = None"
    using attempt_sends [of env 1 o1 st1 "[stale]", OF _ a1(3) _ _ p2 ok(2) env(3,5)] ok a1 env(1) by auto
  have body: "retry_body sf srt intn gw env target False i st = attempt sf srt intn gw env i st" for i st using more(2) by (simp add: retry_body_def)
  have "retry_loop (retry_body sf srt intn gw env target False) 2 0 st0 = Ret st2"
    using a1(1) a2(1) by (simp add: retry_loop.simps [of _ 2 0] retry_loop.simps [of _ 2 "Suc 0"] body)
  moreover have "add64 (retryCount gw) 1 = 2" using more(1) by (simp add: add64_id maxInt64_def)
  ultimately have "withRetry sf srt intn k gw [] env target False (Some opts) = Ret (None, st2)"
    using a2(4) by (simp add: withRetry_def NewShardError_def flip: st0_def)
  then show ?thesis using a2 by blast
qed

text \<open>With a negative \<open>retryCount\<close> the statement succeeds without being sent.\<close>

lemma negative_retry_count_succeeds:
  assumes "retryCount gw = - 1" "tgTabletType target \<noteq> TabletType_PRIMARY"
  shows "withRetry sf srt intn k gw [] env target False options = Ret (None, new_retry_state k options)"
  using assms by (simp add: withRetry_def retry_loop.simps NewShardError_def new_retry_state_def add64_id maxInt64_def)

end
