(* ===== verification/TopoProto.thy ===== *)
theory TopoProto
  imports Destination TabletGateway
begin

text \<open>
  The text forms of the topology (\<open>go/vt/topo/topoproto\<close>) and of distributed transaction ids
  (\<open>go/vt/dtids\<close>): tablet aliases, tablet types, keyspace and shard names, the target string of a
  session and the dtid. Text is ASCII as far as its case is changed. A slice out of range is a panic.
\<close>

section \<open>Case and indices\<close>

definition to_upper :: "char \<Rightarrow> char" where
  "to_upper c = (let n = of_char c :: int in if 97 \<le> n \<and> n \<le> 122 then char_of (n - 32) else c)"

definition to_lower :: "char \<Rightarrow> char" where
  "to_lower c = (let n = of_char c :: int in if 65 \<le> n \<and> n \<le> 90 then char_of (n + 32) else c)"

text \<open>\<open>strings.LastIndexAny\<close>, and \<open>s[a:b]\<close> of a string.\<close>

definition LastIndexAny :: "string \<Rightarrow> string \<Rightarrow> int" where
  "LastIndexAny s chars = int (length (dropWhile (\<lambda>c. c \<notin> set chars) (rev s))) - 1"

definition substring :: "string \<Rightarrow> int \<Rightarrow> int \<Rightarrow> string outcome" where
  "substring s a b =
     (if 0 \<le> a \<and> a \<le> b \<and> b \<le> int (length s) then Ret (take (nat (b - a)) (drop (nat a) s)) else Panic)"

section \<open>Tablet types\<close>

definition TabletType_name :: "(int \<times> string) list" where
  "TabletType_name = [(0, ''UNKNOWN''), (1, ''PRIMARY''), (2, ''REPLICA''), (3, ''RDONLY''), (4, ''SPARE''),
     (5, ''EXPERIMENTAL''), (6, ''BACKUP''), (7, ''RESTORE''), (8, ''DRAINED'')]"

definition TabletType_value :: "(string \<times> int) list" where
  "TabletType_value = [(''UNKNOWN'', 0), (''PRIMARY'', 1), (''MASTER'', 1), (''REPLICA'', 2), (''RDONLY'', 3),
     (''BATCH'', 3), (''SPARE'', 4), (''EXPERIMENTAL'', 5), (''BACKUP'', 6), (''RESTORE'', 7), (''DRAINED'', 8)]"

definition AllTabletTypes :: "int list" where
  "AllTabletTypes = [1, 2, 3, 3, 4, 5, 6, 7, 8]"

text \<open>The type and whether it was found; an unknown name gives \<open>UNKNOWN\<close> and an error.\<close>

definition ParseTabletType :: "string \<Rightarrow> int \<times> bool" where
  "ParseTabletType param = (case map_of TabletType_value (map to_upper param) of
       None \<Rightarrow> (0, False) | Some v \<Rightarrow> (v, True))"

fun ParseTabletTypes_loop :: "string list \<Rightarrow> int list option" where
  "ParseTabletTypes_loop [] = Some []"
| "ParseTabletTypes_loop (s # ss) = (case ParseTabletType s of
       (_, False) \<Rightarrow> None
     | (t, True) \<Rightarrow> (case ParseTabletTypes_loop ss of None \<Rightarrow> None | Some ts \<Rightarrow> Some (t # ts)))"

definition ParseTabletTypes :: "string \<Rightarrow> int list option" where
  "ParseTabletTypes param = ParseTabletTypes_loop (split CHR '','' param)"

definition tabletTypeLowerName :: "(int \<times> string) list" where
  "tabletTypeLowerName = map (\<lambda>(k, v). (k, map to_lower v)) TabletType_name"

definition TabletTypeLString :: "int \<Rightarrow> string" where
  "TabletTypeLString t = (case map_of tabletTypeLowerName t of None \<Rightarrow> ''unknown'' | Some v \<Rightarrow> v)"

definition IsTypeInList :: "int \<Rightarrow> int list \<Rightarrow> bool" where
  "IsTypeInList t types = list_ex (\<lambda>u. t = u) types"

definition IsServingType :: "int \<Rightarrow> bool" where
  "IsServingType t \<longleftrightarrow> t = 1 \<or> t = 2 \<or> t = 3 \<or> t = 5"

section \<open>Tablet aliases\<close>

definition TabletAliasIsZero :: "tablet_alias option \<Rightarrow> bool" where
  "TabletAliasIsZero ta = (case ta of None \<Rightarrow> True | Some a \<Rightarrow> aliasCell a = [] \<and> aliasUid a = 0)"

definition TabletAliasUIDStr :: "tablet_alias \<Rightarrow> string" where
  "TabletAliasUIDStr a = pad10 (nat_dec (unat (aliasUid a)))"

datatype alias_error = InvalidAlias string | BadUid string

definition ParseUID :: "string \<Rightarrow> 32 word option" where
  "ParseUID s = (case ParseUint s 32 of None \<Rightarrow> None | Some n \<Rightarrow> Some (of_nat n))"

definition cell_char :: "char \<Rightarrow> bool" where
  "cell_char c \<longleftrightarrow> (let n = of_char c :: nat in
     c = CHR ''-'' \<or> c = CHR ''_'' \<or> c = CHR ''.'' \<or> 97 \<le> n \<and> n \<le> 122 \<or> 65 \<le> n \<and> n \<le> 90 \<or> 48 \<le> n \<and> n \<le> 57)"

definition is_digit :: "char \<Rightarrow> bool" where
  "is_digit c \<longleftrightarrow> (let n = of_char c :: nat in 48 \<le> n \<and> n \<le> 57)"

text \<open>
  The match of \<open>^(?P<cell>[-_.a-zA-Z0-9]+)-(?P<uid>[0-9]+)$\<close>: the uid has no dash, so the
  separator is the last one.
\<close>

definition alias_match :: "string \<Rightarrow> (string \<times> string) option" where
  "alias_match s =
     (let i = LastIndexAny s ''-''; cell = take (nat i) s; uid = drop (nat (i + 1)) s in
      if i < 0 \<or> cell = [] \<or> uid = [] \<or> \<not> list_all cell_char cell \<or> \<not> list_all is_digit uid then None
      else Some (cell, uid))"

definition ParseTabletAlias :: "string \<Rightarrow> alias_error + tablet_alias" where
  "ParseTabletAlias s = (case alias_match s of
       None \<Rightarrow> Inl (InvalidAlias s)
     | Some (cell, uid) \<Rightarrow> (case ParseUID uid of
         None \<Rightarrow> Inl (BadUid s)
       | Some u \<Rightarrow> Inr \<lparr>aliasCell = cell, aliasUid = u\<rparr>))"

definition TabletAliasList_Less :: "tablet_alias \<Rightarrow> tablet_alias \<Rightarrow> bool" where
  "TabletAliasList_Less a b =
     (if str_less (aliasCell a) (aliasCell b) then True
      else if str_less (aliasCell b) (aliasCell a) then False
      else aliasUid a < aliasUid b)"

section \<open>Keyspaces, shards and targets\<close>

definition KeyspaceShardString :: "string \<Rightarrow> string \<Rightarrow> string" where
  "KeyspaceShardString keyspace shard = keyspace @ CHR ''/'' # shard"

definition ParseKeyspaceShard :: "string \<Rightarrow> (string \<times> string) option" where
  "ParseKeyspaceShard param =
     (let a = split CHR ''/'' param; b = split CHR '':'' param in
      if length a = 2 then Some (a ! 0, a ! 1)
      else if length b = 2 then Some (b ! 0, b ! 1)
      else None)"

datatype dest_error = NoRangeEnd | RangeError key_error | SingleRangeExpected string | BadKeyspaceID string

definition ParseDestination_bracket ::
    "string \<Rightarrow> int \<Rightarrow> destination option \<Rightarrow> (string \<times> int \<times> destination option \<times> dest_error option) outcome" where
  "ParseDestination_bracket target tabletType dest =
     (let last = LastIndexAny target ''['' in
      if last = -1 then Ret (target, tabletType, dest, None)
      else (let rangeEnd = LastIndexAny target '']'' in
        if rangeEnd = -1 then Ret ([], tabletType, dest, Some NoRangeEnd)
        else obind (substring target (last + 1) rangeEnd) (\<lambda>rangeString.
          if CHR ''-'' \<in> set rangeString then
            (case ParseShardingSpec rangeString of
               Inl e \<Rightarrow> Ret ([], tabletType, dest, Some (RangeError e))
             | Inr keyRange \<Rightarrow>
                 if length keyRange \<noteq> 1 then Ret ([], tabletType, dest, Some (SingleRangeExpected rangeString))
                 else obind (substring target 0 last) (\<lambda>ks.
                   Ret (ks, tabletType, Some (DestinationExactKeyRange (Some (keyRange ! 0))), None)))
          else
            (case hexDecode rangeString of
               None \<Rightarrow> Ret ([], tabletType, dest, Some (BadKeyspaceID rangeString))
             | Some destBytes \<Rightarrow>
                 obind (substring target 0 last) (\<lambda>ks.
                   Ret (ks, tabletType, Some (DestinationKeyspaceID destBytes), None))))))"

definition ParseDestination ::
    "string \<Rightarrow> int \<Rightarrow> (string \<times> int \<times> destination option \<times> dest_error option) outcome" where
  "ParseDestination target0 defaultTabletType =
     (let last = LastIndexAny target0 ''@'' in
      obind (if last \<noteq> -1 then
               obind (substring target0 (last + 1) (int (length target0))) (\<lambda>t.
               obind (substring target0 0 last) (\<lambda>target. Ret (target, fst (ParseTabletType t))))
             else Ret (target0, defaultTabletType)) (\<lambda>(target1, tabletType).
      let last = LastIndexAny target1 ''/:'' in
      obind (if last \<noteq> -1 then
               obind (substring target1 (last + 1) (int (length target1))) (\<lambda>shard.
               obind (substring target1 0 last) (\<lambda>target. Ret (target, Some (DestinationShard shard))))
             else Ret (target1, None)) (\<lambda>(target2, dest).
      ParseDestination_bracket target2 tabletType dest)))"

section \<open>Distributed transaction ids\<close>

record shard_session_id =
  ssKeyspace :: string
  ssShard :: string
  ssTabletType :: int
  ssTransactionId :: int

datatype dtid_error = InvalidParts string | InvalidTransactionId string

definition dtids_New :: "string \<Rightarrow> string \<Rightarrow> int \<Rightarrow> string" where
  "dtids_New keyspace shard txid = keyspace @ CHR '':'' # shard @ CHR '':'' # FormatInt txid"

definition ShardSession :: "string \<Rightarrow> dtid_error + shard_session_id" where
  "ShardSession dtid =
     (let splits = split CHR '':'' dtid in
      if length splits \<noteq> 3 then Inl (InvalidParts dtid)
      else (case ParseInt64 (splits ! 2) of
          None \<Rightarrow> Inl (InvalidTransactionId dtid)
        | Some txid \<Rightarrow>
            Inr \<lparr>ssKeyspace = splits ! 0, ssShard = splits ! 1, ssTabletType = 1, ssTransactionId = txid\<rparr>))"

definition TransactionID :: "string \<Rightarrow> dtid_error + int" where
  "TransactionID dtid =
     (let splits = split CHR '':'' dtid in
      if length splits \<noteq> 3 then Inl (InvalidParts dtid)
      else (case ParseInt64 (splits ! 2) of
          None \<Rightarrow> Inl (InvalidTransactionId dtid)
        | Some txid \<Rightarrow> Inr txid))"

section \<open>The last index\<close>

lemma LastIndexAny_notin: "set s \<inter> set chars = {} \<Longrightarrow> LastIndexAny s chars = - 1"
proof -
  assume "set s \<inter> set chars = {}"
  then have "dropWhile (\<lambda>c. c \<notin> set chars) (rev s) = []" by (auto simp: dropWhile_eq_Nil_conv)
  then show ?thesis by (simp add: LastIndexAny_def)
qed

lemma LastIndexAny_last:
  assumes "c \<in> set chars" "set b \<inter> set chars = {}" shows "LastIndexAny (a @ c # b) chars = int (length a)"
proof -
  have "dropWhile (\<lambda>c. c \<notin> set chars) (rev b @ c # rev a) = c # rev a"
    using assms by (subst dropWhile_append2) auto
  then show ?thesis by (simp add: LastIndexAny_def)
qed

lemma LastIndexAny_cases:
  obtains (none) "set s \<inter> set chars = {}" "LastIndexAny s chars = - 1"
  | (found) a c b where "s = a @ c # b" "c \<in> set chars" "set b \<inter> set chars = {}" "LastIndexAny s chars = int (length a)"
proof (cases "set s \<inter> set chars = {}")
  case True
  then show ?thesis using none LastIndexAny_notin by blast
next
  case False
  then have "\<exists>x\<in>set s. x \<in> set chars" by blast
  then obtain a c b where "s = a @ c # b" "c \<in> set chars" "\<forall>x\<in>set b. x \<notin> set chars"
    by (rule split_list_last_propE)
  then show ?thesis using found [of a c b] LastIndexAny_last [of c chars b a] by blast
qed

lemma substring_parts:
  "substring (a @ c # b) 0 (int (length a)) = Ret a"
  "substring (a @ c # b) (int (length a) + 1) (int (length (a @ c # b))) = Ret b"
  by (simp_all add: substring_def nat_add_distrib)

section \<open>Parsing targets\<close>

definition ParseDestination_shard ::
    "string \<Rightarrow> int \<Rightarrow> (string \<times> int \<times> destination option \<times> dest_error option) outcome" where
  "ParseDestination_shard target1 tabletType =
     (let last = LastIndexAny target1 ''/:'' in
      obind (if last \<noteq> -1 then
               obind (substring target1 (last + 1) (int (length target1))) (\<lambda>shard.
               obind (substring target1 0 last) (\<lambda>target. Ret (target, Some (DestinationShard shard))))
             else Ret (target1, None)) (\<lambda>(target2, dest).
      ParseDestination_bracket target2 tabletType dest))"

lemma ParseDestination_typed:
  "CHR ''@'' \<notin> set t \<Longrightarrow> ParseDestination (s @ CHR ''@'' # t) d = ParseDestination_shard s (fst (ParseTabletType t))"
  "CHR ''@'' \<notin> set s \<Longrightarrow> ParseDestination s d = ParseDestination_shard s d"
proof -
  have n: "int (length s) \<noteq> - 1" by simp
  show "CHR ''@'' \<notin> set t \<Longrightarrow> ParseDestination (s @ CHR ''@'' # t) d = ParseDestination_shard s (fst (ParseTabletType t))"
    using LastIndexAny_last [of "CHR ''@''" "''@''" t s] n
    by (simp add: ParseDestination_def ParseDestination_shard_def Let_def substring_parts [simplified])
  show "CHR ''@'' \<notin> set s \<Longrightarrow> ParseDestination s d = ParseDestination_shard s d"
    using LastIndexAny_notin [of s "''@''"]
    by (simp add: ParseDestination_def ParseDestination_shard_def Let_def)
qed

lemma ParseDestination_sharded:
  "set sh \<inter> set ''/:'' = {} \<Longrightarrow> c \<in> set ''/:'' \<Longrightarrow>
     ParseDestination_shard (s @ c # sh) t = ParseDestination_bracket s t (Some (DestinationShard sh))"
  "set s \<inter> set ''/:'' = {} \<Longrightarrow> ParseDestination_shard s t = ParseDestination_bracket s t None"
proof -
  have n: "int (length s) \<noteq> - 1" by simp
  show "set sh \<inter> set ''/:'' = {} \<Longrightarrow> c \<in> set ''/:'' \<Longrightarrow>
     ParseDestination_shard (s @ c # sh) t = ParseDestination_bracket s t (Some (DestinationShard sh))"
    using LastIndexAny_last [of c "''/:''" sh s] n
    by (simp only: ParseDestination_shard_def Let_def substring_parts obind.simps prod.case if_True not_False_eq_True simp_thms)
  show "set s \<inter> set ''/:'' = {} \<Longrightarrow> ParseDestination_shard s t = ParseDestination_bracket s t None"
    using LastIndexAny_notin [of s "''/:''"] by (simp add: ParseDestination_shard_def Let_def)
qed

lemma bracket_parts:
  assumes "CHR '']'' \<notin> set r" "CHR ''['' \<notin> set r"
  shows "LastIndexAny (ks @ CHR ''['' # r @ [CHR '']'']) ''['' = int (length ks)"
    "LastIndexAny (ks @ CHR ''['' # r @ [CHR '']'']) '']'' = int (length ks) + 1 + int (length r)"
    "substring (ks @ CHR ''['' # r @ [CHR '']'']) (int (length ks) + 1) (int (length ks) + 1 + int (length r)) = Ret r"
    "substring (ks @ CHR ''['' # r @ [CHR '']'']) 0 (int (length ks)) = Ret ks"
  using assms LastIndexAny_last [of "CHR ''[''" "''[''" "r @ [CHR '']'']" ks]
    LastIndexAny_last [of "CHR '']''" "'']''" "[]" "ks @ CHR ''['' # r"]
  by (simp_all add: substring_def nat_add_distrib)

lemma hex_plain:
  "CHR ''-'' \<notin> set (hexEncode bs)" "CHR ''['' \<notin> set (hexEncode bs)" "CHR '']'' \<notin> set (hexEncode bs)"
  "set (hexEncode bs) \<inter> set ''/:'' = {}" "CHR ''@'' \<notin> set (hexEncode bs)"
  by (auto dest!: hexEncode_chars)

lemma bracket_keyspace_id:
  "ParseDestination_bracket (ks @ CHR ''['' # hexEncode bs @ [CHR '']'']) t dest =
     Ret (ks, t, Some (DestinationKeyspaceID bs), None)"
  using bracket_parts [OF hex_plain(3,2), of ks bs] hex_plain(1) [of bs]
  by (simp add: ParseDestination_bracket_def Let_def hexDecode_hexEncode)

lemma bracket_range:
  assumes "e = [] \<or> str_less (hexEncode s) (hexEncode e)"
  shows "ParseDestination_bracket (ks @ CHR ''['' # (hexEncode s @ CHR ''-'' # hexEncode e) @ [CHR '']'']) t dest =
     Ret (ks, t, Some (DestinationExactKeyRange (Some \<lparr>krStart = s, krEnd = e\<rparr>)), None)"
proof -
  let ?r = "hexEncode s @ CHR ''-'' # hexEncode e"
  have "split CHR ''-'' ?r = [hexEncode s, hexEncode e]" by (simp add: split_append split_notin hex_plain)
  moreover have "hexEncode e = [] \<longleftrightarrow> e = []" by (cases e) (simp_all add: hexEncode_def hex_byte_def)
  ultimately have "ParseShardingSpec ?r = Inr [\<lparr>krStart = s, krEnd = e\<rparr>]"
    using assms by (cases "e = []") (simp_all add: ParseShardingSpec_def Let_def hexDecode_hexEncode)
  moreover have "CHR '']'' \<notin> set ?r" "CHR ''['' \<notin> set ?r" using hex_plain by simp_all
  ultimately show ?thesis using bracket_parts [of ?r ks] by (simp add: ParseDestination_bracket_def Let_def)
qed

lemma bracket_none: "CHR ''['' \<notin> set ks \<Longrightarrow> ParseDestination_bracket ks t dest = Ret (ks, t, dest, None)"
  using LastIndexAny_notin [of ks "''[''"] by (simp add: ParseDestination_bracket_def)

lemma bracket_panics:
  "ParseDestination_bracket s t dest = Panic \<longleftrightarrow>
     (\<exists>a b c. s = a @ CHR '']'' # b @ CHR ''['' # c \<and> CHR '']'' \<notin> set b \<union> set c \<and> CHR ''['' \<notin> set c)" (is "?l \<longleftrightarrow> ?r")
proof
  assume ?r
  then obtain a b c where s: "s = a @ CHR '']'' # b @ CHR ''['' # c" "CHR '']'' \<notin> set b \<union> set c" "CHR ''['' \<notin> set c" by blast
  have "LastIndexAny s '']'' = int (length a)" "LastIndexAny s ''['' = int (length a) + 1 + int (length b)"
    using LastIndexAny_last [of "CHR '']''" "'']''" "b @ CHR ''['' # c" a]
      LastIndexAny_last [of "CHR ''[''" "''[''" c "a @ CHR '']'' # b"] s by simp_all
  then show ?l by (simp add: ParseDestination_bracket_def Let_def substring_def)
next
  assume l: ?l
  show ?r
  proof (cases rule: LastIndexAny_cases [of s "''[''"])
    case none
    with l show ?thesis by (simp add: ParseDestination_bracket_def)
  next
    case (found x c y)
    note o = this
    show ?thesis
    proof (cases rule: LastIndexAny_cases [of s "'']''"])
      case none
      with l found show ?thesis by (simp add: ParseDestination_bracket_def Let_def)
    next
      case (found a d b)
      have "substring s 0 (int (length x)) = Ret x" using o(1) substring_parts(1) by metis
      note sub = this
      have "substring s (int (length x) + 1) (int (length a)) = Panic"
      proof (cases "substring s (int (length x) + 1) (int (length a))")
        case (Ret r)
        then have "ParseDestination_bracket s t dest \<noteq> Panic"
          using o(4) found(4) sub unfolding ParseDestination_bracket_def Let_def by (simp split: sum.split option.split)
        with l show ?thesis by simp
      qed simp
      moreover have "length a \<le> length s" using found(1) by simp
      ultimately have le: "length a < length x + 1" by (auto simp: substring_def split: if_splits)
      have eq: "x @ c # y = a @ d # b" using o(1) found(1) by simp
      have "length a \<noteq> length x"
      proof
        assume "length a = length x"
        with eq have "c = d" by simp
        with o(2) found(2) show False by simp
      qed
      with le have lt: "length a < length x" by linarith
      from eq obtain us where "x = a @ us \<and> us @ c # y = d # b \<or> x @ us = a \<and> c # y = us @ d # b"
        unfolding append_eq_append_conv2 by blast
      with lt have us: "x = a @ us" "us @ c # y = d # b" by auto
      with lt obtain z where "us = d # z" by (cases us) auto
      with us have "s = a @ d # z @ c # y" "b = z @ c # y" using found(1) by auto
      with o(2,3) found(2,3) show ?thesis by auto
    qed
  qed
qed

section \<open>Properties\<close>

definition plain :: "string \<Rightarrow> bool" where
  "plain s \<longleftrightarrow> set s \<inter> set ''@/:[]'' = {}"

lemma type_names:
  assumes "t \<in> fst ` set TabletType_name"
  shows "ParseTabletType (TabletTypeLString t) = (t, True)" "CHR ''@'' \<notin> set (TabletTypeLString t)"
proof -
  have "list_all (\<lambda>t. ParseTabletType (TabletTypeLString t) = (t, True) \<and> CHR ''@'' \<notin> set (TabletTypeLString t)) (map fst TabletType_name)"
    by code_simp
  then show "ParseTabletType (TabletTypeLString t) = (t, True)" "CHR ''@'' \<notin> set (TabletTypeLString t)"
    using assms by (auto simp: list_all_iff)
qed

text \<open>
  C28. The target strings of a session are read as they are meant: a keyspace with a shard, with a
  keyspace id or with a key range, each with its tablet type, and a bare keyspace, which keeps the
  default type. Shard and keyspace separate at a slash or at a colon.
\<close>

theorem target_string_parsed:
  assumes "plain ks" "plain shard" "t \<in> fst ` set TabletType_name" "c = CHR ''/'' \<or> c = CHR '':''"
    "krEnd kr = [] \<or> str_less (hexEncode (krStart kr)) (hexEncode (krEnd kr))"
  shows "ParseDestination ks d = Ret (ks, d, None, None) \<and>
    ParseDestination (ks @ c # shard @ CHR ''@'' # TabletTypeLString t) d = Ret (ks, t, Some (DestinationShard shard), None) \<and>
    ParseDestination (ks @ CHR ''['' # hexEncode kid @ CHR '']'' # CHR ''@'' # TabletTypeLString t) d =
      Ret (ks, t, Some (DestinationKeyspaceID kid), None) \<and>
    ParseDestination (ks @ CHR ''['' # hexEncode (krStart kr) @ CHR ''-'' # hexEncode (krEnd kr) @ CHR '']'' # CHR ''@'' #
        TabletTypeLString t) d =
      Ret (ks, t, Some (DestinationExactKeyRange (Some kr)), None)"
proof (intro conjI)
  note t = type_names [OF assms(3)]
  have ks: "CHR ''@'' \<notin> set ks" "set ks \<inter> set ''/:'' = {}" "CHR ''['' \<notin> set ks" and sh: "set shard \<inter> set ''/:'' = {}"
    using assms(1,2) by (auto simp: plain_def)
  show "ParseDestination ks d = Ret (ks, d, None, None)"
    using ks by (simp add: ParseDestination_typed ParseDestination_sharded bracket_none)
  have "ParseDestination ((ks @ c # shard) @ CHR ''@'' # TabletTypeLString t) d =
      ParseDestination_bracket ks t (Some (DestinationShard shard))"
    using assms(4) sh t by (subst ParseDestination_typed(1)) (auto simp: ParseDestination_sharded(1))
  then show "ParseDestination (ks @ c # shard @ CHR ''@'' # TabletTypeLString t) d = Ret (ks, t, Some (DestinationShard shard), None)"
    using ks by (simp add: bracket_none)
  have typed: "ParseDestination ((ks @ CHR ''['' # r @ [CHR '']'']) @ CHR ''@'' # TabletTypeLString t) d =
      ParseDestination_bracket (ks @ CHR ''['' # r @ [CHR '']'']) t None" if "set r \<inter> set ''/:'' = {}" for r
    using that ks t by (subst ParseDestination_typed(1)) (auto simp: ParseDestination_sharded(2))
  show "ParseDestination (ks @ CHR ''['' # hexEncode kid @ CHR '']'' # CHR ''@'' # TabletTypeLString t) d =
      Ret (ks, t, Some (DestinationKeyspaceID kid), None)"
    using typed [OF hex_plain(4) [of kid]] bracket_keyspace_id [of ks kid t None] by simp
  let ?r = "hexEncode (krStart kr) @ CHR ''-'' # hexEncode (krEnd kr)"
  have "set ?r \<inter> set ''/:'' = {}" using hex_plain(4) [of "krStart kr"] hex_plain(4) [of "krEnd kr"] by auto
  from typed [OF this] bracket_range [OF assms(5), of ks t None]
  show "ParseDestination (ks @ CHR ''['' # hexEncode (krStart kr) @ CHR ''-'' # hexEncode (krEnd kr) @ CHR '']'' # CHR ''@'' #
        TabletTypeLString t) d =
      Ret (ks, t, Some (DestinationExactKeyRange (Some kr)), None)"
    by simp
qed

theorem target_string_parsed_witness:
  "ParseDestination ''ks:-80@replica'' 1 = Ret (''ks'', 2, Some (DestinationShard ''-80''), None) \<and>
   ParseDestination ''ks[40-]@replica'' 1 = Ret (''ks'', 2, Some (DestinationExactKeyRange (Some \<lparr>krStart = [0x40], krEnd = []\<rparr>)), None)"
proof -
  have h: "plain ''ks''" "plain ''-80''" "2 \<in> fst ` set TabletType_name" "CHR '':'' = CHR ''/'' \<or> CHR '':'' = CHR '':''"
    "krEnd \<lparr>krStart = [0x40], krEnd = []\<rparr> = [] \<or>
       str_less (hexEncode (krStart \<lparr>krStart = [0x40], krEnd = []\<rparr>)) (hexEncode (krEnd \<lparr>krStart = [0x40], krEnd = []\<rparr>))"
    by (simp_all add: plain_def TabletType_name_def)
  have e: "TabletTypeLString 2 = ''replica''" "hexEncode [0x40] = ''40''"
    by (simp_all add: TabletTypeLString_def tabletTypeLowerName_def TabletType_name_def to_lower_def hexEncode_def hex_byte_def
        hexdigit_def char_of_eq_iff)
  show ?thesis using target_string_parsed [OF h, of 1 "[]"] e by simp
qed

lemma ParseDestination_core:
  "\<exists>core rest ty dest. s = core @ rest \<and> ParseDestination s d = ParseDestination_bracket core ty dest"
proof -
  have sh: "\<exists>core rest dest. u = core @ rest \<and> ParseDestination_shard u ty = ParseDestination_bracket core ty dest" for u ty
  proof (cases rule: LastIndexAny_cases [of u "''/:''"])
    case none
    then show ?thesis using ParseDestination_sharded(2) [of u ty] by auto
  next
    case (found a c b)
    then show ?thesis using ParseDestination_sharded(1) [of b c a ty] by blast
  qed
  show ?thesis
  proof (cases rule: LastIndexAny_cases [of s "''@''"])
    case none
    then show ?thesis using ParseDestination_typed(2) [of s d] sh [of s d] by auto
  next
    case (found a c b)
    then have "ParseDestination s d = ParseDestination_shard a (fst (ParseTabletType b))"
      using ParseDestination_typed(1) [of b a d] by auto
    with found(1) sh [of a "fst (ParseTabletType b)"] show ?thesis by (metis append_assoc)
  qed
qed



text \<open>The printed alias of a tablet is read back.\<close>

lemma digits_val_zeros: "digits_val 0 (replicate k CHR ''0'' @ s) = digits_val 0 s"
  by (induction k) (simp_all add: digit_val_def)

lemma pad10_digits: "list_all is_digit (pad10 (nat_dec n))" "pad10 (nat_dec n) \<noteq> []" "CHR ''-'' \<notin> set (pad10 (nat_dec n))"
proof -
  show d: "list_all is_digit (pad10 (nat_dec n))"
    by (auto simp: list_all_iff pad10_def is_digit_def Let_def dest!: nat_dec_digits)
  show "pad10 (nat_dec n) \<noteq> []" by (simp add: pad10_def)
  show "CHR ''-'' \<notin> set (pad10 (nat_dec n))" using d by (auto simp: list_all_iff is_digit_def Let_def)
qed

lemma ParseTabletAlias_TabletAliasString:
  assumes "aliasCell a \<noteq> []" "list_all cell_char (aliasCell a)"
  shows "ParseTabletAlias (TabletAliasString (Some a)) = Inr a"
proof -
  let ?u = "pad10 (nat_dec (unat (aliasUid a)))"
  note p = pad10_digits [of "unat (aliasUid a)"]
  have "LastIndexAny (aliasCell a @ CHR ''-'' # ?u) ''-'' = int (length (aliasCell a))"
    using p(3) by (intro LastIndexAny_last) auto
  then have m: "alias_match (TabletAliasString (Some a)) = Some (aliasCell a, ?u)"
    using assms p by (simp add: alias_match_def TabletAliasString_def Let_def nat_add_distrib)
  have "unat (aliasUid a) < 2 ^ 32" using unsigned_less [of "aliasUid a", where ?'a = nat] by simp
  then have "ParseUint ?u 32 = Some (unat (aliasUid a))"
    using p(2) by (simp add: ParseUint_def pad10_def digits_val_zeros digits_val_nat_dec)
  then show ?thesis using m by (simp add: ParseTabletAlias_def ParseUID_def)
qed

text \<open>
  The names under which tablets and distributed transactions are passed around denote what they
  were made from: a printed tablet alias is parsed to that alias, a dtid to its keyspace, shard and
  transaction id on the primary.
\<close>

theorem names_parsed_back:
  assumes "aliasCell a \<noteq> []" "list_all cell_char (aliasCell a)"
    "CHR '':'' \<notin> set ks" "CHR '':'' \<notin> set shard" "- maxInt64 - 1 \<le> txid" "txid \<le> maxInt64"
  shows "ParseTabletAlias (TabletAliasString (Some a)) = Inr a \<and>
    ShardSession (dtids_New ks shard txid) =
      Inr \<lparr>ssKeyspace = ks, ssShard = shard, ssTabletType = 1, ssTransactionId = txid\<rparr> \<and>
    TransactionID (dtids_New ks shard txid) = Inr txid"
proof -
  have "CHR '':'' \<notin> set (FormatInt txid)" by (simp add: FormatInt_def)
  then have "split CHR '':'' (dtids_New ks shard txid) = [ks, shard, FormatInt txid]"
    using assms(3,4) by (simp add: dtids_New_def split_append split_notin)
  then show ?thesis
    using ParseTabletAlias_TabletAliasString [OF assms(1,2)] ParseInt64_FormatInt [OF assms(5,6)]
    by (simp add: ShardSession_def TransactionID_def)
qed

theorem names_parsed_back_witness:
  "ParseTabletAlias (TabletAliasString (Some \<lparr>aliasCell = ''us-east'', aliasUid = 100\<rparr>)) = Inr \<lparr>aliasCell = ''us-east'', aliasUid = 100\<rparr> \<and>
   TransactionID (dtids_New ''ks'' ''-80'' 42) = Inr 42"
proof -
  have "list_all cell_char (aliasCell \<lparr>aliasCell = ''us-east'', aliasUid = 100\<rparr>)" by (simp add: cell_char_def)
  with names_parsed_back [of "\<lparr>aliasCell = ''us-east'', aliasUid = 100\<rparr>" "''ks''" "''-80''" 42] show ?thesis
    by (simp add: maxInt64_def)
qed

text \<open>A keyspace and shard joined by a slash are separated again; a name with a slash is not.\<close>

lemma ParseKeyspaceShard_String:
  assumes "CHR ''/'' \<notin> set ks" "CHR ''/'' \<notin> set shard"
  shows "ParseKeyspaceShard (KeyspaceShardString ks shard) = Some (ks, shard)"
  using assms by (simp add: ParseKeyspaceShard_def KeyspaceShardString_def split_append split_notin)

end
