(* ===== verification/ReplicationLag.thy ===== *)
theory ReplicationLag
  imports Prelude
begin

text \<open>
  Which tablets the health check still offers when replicas fall behind
  (\<open>go/vt/discovery/replicationlag.go\<close>). Thresholds are durations in nanoseconds and the lag is in
  seconds; they are compared exactly, which is what the \<open>float64\<close> comparison gives for thresholds of
  whole seconds. The comparison with 0.7 of the mean is \<open>float64\<close> arithmetic and a parameter.
\<close>

section \<open>Model\<close>

record lag_health =
  lhId :: string
  lhServing :: bool
  lhLastError :: bool
  lhStats :: "32 word option"

record lag_config =
  lowReplicationLag :: int
  highReplicationLagMinServing :: int
  minNumTablets :: int
  legacyReplicationLagAlgorithm :: bool

text \<open>\<open>Stats.ReplicationLagSeconds\<close>, read only where \<open>Stats\<close> is not nil.\<close>

definition ReplicationLagSeconds :: "lag_health \<Rightarrow> 32 word" where
  "ReplicationLagSeconds ts = (case lhStats ts of None \<Rightarrow> 0 | Some n \<Rightarrow> n)"

definition IsReplicationLagHigh :: "lag_config \<Rightarrow> lag_health \<Rightarrow> bool" where
  "IsReplicationLagHigh cfg ts \<longleftrightarrow> uint (ReplicationLagSeconds ts) * 1000000000 > lowReplicationLag cfg"

definition IsReplicationLagVeryHigh :: "lag_config \<Rightarrow> lag_health \<Rightarrow> bool" where
  "IsReplicationLagVeryHigh cfg ts \<longleftrightarrow> uint (ReplicationLagSeconds ts) * 1000000000 > highReplicationLagMinServing cfg"

record lag_snapshot =
  snapTs :: lag_health
  snapReplag :: "32 word"

definition snapshot :: "lag_health \<Rightarrow> lag_snapshot" where
  "snapshot ts = \<lparr>snapTs = ts, snapReplag = ReplicationLagSeconds ts\<rparr>"

definition byReplag :: "lag_snapshot \<Rightarrow> lag_snapshot \<Rightarrow> bool" where
  "byReplag a b \<longleftrightarrow> snapReplag a < snapReplag b"

fun pick_lag :: "lag_config \<Rightarrow> int \<Rightarrow> lag_snapshot list \<Rightarrow> lag_health list" where
  "pick_lag cfg i [] = []"
| "pick_lag cfg i (s # ss) =
     (if \<not> IsReplicationLagHigh cfg (snapTs s) \<or> i < minNumTablets cfg
      then snapTs s # pick_lag cfg (i + 1) ss else pick_lag cfg (i + 1) ss)"

definition serving :: "lag_health \<Rightarrow> bool" where
  "serving ts \<longleftrightarrow> lhServing ts \<and> \<not> lhLastError ts \<and> lhStats ts \<noteq> None"

definition filterStatsByLag :: "lag_snapshot sorter \<Rightarrow> lag_config \<Rightarrow> lag_health list \<Rightarrow> lag_health list" where
  "filterStatsByLag sf cfg ths =
     pick_lag cfg 0 (sf byReplag (map snapshot (filter (\<lambda>ts. serving ts \<and> \<not> IsReplicationLagVeryHigh cfg ts) ths)))"

text \<open>The mean without the element at the index; the sum and the quotient are \<open>uint64\<close>.\<close>

definition mean :: "lag_health list \<Rightarrow> int \<Rightarrow> 64 word option" where
  "mean ths idxExclude =
     (let kept = map snd (filter (\<lambda>(i, ts). int i \<noteq> idxExclude) (enumerate 0 ths));
          sum = fold (\<lambda>ts s. s + ucast (ReplicationLagSeconds ts)) kept (0 :: 64 word) in
      if kept = [] then None else Some (sum div of_nat (length kept)))"

definition keep_mean :: "(64 word \<Rightarrow> 64 word \<Rightarrow> bool) \<Rightarrow> lag_health list \<Rightarrow> lag_health list" where
  "keep_mean above70 ths =
     (let m = (case mean ths (-1) of None \<Rightarrow> 0 | Some m \<Rightarrow> m) in
      map snd (filter (\<lambda>(i, ts). above70 (case mean ths (int i) of None \<Rightarrow> 0 | Some mi \<Rightarrow> mi) m) (enumerate 0 ths)))"

definition filterStatsByLagWithLegacyAlgorithm ::
    "(64 word \<Rightarrow> 64 word \<Rightarrow> bool) \<Rightarrow> lag_snapshot sorter \<Rightarrow> lag_config \<Rightarrow> lag_health list \<Rightarrow> lag_health list" where
  "filterStatsByLagWithLegacyAlgorithm above70 sf cfg ths =
     (let ts = filter serving ths in
      if length ts \<le> 1 then ts
      else if list_all (\<lambda>t. \<not> IsReplicationLagHigh cfg t) ts then ts
      else (let res = keep_mean above70 ts in
        if int (length res) \<ge> minNumTablets cfg then res
        else (let some = map snapshot (filter (\<lambda>t. \<not> IsReplicationLagVeryHigh cfg t) ts);
                  snaps = (if some = [] then map snapshot ts else some);
                  sorted = sf byReplag snaps in
              map snapTs (take (nat (min (minNumTablets cfg) (int (length snaps)))) sorted))))"

definition FilterStatsByReplicationLag ::
    "(64 word \<Rightarrow> 64 word \<Rightarrow> bool) \<Rightarrow> lag_snapshot sorter \<Rightarrow> lag_config \<Rightarrow> lag_health list \<Rightarrow> lag_health list" where
  "FilterStatsByReplicationLag above70 sf cfg ths =
     (if \<not> legacyReplicationLagAlgorithm cfg then filterStatsByLag sf cfg ths
      else (let res = filterStatsByLagWithLegacyAlgorithm above70 sf cfg ths in
        if int (length res) > minNumTablets cfg \<and> length res + 1 = length ths
        then filterStatsByLagWithLegacyAlgorithm above70 sf cfg res else res))"

section \<open>The simplified algorithm\<close>

lemma pick_lag_parts:
  "\<forall>s\<in>set a. \<not> IsReplicationLagHigh cfg (snapTs s) \<Longrightarrow> \<forall>s\<in>set b. IsReplicationLagHigh cfg (snapTs s) \<Longrightarrow>
   pick_lag cfg i (a @ b) = map snapTs (a @ take (nat (minNumTablets cfg - i - int (length a))) b)"
proof (induction a arbitrary: i)
  case Nil
  then show ?case
  proof (induction b arbitrary: i)
    case (Cons s ss)
    have "nat (minNumTablets cfg - i) = Suc (nat (minNumTablets cfg - (i + 1)))" if "i < minNumTablets cfg"
      using that by simp
    with Cons show ?case by (cases "i < minNumTablets cfg") simp_all
  qed simp
next
  case (Cons s ss)
  then show ?case by (simp add: algebra_simps)
qed

definition eligible :: "lag_config \<Rightarrow> lag_health list \<Rightarrow> lag_health list" where
  "eligible cfg ths = filter (\<lambda>ts. serving ts \<and> \<not> IsReplicationLagVeryHigh cfg ts) ths"

lemma high_mono: "IsReplicationLagHigh cfg a \<Longrightarrow> ReplicationLagSeconds a \<le> ReplicationLagSeconds b \<Longrightarrow> IsReplicationLagHigh cfg b"
  by (simp add: IsReplicationLagHigh_def word_le_def)

text \<open>The result in closed form: the sorted list, low lag first, cut behind the low part or at the minimum.\<close>

lemma filterStatsByLag_form:
  assumes "sort_func sf"
  obtains a b where "mset (a @ b) = mset (eligible cfg ths)" "sorted (map ReplicationLagSeconds (a @ b))"
    "\<forall>t\<in>set a. \<not> IsReplicationLagHigh cfg t" "\<forall>t\<in>set b. IsReplicationLagHigh cfg t"
    "filterStatsByLag sf cfg ths = a @ take (nat (minNumTablets cfg - int (length a))) b"
proof -
  have so: "sorting sf" using assms by (simp add: sort_func_sorting)
  let ?el = "eligible cfg ths"
  let ?s = "sf byReplag (map snapshot ?el)" and ?low = "\<lambda>s. \<not> IsReplicationLagHigh cfg (snapTs s)"
  have snap: "s = snapshot (snapTs s)" if "s \<in> set ?s" for s
    using that sorting.set_sf [OF so, of byReplag "map snapshot ?el"] by (auto simp: snapshot_def)
  have key: "map (\<lambda>s. ReplicationLagSeconds (snapTs s)) ?s = map snapReplag ?s"
  proof (rule map_cong [OF refl])
    fix s assume "s \<in> set ?s"
    then have "snapReplag s = snapReplag (snapshot (snapTs s))" using snap by metis
    then show "ReplicationLagSeconds (snapTs s) = snapReplag s" by (simp add: snapshot_def)
  qed
  have sorted: "sorted (map ReplicationLagSeconds (map snapTs ?s))"
    unfolding map_map comp_def key by (rule sorting.sf_sorted_key [OF so]) (simp add: byReplag_def)
  obtain a b where ab: "?s = a @ b" and low: "\<forall>s\<in>set a. ?low s" and b: "b = [] \<or> \<not> ?low (hd b)"
    using takeWhile_dropWhile_id [of ?low ?s, symmetric] set_takeWhileD [of _ ?low ?s] hd_dropWhile [of ?low ?s] by blast
  have high: "\<forall>s\<in>set b. \<not> ?low s"
  proof (cases b)
    case (Cons x xs)
    have "sorted (map ReplicationLagSeconds (map snapTs b))"
      using sorted unfolding ab map_append sorted_append by simp
    with b Cons show ?thesis using high_mono [of cfg "snapTs x"] by auto
  qed simp
  have m: "mset (map snapTs ?s) = mset ?el"
    using sorting.perm [OF so, of byReplag "map snapshot ?el"]
    by (simp add: multiset.map_comp comp_def snapshot_def)
  have "filterStatsByLag sf cfg ths = pick_lag cfg 0 (a @ b)" unfolding filterStatsByLag_def eligible_def [symmetric] ab ..
  also have "\<dots> = map snapTs a @ take (nat (minNumTablets cfg - int (length (map snapTs a)))) (map snapTs b)"
    using pick_lag_parts [OF low, of b 0] high by (simp add: take_map)
  finally have f: "filterStatsByLag sf cfg ths =
    map snapTs a @ take (nat (minNumTablets cfg - int (length (map snapTs a)))) (map snapTs b)" .
  show ?thesis
  proof (rule that [OF _ _ _ _ f])
    show "mset (map snapTs a @ map snapTs b) = mset ?el" using m unfolding ab map_append .
    show "sorted (map ReplicationLagSeconds (map snapTs a @ map snapTs b))" using sorted unfolding ab map_append .
  qed (use low high in auto)
qed

section \<open>The legacy algorithm\<close>

lemma keep_mean_subset: "set (keep_mean g ts) \<subseteq> set ts"
  by (auto simp: keep_mean_def Let_def in_set_enumerate_eq)

definition fallback :: "lag_config \<Rightarrow> lag_health list \<Rightarrow> lag_health list" where
  "fallback cfg ts = (let f = filter (\<lambda>t. \<not> IsReplicationLagVeryHigh cfg t) ts in if f = [] then ts else f)"

lemma legacy_form:
  "filterStatsByLagWithLegacyAlgorithm g sf cfg ths =
     (let ts = filter serving ths in
      if length ts \<le> 1 \<or> list_all (\<lambda>t. \<not> IsReplicationLagHigh cfg t) ts then ts
      else if int (length (keep_mean g ts)) \<ge> minNumTablets cfg then keep_mean g ts
      else map snapTs (take (nat (min (minNumTablets cfg) (int (length (fallback cfg ts))))) (sf byReplag (map snapshot (fallback cfg ts)))))"
proof -
  have "(if map snapshot f = [] then map snapshot ts else map snapshot f) = map snapshot (if f = [] then ts else f)" for f ts
    by simp
  then show ?thesis unfolding filterStatsByLagWithLegacyAlgorithm_def Let_def fallback_def by simp
qed

lemma fallback_subset: "set (fallback cfg ts) \<subseteq> set ts" "ts \<noteq> [] \<Longrightarrow> fallback cfg ts \<noteq> []"
  by (auto simp: fallback_def Let_def)

lemma set_if3: "set x \<subseteq> S \<Longrightarrow> set y \<subseteq> S \<Longrightarrow> set z \<subseteq> S \<Longrightarrow> set (if P then x else if Q then y else z) \<subseteq> S"
  by simp

lemma nonempty_if3: "x \<noteq> [] \<Longrightarrow> (Q \<Longrightarrow> y \<noteq> []) \<Longrightarrow> z \<noteq> [] \<Longrightarrow> (if P then x else if Q then y else z) \<noteq> []"
  by simp

lemma legacy_serving:
  assumes "sort_func sf"
  shows "set (filterStatsByLagWithLegacyAlgorithm g sf cfg ths) \<subseteq> set (filter serving ths)"
    and "1 \<le> minNumTablets cfg \<Longrightarrow> filter serving ths \<noteq> [] \<Longrightarrow> filterStatsByLagWithLegacyAlgorithm g sf cfg ths \<noteq> []"
proof -
  have so: "sorting sf" using assms by (simp add: sort_func_sorting)
  let ?ts = "filter serving ths"
  let ?s = "sf byReplag (map snapshot (fallback cfg ?ts))"
  have "snapTs ` set (take n ?s) \<subseteq> set (fallback cfg ?ts)" for n
    using set_take_subset [of n ?s] sorting.set_sf [OF so, of byReplag "map snapshot (fallback cfg ?ts)"]
    by (auto simp: snapshot_def)
  then have sub: "set (map snapTs (take n ?s)) \<subseteq> set ?ts" for n using fallback_subset(1) [of cfg ?ts] by fastforce
  then show "set (filterStatsByLagWithLegacyAlgorithm g sf cfg ths) \<subseteq> set ?ts"
    using keep_mean_subset [of g ?ts] unfolding legacy_form Let_def by (intro set_if3) simp_all
  assume min: "1 \<le> minNumTablets cfg" and ne: "?ts \<noteq> []"
  then have "0 < length (fallback cfg ?ts)" using fallback_subset(2) by blast
  moreover have "length ?s = length (fallback cfg ?ts)" using sorting.length_sf [OF so] by simp
  ultimately have "?s \<noteq> []" "0 < length (fallback cfg ?ts)" by auto
  then have "map snapTs (take (nat (min (minNumTablets cfg) (int (length (fallback cfg ?ts))))) ?s) \<noteq> []"
    using min by (simp add: min_def)
  moreover have "keep_mean g ?ts \<noteq> []" if "int (length (keep_mean g ?ts)) \<ge> minNumTablets cfg" using that min by auto
  ultimately show "filterStatsByLagWithLegacyAlgorithm g sf cfg ths \<noteq> []"
    using ne unfolding legacy_form Let_def by (intro nonempty_if3)
qed

section \<open>Properties\<close>

text \<open>
  C29. The simplified lag filter offers, ordered by lag, every serving tablet with low lag, and
  beyond those only what is needed to have the minimum number of tablets: it reaches that number when
  enough tablets are below the high threshold, a tablet with high lag is offered only then, and no
  tablet left out has less lag than one offered.
\<close>

theorem lag_filter_selects:
  assumes "sort_func sf"
  shows "mset (filterStatsByLag sf cfg ths) \<subseteq># mset (eligible cfg ths) \<and>
    sorted (map ReplicationLagSeconds (filterStatsByLag sf cfg ths)) \<and>
    filter_mset (\<lambda>t. \<not> IsReplicationLagHigh cfg t) (mset (filterStatsByLag sf cfg ths)) =
      filter_mset (\<lambda>t. \<not> IsReplicationLagHigh cfg t) (mset (eligible cfg ths)) \<and>
    min (minNumTablets cfg) (int (length (eligible cfg ths))) \<le> int (length (filterStatsByLag sf cfg ths)) \<and>
    (\<forall>t\<in>set (filterStatsByLag sf cfg ths). IsReplicationLagHigh cfg t \<longrightarrow>
       int (length (filterStatsByLag sf cfg ths)) \<le> minNumTablets cfg) \<and>
    (\<forall>t\<in>set (eligible cfg ths) - set (filterStatsByLag sf cfg ths). \<forall>u\<in>set (filterStatsByLag sf cfg ths).
       ReplicationLagSeconds u \<le> ReplicationLagSeconds t)"
proof (rule filterStatsByLag_form [OF assms, of cfg ths])
  fix a b :: "lag_health list"
  let ?n = "nat (minNumTablets cfg - int (length a))"
  assume m: "mset (a @ b) = mset (eligible cfg ths)" and so: "sorted (map ReplicationLagSeconds (a @ b))"
    and low: "\<forall>t\<in>set a. \<not> IsReplicationLagHigh cfg t" and high: "\<forall>t\<in>set b. IsReplicationLagHigh cfg t"
    and f: "filterStatsByLag sf cfg ths = a @ take ?n b"
  have split: "a @ b = (a @ take ?n b) @ drop ?n b" by simp
  have len: "length (eligible cfg ths) = length a + length b" using m by (metis mset_eq_length length_append)
  have st: "set (eligible cfg ths) = set a \<union> set b" using m by (metis mset_eq_setD set_append)
  have parts: "sorted (map ReplicationLagSeconds (a @ take ?n b))"
    "\<forall>u\<in>set (a @ take ?n b). \<forall>t\<in>set (drop ?n b). ReplicationLagSeconds u \<le> ReplicationLagSeconds t"
    using so unfolding split map_append sorted_append by auto
  have fl: "filter_mset (\<lambda>t. \<not> IsReplicationLagHigh cfg t) (mset xs) = {#}" if "\<forall>t\<in>set xs. IsReplicationLagHigh cfg t" for xs
    using that by (induction xs) simp_all
  show ?thesis
  proof (intro conjI)
    show "mset (filterStatsByLag sf cfg ths) \<subseteq># mset (eligible cfg ths)"
      unfolding f m [symmetric] by (subst split, subst mset_append) simp
    show "sorted (map ReplicationLagSeconds (filterStatsByLag sf cfg ths))" using parts(1) f by simp
    have "\<forall>t\<in>set (take ?n b). IsReplicationLagHigh cfg t" using high by (auto dest: in_set_takeD)
    from fl [OF this] fl [OF high] show "filter_mset (\<lambda>t. \<not> IsReplicationLagHigh cfg t) (mset (filterStatsByLag sf cfg ths)) =
      filter_mset (\<lambda>t. \<not> IsReplicationLagHigh cfg t) (mset (eligible cfg ths))"
      unfolding f m [symmetric] mset_append filter_union_mset by (simp only:)
    show "min (minNumTablets cfg) (int (length (eligible cfg ths))) \<le> int (length (filterStatsByLag sf cfg ths))"
      unfolding f len by (auto simp: min_def)
    show "\<forall>t\<in>set (filterStatsByLag sf cfg ths). IsReplicationLagHigh cfg t \<longrightarrow>
       int (length (filterStatsByLag sf cfg ths)) \<le> minNumTablets cfg"
    proof (intro ballI impI)
      fix t assume "t \<in> set (filterStatsByLag sf cfg ths)" "IsReplicationLagHigh cfg t"
      then have "take ?n b \<noteq> []" using f low by auto
      then have "0 < ?n" by auto
      then show "int (length (filterStatsByLag sf cfg ths)) \<le> minNumTablets cfg" unfolding f by auto
    qed
    show "\<forall>t\<in>set (eligible cfg ths) - set (filterStatsByLag sf cfg ths). \<forall>u\<in>set (filterStatsByLag sf cfg ths).
       ReplicationLagSeconds u \<le> ReplicationLagSeconds t"
    proof (intro ballI)
      fix t u assume t: "t \<in> set (eligible cfg ths) - set (filterStatsByLag sf cfg ths)" and u: "u \<in> set (filterStatsByLag sf cfg ths)"
      have "set b = set (take ?n b) \<union> set (drop ?n b)" by (metis append_take_drop_id set_append)
      then have "t \<in> set (drop ?n b)" using t st f by auto
      then show "ReplicationLagSeconds u \<le> ReplicationLagSeconds t" using parts(2) u f by auto
    qed
  qed
qed

definition tablet_with_lag :: "32 word \<Rightarrow> lag_health" where
  "tablet_with_lag n = \<lparr>lhId = [], lhServing = True, lhLastError = False, lhStats = Some n\<rparr>"

definition default_lags :: lag_config where
  "default_lags = \<lparr>lowReplicationLag = 30000000000, highReplicationLagMinServing = 7200000000000, minNumTablets = 2,
     legacyReplicationLagAlgorithm = False\<rparr>"

lemma doc_example:
  "eligible default_lags (map tablet_with_lag [2100, 1800, 2700, 7201]) = map tablet_with_lag [2100, 1800, 2700]"
  "filterStatsByLag insertion_sort default_lags (map tablet_with_lag [2100, 1800, 2700, 7201]) = map tablet_with_lag [1800, 2100]"
  by (simp_all add: eligible_def filterStatsByLag_def serving_def IsReplicationLagVeryHigh_def IsReplicationLagHigh_def
      ReplicationLagSeconds_def tablet_with_lag_def default_lags_def snapshot_def insertion_sort_def byReplag_def)

theorem lag_filter_selects_witness:
  "sort_func (insertion_sort :: lag_snapshot sorter) \<and>
   filterStatsByLag insertion_sort default_lags (map tablet_with_lag [2100, 1800, 2700, 7201]) = map tablet_with_lag [1800, 2100] \<and>
   mset (map tablet_with_lag [1800, 2100]) \<subseteq># mset (map tablet_with_lag [2100, 1800, 2700])"
  using lag_filter_selects [OF sort_func_insertion_sort, of default_lags "map tablet_with_lag [2100, 1800, 2700, 7201]"]
    sort_func_insertion_sort
  unfolding doc_example by blast

text \<open>
  With the legacy algorithm lag never takes the last tablet away: what is offered is serving, and
  when some tablet serves at least one is offered, however large its lag.
\<close>

theorem legacy_filter_keeps_serving:
  assumes "sort_func sf" "legacyReplicationLagAlgorithm cfg" "1 \<le> minNumTablets cfg"
  shows "set (FilterStatsByReplicationLag g sf cfg ths) \<subseteq> set (filter serving ths) \<and>
    (filter serving ths \<noteq> [] \<longrightarrow> FilterStatsByReplicationLag g sf cfg ths \<noteq> [])"
proof -
  let ?r = "filterStatsByLagWithLegacyAlgorithm g sf cfg ths"
  let ?r2 = "filterStatsByLagWithLegacyAlgorithm g sf cfg ?r"
  note one = legacy_serving [OF assms(1), where g = g and cfg = cfg and ths = ths]
  note two = legacy_serving [OF assms(1), where g = g and cfg = cfg and ths = ?r]
  have "filter serving ?r = ?r" using one(1) by (intro filter_True) auto
  with one two assms(3) have "set ?r2 \<subseteq> set (filter serving ths)" "filter serving ths \<noteq> [] \<Longrightarrow> ?r2 \<noteq> []" by auto
  with one assms show ?thesis by (auto simp: FilterStatsByReplicationLag_def Let_def)
qed

theorem legacy_filter_keeps_serving_witness:
  "FilterStatsByReplicationLag (\<lambda>a b. 10 * a > 7 * b) insertion_sort (default_lags\<lparr>legacyReplicationLagAlgorithm := True\<rparr>)
     (map tablet_with_lag [10800, 108000]) \<noteq> []"
proof -
  have "filter serving (map tablet_with_lag [10800, 108000]) \<noteq> []" by (simp add: serving_def tablet_with_lag_def)
  with legacy_filter_keeps_serving [OF sort_func_insertion_sort, where cfg = "default_lags\<lparr>legacyReplicationLagAlgorithm := True\<rparr>"
      and ths = "map tablet_with_lag [10800, 108000]" and g = "\<lambda>a b. 10 * a > 7 * b"]
  show ?thesis by (simp add: default_lags_def)
qed

end
