(* ===== verification/IdPool.thy ===== *)
theory IdPool
  imports Prelude
begin

text \<open>
  The pool of identifiers of \<open>go/pools/id_pool.go\<close>: its two fields, \<open>Get\<close> and
  \<open>Put\<close>, and the runs of clients that return only what they were given. In every run the
  identifiers handed out concurrently are distinct, never exceed the peak number of concurrent
  uses, and can be put back without a panic.
\<close>

section \<open>The pool\<close>

record id_pool =
  used :: "(32 word, bool) gomap"
  maxUsed :: "32 word"

definition NewIDPool :: "32 word \<Rightarrow> id_pool" where
  "NewIDPool initValue = \<lparr>used = [], maxUsed = initValue\<rparr>"

text \<open>
  The range loop over \<open>used\<close> returns in its first round; Go leaves open which entry that
  is, so the round visits entry \<open>i\<close> modulo the number of entries.
\<close>

definition IDPool_Get :: "nat \<Rightarrow> id_pool \<Rightarrow> id_pool \<times> 32 word" where
  "IDPool_Get i pool =
     (if used pool \<noteq> [] then
        let key = fst (used pool ! (i mod length (used pool))) in (pool\<lparr>used := mdel key (used pool)\<rparr>, key)
      else let pool' = pool\<lparr>maxUsed := maxUsed pool + 1\<rparr> in (pool', maxUsed pool'))"

definition IDPool_Put :: "32 word \<Rightarrow> id_pool \<Rightarrow> id_pool outcome" where
  "IDPool_Put idn pool =
     (if idn < 1 \<or> idn > maxUsed pool then Panic
      else if map_of (used pool) idn = Some True then Panic
      else if idn = maxUsed pool then Ret (pool\<lparr>maxUsed := idn - 1\<rparr>)
      else Ret (pool\<lparr>used := mput idn True (used pool)\<rparr>))"

section \<open>Runs\<close>

text \<open>
  \<open>pool_run init pool out peak\<close>: clients reached the pool, hold the identifiers
  \<open>out\<close>, and at most \<open>peak\<close> were held at once. A client puts back only what it
  holds, and fewer than \<open>2^32 - 1\<close> identifiers exist when \<open>Get\<close> is called.
\<close>

inductive pool_run :: "32 word \<Rightarrow> id_pool \<Rightarrow> 32 word set \<Rightarrow> nat \<Rightarrow> bool" for init where
  start: "pool_run init (NewIDPool init) {} 0"
| get: "pool_run init pool out peak \<Longrightarrow> unat (maxUsed pool) < 2 ^ 32 - 1 \<Longrightarrow> IDPool_Get i pool = (pool', idn) \<Longrightarrow>
    pool_run init pool' (insert idn out) (max peak (card (insert idn out)))"
| put: "pool_run init pool out peak \<Longrightarrow> idn \<in> out \<Longrightarrow> IDPool_Put idn pool = Ret pool' \<Longrightarrow>
    pool_run init pool' (out - {idn}) peak"

definition pool_inv :: "32 word \<Rightarrow> id_pool \<Rightarrow> 32 word set \<Rightarrow> nat \<Rightarrow> bool" where
  "pool_inv init pool out peak \<longleftrightarrow>
     wf_map (used pool) \<and> init \<le> maxUsed pool \<and> out \<inter> fst ` set (used pool) = {} \<and>
     out \<union> fst ` set (used pool) = {init<..maxUsed pool} \<and> unat (maxUsed pool) \<le> unat init + peak"

lemma mem_of_lookup: "map_of m k = Some v \<Longrightarrow> k \<in> fst ` set m"
  by (force dest: map_of_SomeD)

lemma card_word_interval: "(a :: 32 word) \<le> b \<Longrightarrow> card {a<..b} = unat b - unat a"
proof -
  assume le: "a \<le> b"
  have "n \<in> unat ` {a<..b}" if n: "n \<in> {unat a<..unat b}" for n
  proof -
    from n have "n < 2 ^ LENGTH(32)" using unsigned_less [of b] by (auto intro: le_less_trans)
    then have "unat (of_nat n :: 32 word) = n" by (rule of_nat_inverse [OF refl])
    with n show ?thesis by (intro image_eqI [of _ _ "of_nat n"]) (auto simp: word_le_nat_alt word_less_nat_alt)
  qed
  then have "unat ` {a<..b} = {unat a<..unat b}" by (auto simp: word_le_nat_alt word_less_nat_alt)
  moreover have "inj_on unat {a<..b}" by (auto intro: inj_onI simp: word_unat_eq_iff)
  ultimately show ?thesis using card_image by fastforce
qed

lemmas word_nat_order = word_le_nat_alt word_less_nat_alt word_unat_eq_iff

lemma succ_interval: "unat (b :: 32 word) < 2 ^ 32 - 1 \<Longrightarrow> a \<le> b \<Longrightarrow>
    {a<..b + 1} = insert (b + 1) {a<..b} \<and> b < b + 1 \<and> unat (b + 1) = unat b + 1"
proof -
  assume b: "unat b < 2 ^ 32 - 1" and a: "a \<le> b"
  from b have s: "unat (b + 1) = unat b + 1" by (simp add: unat_word_ariths)
  have "x \<in> {a<..b + 1} \<longleftrightarrow> x \<in> insert (b + 1) {a<..b}" for x
    using a unfolding greaterThanAtMost_iff insert_iff word_nat_order s by linarith
  with s show ?thesis unfolding set_eq_iff word_less_nat_alt by simp
qed

lemma pred_interval: "(a :: 32 word) < b \<Longrightarrow> {a<..b - 1} = {a<..b} - {b} \<and> a \<le> b - 1 \<and> unat (b - 1) \<le> unat b"
proof -
  assume ab: "a < b"
  then have s: "unat (b - 1) = unat b - 1" by (intro unat_minus_one) auto
  have pos: "unat a < unat b" using ab by (simp add: word_less_nat_alt)
  have "x \<in> {a<..b - 1} \<longleftrightarrow> x \<in> {a<..b} - {b}" for x
    using pos unfolding greaterThanAtMost_iff Diff_iff singleton_iff word_nat_order s by linarith
  with s pos show ?thesis unfolding set_eq_iff word_le_nat_alt by simp
qed

lemma Get_fresh:
  assumes inv: "pool_inv init pool out peak" and room: "unat (maxUsed pool) < 2 ^ 32 - 1"
    and get: "IDPool_Get i pool = (pool', idn)"
  shows "idn \<notin> out \<and> pool_inv init pool' (insert idn out) (max peak (card (insert idn out)))"
proof (cases "used pool = []")
  case True
  with get have e: "pool' = pool\<lparr>maxUsed := maxUsed pool + 1\<rparr>" "idn = maxUsed pool + 1"
    by (auto simp: IDPool_Get_def Let_def)
  from inv True have out: "out = {init<..maxUsed pool}" and le: "init \<le> maxUsed pool" by (auto simp: pool_inv_def)
  note s = succ_interval [OF room le]
  have new: "idn \<notin> out" using s e out by auto
  have "insert idn out = {init<..maxUsed pool + 1}" using s e out by simp
  moreover have "init \<le> maxUsed pool + 1" using s le by auto
  ultimately have "card (insert idn out) = unat (maxUsed pool + 1) - unat init" by (simp add: card_word_interval)
  moreover have "unat init \<le> unat (maxUsed pool + 1)" using \<open>init \<le> maxUsed pool + 1\<close> by (simp add: word_le_nat_alt)
  ultimately show ?thesis using True e new \<open>insert idn out = _\<close> \<open>init \<le> _ + 1\<close> by (simp add: pool_inv_def)
next
  case False
  let ?k = "fst (used pool ! (i mod length (used pool)))"
  from False get have e: "pool' = pool\<lparr>used := mdel ?k (used pool)\<rparr>" "idn = ?k"
    by (auto simp: IDPool_Get_def Let_def)
  have "?k \<in> fst ` set (used pool)" using False by simp
  with inv e show ?thesis by (auto simp: pool_inv_def fst_set_mdel)
qed

lemma Put_returns:
  assumes inv: "pool_inv init pool out peak" and idn: "idn \<in> out"
  shows "\<exists>pool'. IDPool_Put idn pool = Ret pool' \<and> pool_inv init pool' (out - {idn}) peak"
proof -
  from inv idn have rng: "init < idn" "idn \<le> maxUsed pool" and nu: "idn \<notin> fst ` set (used pool)"
    by (auto simp: pool_inv_def)
  have "map_of (used pool) idn \<noteq> Some True" using nu mem_of_lookup by metis
  moreover have "\<not> idn < 1" using rng(1) by (auto simp: word_less_nat_alt)
  moreover have "\<not> maxUsed pool < idn" using rng(2) by simp
  ultimately have put: "IDPool_Put idn pool = (if idn = maxUsed pool then Ret (pool\<lparr>maxUsed := idn - 1\<rparr>)
      else Ret (pool\<lparr>used := mput idn True (used pool)\<rparr>))" unfolding IDPool_Put_def by (simp only: if_False simp_thms)
  show ?thesis
  proof (cases "idn = maxUsed pool")
    case True
    note p = pred_interval [OF rng(1)]
    have "out - {idn} \<union> fst ` set (used pool) = {init<..idn - 1}" using inv nu p True by (auto simp: pool_inv_def)
    then show ?thesis using True put inv p by (auto simp: pool_inv_def)
  next
    case False
    then show ?thesis using put inv idn by (auto simp: pool_inv_def fst_set_mput)
  qed
qed

lemma pool_run_inv: "pool_run init pool out peak \<Longrightarrow> pool_inv init pool out peak"
proof (induction rule: pool_run.induct)
  case start
  show ?case by (simp add: pool_inv_def NewIDPool_def)
next
  case (get pool out peak i pool' idn)
  then show ?case using Get_fresh by blast
next
  case (put pool out peak idn pool')
  then show ?case using Put_returns by fastforce
qed

lemma max_used_bound: "pool_inv init pool out peak \<Longrightarrow> idn \<in> out \<Longrightarrow> unat idn \<le> unat init + peak"
proof -
  assume inv: "pool_inv init pool out peak" and "idn \<in> out"
  then have "idn \<in> {init<..maxUsed pool}" unfolding pool_inv_def by blast
  with inv show ?thesis by (auto simp: pool_inv_def word_le_nat_alt)
qed

section \<open>Properties\<close>


lemma sample_pool_run: "pool_run 0 \<lparr>used = [(1, True)], maxUsed = 2\<rparr> {2} (Suc (Suc 0))"
proof -
  have a: "pool_run 0 \<lparr>used = [], maxUsed = 1\<rparr> {1} 1"
    using pool_run.get [OF pool_run.start, of 0 0 "\<lparr>used = [], maxUsed = 1\<rparr>" 1]
    by (simp add: NewIDPool_def IDPool_Get_def)
  have b: "pool_run 0 \<lparr>used = [], maxUsed = 2\<rparr> {2, 1} (Suc (Suc 0))"
    using pool_run.get [OF a, of 0 "\<lparr>used = [], maxUsed = 2\<rparr>" 2]
    by (simp add: IDPool_Get_def)
  from pool_run.put [OF b, of 1 "\<lparr>used = [(1, True)], maxUsed = 2\<rparr>"] show ?thesis
    by (simp add: IDPool_Put_def insert_Diff_if)
qed


text \<open>A pool that starts above zero accepts identifiers it never handed out.\<close>

lemma Put_accepts_foreign: "IDPool_Put 5 (NewIDPool 10) = Ret \<lparr>used = [(5, True)], maxUsed = 10\<rparr>"
  by (simp add: IDPool_Put_def NewIDPool_def)

end
