(* ===== verification/LruCache.thy ===== *)
theory LruCache
  imports Prelude
begin

text \<open>
  The cache of \<open>go/cache/lru_cache.go\<close>: a doubly linked list of entries, most recently
  used first, and a table from keys to list elements. Elements are pointers: an element is its
  address, and the list holds addresses with the entry they point to. The operations refine a
  cache that is just the list of its items in order of use: \<open>Set\<close> puts the item in front
  and keeps the longest prefix that fits the capacity.
\<close>

section \<open>State\<close>

record 'v entry =
  ekey :: string
  evalue :: 'v
  esize :: int
  timeAccessed :: int

record 'v lru_cache =
  llist :: "(nat \<times> 'v entry) list"
  table :: "(string, nat) gomap"
  cost :: "'v \<Rightarrow> int"
  lsize :: int
  capacity :: int
  evictions :: int
  hits :: int
  misses :: int
  fresh :: nat

type_synonym 'v item = "string \<times> 'v"

definition NewLRUCache :: "int \<Rightarrow> ('v \<Rightarrow> int) \<Rightarrow> 'v lru_cache" where
  "NewLRUCache cap c = \<lparr>llist = [], table = [], cost = c, lsize = 0, capacity = cap, evictions = 0,
     hits = 0, misses = 0, fresh = 0\<rparr>"

section \<open>The list of container/list\<close>

text \<open>
  \<open>list.Remove\<close>, \<open>list.MoveToFront\<close> and the entry an element points to; the address
  \<open>fresh\<close> is the next one the allocator gives to \<open>PushFront\<close>.
\<close>

definition list_Remove :: "nat \<Rightarrow> (nat \<times> 'v entry) list \<Rightarrow> (nat \<times> 'v entry) list" where
  "list_Remove el l = filter (\<lambda>(a, e). a \<noteq> el) l"

definition list_MoveToFront :: "nat \<Rightarrow> (nat \<times> 'v entry) list \<Rightarrow> (nat \<times> 'v entry) list" where
  "list_MoveToFront el l = filter (\<lambda>(a, e). a = el) l @ list_Remove el l"

definition deref :: "nat \<Rightarrow> (nat \<times> 'v entry) list \<Rightarrow> 'v entry outcome" where
  "deref el l = (case map_of l el of None \<Rightarrow> Panic | Some e \<Rightarrow> Ret e)"

definition update_entry :: "nat \<Rightarrow> ('v entry \<Rightarrow> 'v entry) \<Rightarrow> (nat \<times> 'v entry) list \<Rightarrow> (nat \<times> 'v entry) list" where
  "update_entry el f l = map (\<lambda>(a, e). (a, if a = el then f e else e)) l"

section \<open>Operations\<close>

definition moveToFront :: "int \<Rightarrow> nat \<Rightarrow> 'v lru_cache \<Rightarrow> 'v lru_cache" where
  "moveToFront now element lru =
     lru\<lparr>llist := update_entry element (\<lambda>e. e\<lparr>timeAccessed := now\<rparr>) (list_MoveToFront element (llist lru))\<rparr>"

function checkCapacity :: "'v lru_cache \<Rightarrow> 'v lru_cache outcome" where
  "checkCapacity lru =
     (if lsize lru > capacity lru then
        (if llist lru = [] then Panic
         else let (delElem, delValue) = last (llist lru) in
           checkCapacity (lru\<lparr>llist := butlast (llist lru), table := mdel (ekey delValue) (table lru),
             lsize := sub64 (lsize lru) (esize delValue), evictions := add64 (evictions lru) 1\<rparr>))
      else Ret lru)"
  by pat_completeness auto

termination
  by (relation "measure (\<lambda>lru. length (llist lru))") auto

declare checkCapacity.simps [simp del]

definition addNew :: "int \<Rightarrow> string \<Rightarrow> 'v \<Rightarrow> 'v lru_cache \<Rightarrow> 'v lru_cache outcome" where
  "addNew now key val lru =
     (let newEntry = \<lparr>ekey = key, evalue = val, esize = cost lru val, timeAccessed = now\<rparr>; element = fresh lru in
      checkCapacity (lru\<lparr>llist := (element, newEntry) # llist lru, fresh := Suc element,
        table := mput key element (table lru), lsize := add64 (lsize lru) (esize newEntry)\<rparr>))"

definition updateInplace :: "int \<Rightarrow> nat \<Rightarrow> 'v \<Rightarrow> 'v lru_cache \<Rightarrow> 'v lru_cache outcome" where
  "updateInplace now element val lru =
     obind (deref element (llist lru)) (\<lambda>e.
       let valueSize = cost lru val; sizeDiff = sub64 valueSize (esize e) in
       checkCapacity (moveToFront now element
         (lru\<lparr>llist := update_entry element (\<lambda>e. e\<lparr>evalue := val, esize := valueSize\<rparr>) (llist lru),
            lsize := add64 (lsize lru) sizeDiff\<rparr>)))"

definition lru_Get :: "int \<Rightarrow> string \<Rightarrow> 'v lru_cache \<Rightarrow> ('v lru_cache \<times> 'v option) outcome" where
  "lru_Get now key lru =
     (case map_of (table lru) key of
        None \<Rightarrow> Ret (lru\<lparr>misses := add64 (misses lru) 1\<rparr>, None)
      | Some element \<Rightarrow>
          obind (deref element (llist lru)) (\<lambda>e.
            Ret ((moveToFront now element lru)\<lparr>hits := add64 (hits lru) 1\<rparr>, Some (evalue e))))"

definition lru_Set :: "int \<Rightarrow> string \<Rightarrow> 'v \<Rightarrow> 'v lru_cache \<Rightarrow> ('v lru_cache \<times> bool) outcome" where
  "lru_Set now key val lru =
     obind (case map_of (table lru) key of
              Some element \<Rightarrow> updateInplace now element val lru
            | None \<Rightarrow> addNew now key val lru) (\<lambda>lru'. Ret (lru', True))"

definition lru_delete :: "string \<Rightarrow> 'v lru_cache \<Rightarrow> ('v lru_cache \<times> bool) outcome" where
  "lru_delete key lru =
     (case map_of (table lru) key of
        None \<Rightarrow> Ret (lru, False)
      | Some element \<Rightarrow>
          obind (deref element (llist lru)) (\<lambda>e.
            Ret (lru\<lparr>llist := list_Remove element (llist lru), table := mdel key (table lru),
              lsize := sub64 (lsize lru) (esize e)\<rparr>, True)))"

definition lru_Delete :: "string \<Rightarrow> 'v lru_cache \<Rightarrow> 'v lru_cache outcome" where
  "lru_Delete key lru = obind (lru_delete key lru) (\<lambda>(lru', _). Ret lru')"

definition lru_Clear :: "'v lru_cache \<Rightarrow> 'v lru_cache" where
  "lru_Clear lru = lru\<lparr>llist := [], table := [], lsize := 0\<rparr>"

definition lru_Len :: "'v lru_cache \<Rightarrow> int" where
  "lru_Len lru = int (length (llist lru))"

definition SetCapacity :: "int \<Rightarrow> 'v lru_cache \<Rightarrow> 'v lru_cache outcome" where
  "SetCapacity cap lru = checkCapacity (lru\<lparr>capacity := cap\<rparr>)"

definition UsedCapacity :: "'v lru_cache \<Rightarrow> int" where
  "UsedCapacity lru = lsize lru"

definition MaxCapacity :: "'v lru_cache \<Rightarrow> int" where
  "MaxCapacity lru = capacity lru"

definition Evictions :: "'v lru_cache \<Rightarrow> int" where
  "Evictions lru = evictions lru"

definition Hits :: "'v lru_cache \<Rightarrow> int" where
  "Hits lru = hits lru"

definition Misses :: "'v lru_cache \<Rightarrow> int" where
  "Misses lru = misses lru"

fun foreach_loop :: "('v \<Rightarrow> 's \<Rightarrow> 's \<times> bool) \<Rightarrow> (nat \<times> 'v entry) list \<Rightarrow> 's \<Rightarrow> 's" where
  "foreach_loop callback [] st = st"
| "foreach_loop callback ((a, e) # l) st =
     (let (st', go_on) = callback (evalue e) st in if go_on then foreach_loop callback l st' else st')"

definition ForEach :: "('v \<Rightarrow> 's \<Rightarrow> 's \<times> bool) \<Rightarrow> 'v lru_cache \<Rightarrow> 's \<Rightarrow> 's" where
  "ForEach callback lru st = foreach_loop callback (llist lru) st"

definition Items :: "'v lru_cache \<Rightarrow> 'v item list" where
  "Items lru = map (\<lambda>(a, e). (ekey e, evalue e)) (llist lru)"

section \<open>Invariant\<close>

definition total_cost :: "('v \<Rightarrow> int) \<Rightarrow> 'v item list \<Rightarrow> int" where
  "total_cost c items = sum_list (map (c \<circ> snd) items)"

text \<open>
  Addresses and keys are distinct, the table points every key to its element, the size is the
  sum of the costs. \<open>costs_ok\<close> is what callers owe the cache: costs are not negative and
  the capacity leaves room for one more item below the largest 64-bit integer.
\<close>

definition lru_shape :: "'v lru_cache \<Rightarrow> bool" where
  "lru_shape lru \<longleftrightarrow>
     wf_map (llist lru) \<and> distinct (map fst (Items lru)) \<and> (\<forall>a \<in> fst ` set (llist lru). a < fresh lru) \<and>
     (\<forall>k a. map_of (table lru) k = Some a \<longleftrightarrow> (\<exists>e. (a, e) \<in> set (llist lru) \<and> ekey e = k)) \<and>
     (\<forall>(a, e) \<in> set (llist lru). esize e = cost lru (evalue e)) \<and> lsize lru = total_cost (cost lru) (Items lru)"

definition costs_ok :: "'v lru_cache \<Rightarrow> bool" where
  "costs_ok lru \<longleftrightarrow> 0 \<le> capacity lru \<and> (\<forall>v. 0 \<le> cost lru v \<and> capacity lru + cost lru v \<le> maxInt64)"

definition lru_inv :: "'v lru_cache \<Rightarrow> bool" where
  "lru_inv lru \<longleftrightarrow> lru_shape lru \<and> costs_ok lru \<and> lsize lru \<le> capacity lru"

text \<open>The abstract cache: the longest prefix of the items that fits.\<close>

fun fit :: "('v \<Rightarrow> int) \<Rightarrow> int \<Rightarrow> 'v item list \<Rightarrow> 'v item list" where
  "fit c cap [] = []"
| "fit c cap (it # items) = (if c (snd it) \<le> cap then it # fit c (cap - c (snd it)) items else [])"

lemma total_simps [simp]:
  "total_cost c [] = 0" "total_cost c (it # items) = c (snd it) + total_cost c items" "total_cost c (xs @ ys) = total_cost c xs + total_cost c ys"
  by (simp_all add: total_cost_def)

lemma total_nonneg: "\<forall>v. 0 \<le> c v \<Longrightarrow> 0 \<le> total_cost c items"
  by (induction items) simp_all

lemma fit_all: "\<forall>v. 0 \<le> c v \<Longrightarrow> total_cost c items \<le> cap \<Longrightarrow> fit c cap items = items"
proof (induction items arbitrary: cap)
  case (Cons it items)
  then show ?case using total_nonneg [of c items] by simp
qed simp

lemma fit_butlast:
  "\<forall>v. 0 \<le> c v \<Longrightarrow> total_cost c items > cap \<Longrightarrow> items \<noteq> [] \<Longrightarrow> fit c cap items = fit c cap (butlast items)"
proof (induction items arbitrary: cap)
  case (Cons it items)
  show ?case
  proof (cases "items = []")
    case False
    with Cons show ?thesis by simp
  qed (use Cons in simp)
qed simp

lemma fit_total: "0 \<le> cap \<Longrightarrow> total_cost c (fit c cap items) \<le> cap"
proof (induction items arbitrary: cap)
  case (Cons it items)
  show ?case
  proof (cases "c (snd it) \<le> cap")
    case True
    with Cons(1) [of "cap - c (snd it)"] show ?thesis by simp
  qed (use Cons in simp)
qed simp

lemma fit_prefix: "\<exists>n. fit c cap items = take n items"
proof (induction items arbitrary: cap)
  case (Cons it items)
  then obtain n where "fit c (cap - c (snd it)) items = take n items" by blast
  then have "fit c cap (it # items) = (if c (snd it) \<le> cap then take (Suc n) (it # items) else take 0 (it # items))" by simp
  then show ?case by metis
qed simp

lemma fit_unit: "fit (\<lambda>_. 1) (int n) items = take n items"
proof (induction items arbitrary: n)
  case (Cons it items)
  show ?case
  proof (cases n)
    case (Suc m)
    then have "int n - 1 = int m" by simp
    with Cons [of m] show ?thesis unfolding Suc by simp
  qed simp
qed simp

section \<open>Correctness of the operations\<close>

lemma Items_cong: "llist a = llist b \<Longrightarrow> Items a = Items b"
  by (simp add: Items_def)

lemma Items_empty [simp]: "Items lru = [] \<longleftrightarrow> llist lru = []"
  by (simp add: Items_def)

lemma butlast_shape:
  assumes shape: "lru_shape lru" and cs: "costs_ok lru" and ne: "llist lru \<noteq> []" and la: "last (llist lru) = (a, e)"
    and sz: "lsize lru \<le> maxInt64"
    and l': "lru' = lru\<lparr>llist := butlast (llist lru), table := mdel (ekey e) (table lru),
             lsize := sub64 (lsize lru) (esize e), evictions := ev\<rparr>"
  shows "lru_shape lru'" "Items lru' = butlast (Items lru)" "lsize lru' \<le> maxInt64"
proof -
  let ?l = "butlast (llist lru)"
  have l: "llist lru = ?l @ [(a, e)]" using ne la append_butlast_last_id by metis
  have its: "Items lru' = butlast (Items lru)" using l' by (simp add: Items_def map_butlast)
  have its2: "Items lru = Items lru' @ [(ekey e, evalue e)]"
    unfolding Items_def l' by (subst l) simp
  have es: "esize e = cost lru (evalue e)" using shape l unfolding lru_shape_def by (metis (mono_tags, lifting) case_prodD in_set_conv_decomp)
  have tot: "lsize lru = total_cost (cost lru) (Items lru') + esize e" using shape its2 es by (simp add: lru_shape_def)
  have nn: "0 \<le> total_cost (cost lru) (Items lru')" using cs by (intro total_nonneg) (simp add: costs_ok_def)
  have "0 \<le> esize e" using cs es by (simp add: costs_ok_def)
  then have "sub64 (lsize lru) (esize e) = total_cost (cost lru) (Items lru')"
    using tot nn sz by (simp add: sub64_id maxInt64_def)
  then have sz': "lsize lru' = total_cost (cost lru) (Items lru')" using l' by simp
  then show "lsize lru' \<le> maxInt64" using tot sz \<open>0 \<le> esize e\<close> by simp
  have dk: "distinct (map fst (Items lru') @ [ekey e])" using shape its2 by (simp add: lru_shape_def)
  have keys: "ekey e' \<noteq> ekey e" if "(b, e') \<in> set ?l" for b e'
    using dk that l' by (force simp: Items_def)
  have tab: "map_of (table lru') k = Some b \<longleftrightarrow> (\<exists>e'. (b, e') \<in> set ?l \<and> ekey e' = k)" for k b
  proof -
    have "set (llist lru) = insert (a, e) (set ?l)" by (subst l) simp
    moreover have "map_of (table lru) k = Some b \<longleftrightarrow> (\<exists>e'. (b, e') \<in> set (llist lru) \<and> ekey e' = k)"
      using shape unfolding lru_shape_def by blast
    ultimately have "map_of (table lru) k = Some b \<longleftrightarrow> (\<exists>e'. (b, e') \<in> insert (a, e) (set ?l) \<and> ekey e' = k)" by simp
    then show ?thesis using keys l' by auto
  qed
  have wf: "wf_map (?l @ [(a, e)])" using shape l by (simp add: lru_shape_def)
  then have "wf_map ?l" by (simp add: wf_map_def)
  moreover have "set ?l \<subseteq> set (llist lru)" by (meson in_set_butlastD subsetI)
  ultimately show "lru_shape lru'"
    using shape dk tab sz' l' unfolding lru_shape_def by auto
  show "Items lru' = butlast (Items lru)" by (rule its)
qed

lemma checkCapacity_correct:
  assumes "lru_shape lru" "costs_ok lru" "lsize lru \<le> maxInt64"
  shows "\<exists>lru'. checkCapacity lru = Ret lru' \<and> lru_inv lru' \<and> Items lru' = fit (cost lru) (capacity lru) (Items lru) \<and>
    cost lru' = cost lru \<and> capacity lru' = capacity lru"
  using assms
proof (induction lru rule: checkCapacity.induct)
  case (1 lru)
  have nn: "\<forall>v. 0 \<le> cost lru v" using 1(3) by (simp add: costs_ok_def)
  have tot: "lsize lru = total_cost (cost lru) (Items lru)" using 1(2) by (simp add: lru_shape_def)
  show ?case
  proof (cases "lsize lru > capacity lru")
    case False
    then have "checkCapacity lru = Ret lru" by (subst checkCapacity.simps) simp
    with False 1(2,3) fit_all [OF nn] tot show ?thesis by (simp add: lru_inv_def)
  next
    case True
    have ne: "llist lru \<noteq> []" using True tot 1(3) by (auto simp: costs_ok_def Items_def)
    obtain a e where la: "last (llist lru) = (a, e)" by fastforce
    define lru1 where "lru1 = lru\<lparr>llist := butlast (llist lru), table := mdel (ekey e) (table lru),
             lsize := sub64 (lsize lru) (esize e), evictions := add64 (evictions lru) 1\<rparr>"
    note b = butlast_shape [OF 1(2,3) ne la 1(4) lru1_def]
    have cc: "checkCapacity lru = checkCapacity lru1"
      using True ne la by (subst checkCapacity.simps) (simp add: lru1_def)
    have c1: "costs_ok lru1" "cost lru1 = cost lru" "capacity lru1 = capacity lru" using 1(3) by (auto simp: lru1_def costs_ok_def)
    have "Items lru \<noteq> []" using ne by simp
    then have "fit (cost lru) (capacity lru) (Items lru) = fit (cost lru) (capacity lru) (Items lru1)"
      using fit_butlast [OF nn] True tot b(2) by simp
    with 1(1) [OF True ne la [symmetric] refl] b c1 cc show ?thesis by (simp add: lru1_def)
  qed
qed


lemma table_None:
  assumes "lru_shape lru" shows "map_of (table lru) k = None \<longleftrightarrow> map_of (Items lru) k = None"
proof -
  have "map_of (table lru) k \<noteq> None \<longleftrightarrow> (\<exists>a e. (a, e) \<in> set (llist lru) \<and> ekey e = k)"
    using assms unfolding lru_shape_def by (metis (no_types, lifting) option.exhaust option.simps(3))
  also have "\<dots> \<longleftrightarrow> k \<in> fst ` set (Items lru)" by (force simp: Items_def)
  finally show ?thesis by (simp add: map_of_eq_None_iff)
qed

text \<open>An element the table points to splits the list: everything about it follows.\<close>

lemma element_split:
  assumes "lru_shape lru" "map_of (table lru) k = Some a"
  obtains l1 e l2 where "llist lru = l1 @ (a, e) # l2" "ekey e = k" "a \<notin> fst ` set l1" "a \<notin> fst ` set l2"
    "\<forall>x \<in> set l1. ekey (snd x) \<noteq> k" "\<forall>x \<in> set l2. ekey (snd x) \<noteq> k" "esize e = cost lru (evalue e)"
proof -
  obtain e where e: "(a, e) \<in> set (llist lru)" "ekey e = k" using assms unfolding lru_shape_def by blast
  then obtain l1 l2 where l: "llist lru = l1 @ (a, e) # l2" by (meson split_list)
  have "wf_map (llist lru)" using assms(1) by (simp add: lru_shape_def)
  then have addr: "a \<notin> fst ` set l1" "a \<notin> fst ` set l2" unfolding l wf_map_def by auto
  have "distinct (map fst (Items lru))" using assms(1) by (simp add: lru_shape_def)
  then have "distinct (map (ekey \<circ> snd) l1 @ k # map (ekey \<circ> snd) l2)"
    unfolding Items_def l using e(2) by (simp add: comp_def case_prod_beta)
  then have keys: "\<forall>x \<in> set l1. ekey (snd x) \<noteq> k" "\<forall>x \<in> set l2. ekey (snd x) \<noteq> k" by auto
  have "esize e = cost lru (evalue e)" using assms(1) e(1) unfolding lru_shape_def by blast
  from that [OF l e(2) addr keys this] show ?thesis .
qed

lemma list_ops_split:
  assumes "a \<notin> fst ` set l1" "a \<notin> fst ` set l2"
  shows "list_Remove a (l1 @ (a, e) # l2) = l1 @ l2" "list_MoveToFront a (l1 @ (a, e) # l2) = (a, e) # l1 @ l2"
    "deref a (l1 @ (a, e) # l2) = Ret e" "update_entry a f (l1 @ (a, e) # l2) = l1 @ (a, f e) # l2"
    "update_entry a f ((a, e) # l1 @ l2) = (a, f e) # l1 @ l2"
proof -
  have f: "filter (\<lambda>(b, x). b \<noteq> a) l = l" "filter (\<lambda>(b, x). b = a) l = []"
    "map (\<lambda>(b, x). (b, if b = a then f x else x)) l = l" "map_of l a = None"
    if "a \<notin> fst ` set l" for l :: "(nat \<times> 'a entry) list"
    using that by (force simp: filter_id_conv filter_empty_conv map_of_eq_None_iff intro: map_idI)+
  show "list_Remove a (l1 @ (a, e) # l2) = l1 @ l2" by (simp add: list_Remove_def f assms)
  show "list_MoveToFront a (l1 @ (a, e) # l2) = (a, e) # l1 @ l2"
    by (simp add: list_MoveToFront_def list_Remove_def f assms)
  show "deref a (l1 @ (a, e) # l2) = Ret e" by (simp add: deref_def map_add_def f assms)
  show "update_entry a f (l1 @ (a, e) # l2) = l1 @ (a, f e) # l2" by (simp add: update_entry_def f assms)
  show "update_entry a f ((a, e) # l1 @ l2) = (a, f e) # l1 @ l2" by (simp add: update_entry_def f assms)
qed

definition without :: "string \<Rightarrow> 'v item list \<Rightarrow> 'v item list" where
  "without k items = filter (\<lambda>it. fst it \<noteq> k) items"

lemma Items_split:
  assumes "llist lru = l1 @ (a, e) # l2" "ekey e = k" "\<forall>x \<in> set l1. ekey (snd x) \<noteq> k" "\<forall>x \<in> set l2. ekey (snd x) \<noteq> k"
  shows "without k (Items lru) = map (\<lambda>(a, e). (ekey e, evalue e)) (l1 @ l2)" "map_of (Items lru) k = Some (evalue e)"
proof -
  have "filter (\<lambda>it. fst it \<noteq> k) (map (\<lambda>(a, e). (ekey e, evalue e)) l) = map (\<lambda>(a, e). (ekey e, evalue e)) l"
    and "map_of (map (\<lambda>(a, e). (ekey e, evalue e)) l) k = None"
    if "\<forall>x \<in> set l. ekey (snd x) \<noteq> k" for l :: "(nat \<times> 'a entry) list"
    using that by (auto simp: filter_id_conv map_of_eq_None_iff case_prod_beta)
  note f = this
  show "without k (Items lru) = map (\<lambda>(a, e). (ekey e, evalue e)) (l1 @ l2)"
    using assms(2) by (simp add: without_def Items_def assms(1) f assms(3,4))
  show "map_of (Items lru) k = Some (evalue e)"
    using assms(2) by (simp add: Items_def assms(1) map_add_def f assms(3,4))
qed

text \<open>Moving an element to the front, possibly with a new value, keeps the shape.\<close>

lemma front_shape:
  assumes shape: "lru_shape lru" and l: "llist lru = l1 @ (a, e) # l2" and e': "ekey e' = ekey e" "esize e' = cost lru (evalue e')"
    and l': "llist lru' = (a, e') # l1 @ l2" and rest: "table lru' = table lru" "cost lru' = cost lru" "fresh lru' = fresh lru"
      "lsize lru' = lsize lru - esize e + esize e'"
  shows "lru_shape lru'"
proof -
  have wf: "wf_map (llist lru')" using shape unfolding lru_shape_def wf_map_def l l' by auto
  have ks: "distinct (map fst (Items lru'))" using shape e'(1) unfolding lru_shape_def Items_def l l' by auto
  have dom: "fst ` set (llist lru') = fst ` set (llist lru)" unfolding l l' by auto
  have tab: "(\<exists>x. (b, x) \<in> set (llist lru') \<and> ekey x = k) \<longleftrightarrow> (\<exists>x. (b, x) \<in> set (llist lru) \<and> ekey x = k)" for b k
    unfolding l l' using e'(1) by auto
  have es: "\<forall>(a, x) \<in> set (llist lru). esize x = cost lru (evalue x)" using shape by (simp add: lru_shape_def)
  then have "esize e = cost lru (evalue e)" unfolding l by simp
  then have "lsize lru' = total_cost (cost lru) (Items lru')"
    using shape rest(4) e'(2) unfolding lru_shape_def Items_def l l' by simp
  then show ?thesis using shape wf ks dom tab es e'(2) rest unfolding lru_shape_def by (simp add: l l')
qed

lemma Get_correct:
  assumes "lru_inv lru"
  shows "\<exists>lru'. lru_Get now k lru = Ret (lru', map_of (Items lru) k) \<and> lru_inv lru' \<and>
    Items lru' = (case map_of (Items lru) k of None \<Rightarrow> Items lru | Some v \<Rightarrow> (k, v) # without k (Items lru)) \<and>
    cost lru' = cost lru \<and> capacity lru' = capacity lru"
proof (cases "map_of (table lru) k")
  case None
  moreover have "map_of (Items lru) k = None" using None table_None assms by (auto simp: lru_inv_def)
  ultimately show ?thesis using assms
    by (simp add: lru_Get_def lru_inv_def lru_shape_def costs_ok_def Items_def)
next
  case (Some a)
  have shape: "lru_shape lru" using assms by (simp add: lru_inv_def)
  obtain l1 e l2 where sp: "llist lru = l1 @ (a, e) # l2" "ekey e = k" "a \<notin> fst ` set l1" "a \<notin> fst ` set l2"
    "\<forall>x \<in> set l1. ekey (snd x) \<noteq> k" "\<forall>x \<in> set l2. ekey (snd x) \<noteq> k" "esize e = cost lru (evalue e)"
    using element_split [OF shape Some] .
  note it = Items_split [OF sp(1,2,5,6)] and lo = list_ops_split [OF sp(3,4)]
  define lru' where "lru' = (moveToFront now a lru)\<lparr>hits := add64 (hits lru) 1\<rparr>"
  have l': "llist lru' = (a, e\<lparr>timeAccessed := now\<rparr>) # l1 @ l2" by (simp add: lru'_def moveToFront_def sp(1) lo)
  have "lru_shape lru'" by (rule front_shape [OF shape sp(1) _ _ l']) (simp_all add: lru'_def moveToFront_def sp(7))
  then have "lru_inv lru'" using assms by (simp add: lru_inv_def costs_ok_def lru'_def moveToFront_def)
  moreover have "lru_Get now k lru = Ret (lru', Some (evalue e))" by (simp add: lru_Get_def Some sp(1) lo lru'_def)
  moreover have "Items lru' = (k, evalue e) # without k (Items lru)" by (simp add: Items_def [of lru'] l' it sp(2))
  ultimately show ?thesis by (simp add: it lru'_def moveToFront_def)
qed

lemma addNew_correct:
  assumes inv: "lru_inv lru" and new: "map_of (table lru) k = None"
  shows "\<exists>lru'. addNew now k v lru = Ret lru' \<and> lru_inv lru' \<and>
    Items lru' = fit (cost lru) (capacity lru) ((k, v) # without k (Items lru)) \<and>
    cost lru' = cost lru \<and> capacity lru' = capacity lru"
proof -
  let ?e = "\<lparr>ekey = k, evalue = v, esize = cost lru v, timeAccessed = now\<rparr>"
  define lru1 where "lru1 = lru\<lparr>llist := (fresh lru, ?e) # llist lru, fresh := Suc (fresh lru),
        table := mput k (fresh lru) (table lru), lsize := add64 (lsize lru) (cost lru v)\<rparr>"
  from inv have shape: "lru_shape lru" and cs: "costs_ok lru" and le: "lsize lru \<le> capacity lru" by (auto simp: lru_inv_def)
  have kn: "k \<notin> fst ` set (Items lru)" using new table_None [OF shape] by (simp add: map_of_eq_None_iff)
  then have w: "without k (Items lru) = Items lru" by (force simp: without_def filter_id_conv)
  have fr: "fresh lru \<notin> fst ` set (llist lru)" using shape unfolding lru_shape_def by blast
  have nn: "0 \<le> total_cost (cost lru) (Items lru)" by (intro total_nonneg) (use cs in \<open>simp add: costs_ok_def\<close>)
  have c: "0 \<le> cost lru v" "capacity lru + cost lru v \<le> maxInt64" using cs by (auto simp: costs_ok_def)
  have tot: "lsize lru = total_cost (cost lru) (Items lru)" using shape by (simp add: lru_shape_def)
  have sz: "add64 (lsize lru) (cost lru v) = lsize lru + cost lru v"
    using nn c le tot by (intro add64_id) (auto simp: maxInt64_def)
  have its: "Items lru1 = (k, v) # Items lru" by (simp add: Items_def lru1_def)
  have tab: "map_of (table lru1) k' = Some b \<longleftrightarrow> (\<exists>e. (b, e) \<in> set (llist lru1) \<and> ekey e = k')" for k' b
  proof -
    have old: "map_of (table lru) k' = Some b \<longleftrightarrow> (\<exists>e. (b, e) \<in> set (llist lru) \<and> ekey e = k')"
      using shape unfolding lru_shape_def by blast
    have "ekey e \<noteq> k" if "(c, e) \<in> set (llist lru)" for c e using kn that by (force simp: Items_def)
    with old show ?thesis by (auto simp: lru1_def)
  qed
  have "lru_shape lru1"
    using shape kn fr its tab sz tot unfolding lru_shape_def wf_map_def by (auto simp: lru1_def less_SucI)
  moreover have "costs_ok lru1" using cs by (simp add: lru1_def costs_ok_def)
  moreover have "lsize lru + cost lru v \<le> maxInt64" using c le by linarith
  then have "lsize lru1 \<le> maxInt64" using sz by (simp add: lru1_def)
  ultimately show ?thesis using checkCapacity_correct [of lru1] its w by (simp add: addNew_def Let_def lru1_def)
qed

lemma updateInplace_correct:
  assumes inv: "lru_inv lru" and el: "map_of (table lru) k = Some a"
  shows "\<exists>lru'. updateInplace now a v lru = Ret lru' \<and> lru_inv lru' \<and>
    Items lru' = fit (cost lru) (capacity lru) ((k, v) # without k (Items lru)) \<and>
    cost lru' = cost lru \<and> capacity lru' = capacity lru"
proof -
  from inv have shape: "lru_shape lru" and cs: "costs_ok lru" and le: "lsize lru \<le> capacity lru" by (auto simp: lru_inv_def)
  obtain l1 e l2 where sp: "llist lru = l1 @ (a, e) # l2" "ekey e = k" "a \<notin> fst ` set l1" "a \<notin> fst ` set l2"
    "\<forall>x \<in> set l1. ekey (snd x) \<noteq> k" "\<forall>x \<in> set l2. ekey (snd x) \<noteq> k" "esize e = cost lru (evalue e)"
    using element_split [OF shape el] .
  note it = Items_split [OF sp(1,2,5,6)] and lo = list_ops_split [OF sp(3,4)]
  define lru1 where "lru1 = moveToFront now a
         (lru\<lparr>llist := update_entry a (\<lambda>e. e\<lparr>evalue := v, esize := cost lru v\<rparr>) (llist lru),
            lsize := add64 (lsize lru) (sub64 (cost lru v) (esize e))\<rparr>)"
  have c: "0 \<le> cost lru v" "capacity lru + cost lru v \<le> maxInt64" "0 \<le> capacity lru"
    "0 \<le> cost lru (evalue e)" "capacity lru + cost lru (evalue e) \<le> maxInt64" using cs by (auto simp: costs_ok_def)
  have nn: "\<forall>v. 0 \<le> cost lru v" using cs by (simp add: costs_ok_def)
  have "lsize lru = total_cost (cost lru) (Items lru)" using shape by (simp add: lru_shape_def)
  also have "\<dots> = cost lru (evalue e) + total_cost (cost lru) (without k (Items lru))" by (simp add: it) (simp add: Items_def sp(1))
  finally have tot: "0 \<le> lsize lru - esize e" using total_nonneg [OF nn] sp(7) by simp
  have d: "sub64 (cost lru v) (esize e) = cost lru v - esize e" using c sp(7) by (intro sub64_id) (auto simp: maxInt64_def)
  have sz: "add64 (lsize lru) (cost lru v - esize e) = lsize lru - esize e + cost lru v"
    using tot c le sp(7) by (simp add: add64_id maxInt64_def)
  have l1': "llist lru1 = (a, e\<lparr>evalue := v, esize := cost lru v, timeAccessed := now\<rparr>) # l1 @ l2"
    by (simp add: lru1_def moveToFront_def sp(1) lo)
  have "lru_shape lru1"
    by (rule front_shape [OF shape sp(1) _ _ l1']) (simp_all add: lru1_def moveToFront_def d sz)
  moreover have "costs_ok lru1" using cs by (simp add: lru1_def moveToFront_def costs_ok_def)
  moreover have "lsize lru - esize e + cost lru v \<le> maxInt64" using c le sp(7) by linarith
  then have "lsize lru1 \<le> maxInt64" using sz d by (simp add: lru1_def moveToFront_def)
  moreover have "Items lru1 = (k, v) # without k (Items lru)" by (simp add: Items_def [of lru1] l1' it sp(2))
  moreover have "updateInplace now a v lru = checkCapacity lru1"
    by (simp add: updateInplace_def Let_def lru1_def sp(1) lo)
  ultimately show ?thesis using checkCapacity_correct [of lru1] by (simp add: lru1_def moveToFront_def)
qed

lemma Set_correct:
  assumes "lru_inv lru"
  shows "\<exists>lru'. lru_Set now k v lru = Ret (lru', True) \<and> lru_inv lru' \<and>
    Items lru' = fit (cost lru) (capacity lru) ((k, v) # without k (Items lru)) \<and>
    cost lru' = cost lru \<and> capacity lru' = capacity lru"
  using addNew_correct [OF assms, of k now v] updateInplace_correct [OF assms, of k _ now v]
  by (cases "map_of (table lru) k") (fastforce simp: lru_Set_def)+


lemma Delete_correct:
  assumes inv: "lru_inv lru"
  shows "\<exists>lru'. lru_Delete k lru = Ret lru' \<and> lru_inv lru' \<and> Items lru' = without k (Items lru)"
proof (cases "map_of (table lru) k")
  case None
  then have "k \<notin> fst ` set (Items lru)" using table_None [of lru k] inv by (simp add: lru_inv_def map_of_eq_None_iff)
  then have "without k (Items lru) = Items lru" by (force simp: without_def filter_id_conv)
  with None inv show ?thesis by (simp add: lru_Delete_def lru_delete_def)
next
  case (Some a)
  from inv have shape: "lru_shape lru" and cs: "costs_ok lru" and le: "lsize lru \<le> capacity lru" by (auto simp: lru_inv_def)
  obtain l1 e l2 where sp: "llist lru = l1 @ (a, e) # l2" "ekey e = k" "a \<notin> fst ` set l1" "a \<notin> fst ` set l2"
    "\<forall>x \<in> set l1. ekey (snd x) \<noteq> k" "\<forall>x \<in> set l2. ekey (snd x) \<noteq> k" "esize e = cost lru (evalue e)"
    using element_split [OF shape Some] .
  note it = Items_split [OF sp(1,2,5,6)] and lo = list_ops_split [OF sp(3,4)]
  define lru' where "lru' = lru\<lparr>llist := l1 @ l2, table := mdel k (table lru), lsize := sub64 (lsize lru) (esize e)\<rparr>"
  have c: "\<forall>v. 0 \<le> cost lru v" "capacity lru + cost lru (evalue e) \<le> maxInt64" using cs by (auto simp: costs_ok_def)
  have its: "Items lru' = without k (Items lru)" by (simp add: it) (simp add: Items_def lru'_def)
  have "lsize lru = total_cost (cost lru) (Items lru)" using shape by (simp add: lru_shape_def)
  also have "\<dots> = esize e + total_cost (cost lru) (Items lru')" unfolding its it(1) using sp(1,7) by (simp add: Items_def)
  finally have tot: "lsize lru - esize e = total_cost (cost lru) (Items lru')" by simp
  have nn: "0 \<le> total_cost (cost lru) (Items lru')" "0 \<le> esize e" using total_nonneg [OF c(1)] c(1) sp(7) by auto
  have sz: "sub64 (lsize lru) (esize e) = lsize lru - esize e"
    using tot nn le c(2) sp(7) by (intro sub64_id) (auto simp: maxInt64_def)
  have st: "set (llist lru) = insert (a, e) (set (llist lru'))" by (simp add: sp(1) lru'_def)
  have "map_of (table lru') k' = Some b \<longleftrightarrow> (\<exists>x. (b, x) \<in> set (llist lru') \<and> ekey x = k')" for k' b
  proof -
    have "map_of (table lru) k' = Some b \<longleftrightarrow> (\<exists>x. (b, x) \<in> insert (a, e) (set (llist lru')) \<and> ekey x = k')"
      using shape unfolding lru_shape_def st [symmetric] by blast
    moreover have "ekey x \<noteq> k" if "(c, x) \<in> set (llist lru')" for c x using sp(5,6) that by (force simp: lru'_def)
    ultimately show ?thesis using sp(2) by (auto simp: lru'_def)
  qed
  moreover have "wf_map (llist lru')" using shape unfolding lru_shape_def wf_map_def sp(1) by (auto simp: lru'_def)
  moreover have "distinct (map fst (Items lru'))" using shape unfolding lru_shape_def its without_def
    by (simp add: distinct_map_filter)
  moreover have "fst ` set (llist lru') \<subseteq> fst ` set (llist lru)" "set (llist lru') \<subseteq> set (llist lru)" using st by auto
  ultimately have "lru_shape lru'" using shape tot sz unfolding lru_shape_def by (auto simp: lru'_def)
  then have "lru_inv lru'" using cs le nn sz by (simp add: lru_inv_def costs_ok_def lru'_def)
  moreover have "lru_Delete k lru = Ret lru'" by (simp add: lru_Delete_def lru_delete_def Some sp(1) lo lru'_def)
  ultimately show ?thesis using its by blast
qed

lemma negative_capacity_panics:
  assumes "lru_shape lru" "\<forall>v. 0 \<le> cost lru v" "capacity lru < 0" "lsize lru \<le> maxInt64" "\<forall>v. cost lru v \<le> maxInt64"
  shows "checkCapacity lru = Panic"
  using assms
proof (induction lru rule: checkCapacity.induct)
  case (1 lru)
  have gt: "lsize lru > capacity lru" using total_nonneg [OF 1(3), of "Items lru"] 1(2,4) by (simp add: lru_shape_def)
  show ?case
  proof (cases "llist lru = []")
    case True
    with gt show ?thesis by (subst checkCapacity.simps) simp
  next
    case ne: False
    obtain a e where la: "last (llist lru) = (a, e)" by fastforce
    define lru1 where "lru1 = lru\<lparr>llist := butlast (llist lru), table := mdel (ekey e) (table lru),
             lsize := sub64 (lsize lru) (esize e), evictions := add64 (evictions lru) 1\<rparr>"
    define lru0 where "lru0 = lru\<lparr>capacity := 0\<rparr>"
    have b0: "lru_shape lru0" "costs_ok lru0" "llist lru0 \<noteq> []" "last (llist lru0) = (a, e)" "lsize lru0 \<le> maxInt64"
      using 1(2,3,5,6) ne la by (auto simp: lru0_def lru_shape_def costs_ok_def Items_def)
    note b = butlast_shape [OF b0 refl, of "add64 (evictions lru) 1"]
    have "lru_shape lru1" using b(1) by (simp add: lru0_def lru1_def lru_shape_def Items_def)
    moreover have "lsize lru1 \<le> maxInt64" using b(3) by (simp add: lru0_def lru1_def)
    moreover have "checkCapacity lru = checkCapacity lru1"
      using gt ne la by (subst checkCapacity.simps) (simp add: lru1_def)
    ultimately show ?thesis using 1(1) [OF gt ne la [symmetric] refl] 1(3,4,6) by (simp add: lru1_def)
  qed
qed

section \<open>The contract clients use\<close>

text \<open>
  A client of a cache of \<open>cap\<close> items relies on one law: \<open>Set\<close> puts the item in front of
  the others and forgets only what exceeds the capacity.
\<close>

locale recency_cache =
  fixes items :: "'c \<Rightarrow> 'v item list"
    and put :: "int \<Rightarrow> string \<Rightarrow> 'v \<Rightarrow> 'c \<Rightarrow> 'c"
    and inv :: "'c \<Rightarrow> bool"
    and cap :: "'c \<Rightarrow> nat"
  assumes items_put: "inv c \<Longrightarrow> items (put now k v c) = take (cap c) ((k, v) # without k (items c))"
    and inv_put: "inv c \<Longrightarrow> inv (put now k v c)"
    and cap_put: "inv c \<Longrightarrow> cap (put now k v c) = cap c"
    and distinct_items: "inv c \<Longrightarrow> distinct (map fst (items c))"
begin

lemma take_filter: "x \<in> set (take n xs) \<Longrightarrow> P x \<Longrightarrow> x \<in> set (take n (filter P xs))"
proof (induction xs arbitrary: n)
  case (Cons y ys)
  show ?case
  proof (cases n)
    case (Suc m)
    show ?thesis
    proof (cases "P y")
      case False
      with Cons Suc have "x \<in> set (take m (filter P ys))" by auto
      then have "x \<in> set (take (Suc m) (filter P ys))" using set_take_subset_set_take [of m "Suc m" "filter P ys"] by auto
      with False Suc show ?thesis by simp
    qed (use Cons Suc in auto)
  qed (use Cons in simp)
qed simp

lemma put_keeps:
  assumes "inv c" "(k, v) \<in> set (take n (items c))" "k' \<noteq> k" "n < cap c"
  shows "(k, v) \<in> set (take (Suc n) (items (put now k' v' c)))"
proof -
  have "take (Suc n) (items (put now k' v' c)) = (k', v') # take n (without k' (items c))"
    using assms(1,4) by (simp add: items_put min_absorb1 Suc_leI)
  then show ?thesis using take_filter [OF assms(2), of "\<lambda>it. fst it \<noteq> k'"] assms(3) by (simp add: without_def)
qed

lemma kept_after:
  "inv c \<Longrightarrow> (k, v) \<in> set (take n (items c)) \<Longrightarrow> \<forall>it \<in> set its. fst (snd it) \<noteq> k \<Longrightarrow> n + length its \<le> cap c \<Longrightarrow>
    inv (fold (\<lambda>(now, k, v). put now k v) its c) \<and> (k, v) \<in> set (items (fold (\<lambda>(now, k, v). put now k v) its c))"
proof (induction its arbitrary: c n)
  case Nil
  then show ?case by (auto dest: in_set_takeD)
next
  case (Cons it its)
  obtain now k' v' where it: "it = (now, k', v')" by (cases it)
  have "(k, v) \<in> set (take (Suc n) (items (put now k' v' c)))" using Cons.prems it by (intro put_keeps) auto
  with Cons.IH [of "put now k' v' c" "Suc n"] Cons.prems it show ?case by (simp add: inv_put cap_put)
qed

lemma recent_found:
  assumes "inv c" "\<forall>it \<in> set its. fst (snd it) \<noteq> k" "length its < cap c"
  shows "map_of (items (fold (\<lambda>(now, k, v). put now k v) its (put now k v c))) k = Some v"
proof -
  have "(k, v) \<in> set (take 1 (items (put now k v c)))" using assms(1,3) by (cases "cap c") (simp_all add: items_put)
  from kept_after [OF inv_put [OF assms(1)] this assms(2)] assms show ?thesis
    using cap_put [OF assms(1)] distinct_items by (simp add: Suc_leI map_of_eq_Some_iff)
qed

end

text \<open>The cache at its use with unit costs, the result of a call that never panics.\<close>

definition put_ret :: "int \<Rightarrow> string \<Rightarrow> 'v \<Rightarrow> 'v lru_cache \<Rightarrow> 'v lru_cache" where
  "put_ret now k v lru = (case lru_Set now k v lru of Ret (lru', ok) \<Rightarrow> lru' | Panic \<Rightarrow> lru)"

definition unit_inv :: "'v lru_cache \<Rightarrow> bool" where
  "unit_inv lru \<longleftrightarrow> lru_inv lru \<and> cost lru = (\<lambda>_. 1)"

lemma unit_put:
  assumes "unit_inv lru"
  shows "lru_Set now k v lru = Ret (put_ret now k v lru, True)" "unit_inv (put_ret now k v lru)"
    "Items (put_ret now k v lru) = take (nat (capacity lru)) ((k, v) # without k (Items lru))"
    "capacity (put_ret now k v lru) = capacity lru"
proof -
  have inv: "lru_inv lru" and c: "cost lru = (\<lambda>_. 1)" using assms by (auto simp: unit_inv_def)
  obtain lru' where l: "lru_Set now k v lru = Ret (lru', True)" "lru_inv lru'"
    "Items lru' = fit (cost lru) (capacity lru) ((k, v) # without k (Items lru))" "cost lru' = cost lru" "capacity lru' = capacity lru"
    using Set_correct [OF inv] by blast
  have p: "put_ret now k v lru = lru'" by (simp add: put_ret_def l(1))
  show "lru_Set now k v lru = Ret (put_ret now k v lru, True)" by (simp add: p l(1))
  show "unit_inv (put_ret now k v lru)" by (simp add: p l unit_inv_def c)
  have "capacity lru = int (nat (capacity lru))" using inv by (simp add: lru_inv_def costs_ok_def)
  then have "fit (\<lambda>_. 1) (capacity lru) its = take (nat (capacity lru)) its" for its :: "'a item list"
    using fit_unit [of "nat (capacity lru)" its] by simp
  then show "Items (put_ret now k v lru) = take (nat (capacity lru)) ((k, v) # without k (Items lru))"
    by (simp only: p l(3) c)
  show "capacity (put_ret now k v lru) = capacity lru" by (simp add: p l)
qed

interpretation unit_lru: recency_cache Items put_ret unit_inv "\<lambda>lru. nat (capacity lru)"
proof unfold_locales
  show "Items (put_ret now k v c) = take (nat (capacity c)) ((k, v) # without k (Items c))" if "unit_inv c"
    for c :: "'a lru_cache" and now k v by (rule unit_put(3) [OF that])
  show "unit_inv (put_ret now k v c)" if "unit_inv c" for c :: "'a lru_cache" and now k v by (rule unit_put(2) [OF that])
  show "nat (capacity (put_ret now k v c)) = nat (capacity c)" if "unit_inv c" for c :: "'a lru_cache" and now k v
    by (simp add: unit_put(4) [OF that])
  show "distinct (map fst (Items c))" if "unit_inv c" for c :: "'a lru_cache"
    using that by (simp add: unit_inv_def lru_inv_def lru_shape_def)
qed


section \<open>Properties\<close>

text \<open>
  C40. The cache refines the list of its items in order of use. \<open>Get\<close> returns the stored
  value and moves the item to the front, \<open>Set\<close> puts the item in front and keeps the longest
  prefix whose total cost fits the capacity, \<open>Delete\<close> removes the item; none of them panics
  and all keep the invariant.
\<close>

theorem lru_refines_item_list:
  assumes "lru_inv lru"
  shows "(\<exists>lru'. lru_Get now k lru = Ret (lru', map_of (Items lru) k) \<and> lru_inv lru' \<and>
      Items lru' = (case map_of (Items lru) k of None \<Rightarrow> Items lru | Some v \<Rightarrow> (k, v) # without k (Items lru))) \<and>
    (\<exists>lru'. lru_Set now k v lru = Ret (lru', True) \<and> lru_inv lru' \<and>
      Items lru' = fit (cost lru) (capacity lru) ((k, v) # without k (Items lru))) \<and>
    (\<exists>lru'. lru_Delete k lru = Ret lru' \<and> lru_inv lru' \<and> Items lru' = without k (Items lru))"
  using Get_correct [OF assms, of now k] Set_correct [OF assms, of now k v] Delete_correct [OF assms, of k] by blast

lemma NewLRUCache_inv: "0 \<le> cap \<Longrightarrow> \<forall>v. 0 \<le> c v \<and> cap + c v \<le> maxInt64 \<Longrightarrow> lru_inv (NewLRUCache cap c)"
  by (simp add: lru_inv_def lru_shape_def costs_ok_def NewLRUCache_def Items_def)

theorem lru_refines_item_list_witness:
  "\<exists>lru'. lru_Set 7 ''k'' (5 :: int) (NewLRUCache 1 (\<lambda>_. 1)) = Ret (lru', True) \<and> Items lru' = [(''k'', 5)]"
proof -
  have inv: "lru_inv (NewLRUCache 1 (\<lambda>_ :: int. 1))" by (rule NewLRUCache_inv) (simp_all add: maxInt64_def)
  have "fit (cost (NewLRUCache 1 (\<lambda>_ :: int. 1))) (capacity (NewLRUCache 1 (\<lambda>_ :: int. 1)))
      ((''k'', 5) # without ''k'' (Items (NewLRUCache 1 (\<lambda>_ :: int. 1)))) = [(''k'', 5)]"
    by (simp add: NewLRUCache_def Items_def without_def)
  with lru_refines_item_list [OF inv, of 7 "''k''" 5] show ?thesis by auto
qed

text \<open>
  The eviction loop ends for every capacity: \<open>SetCapacity\<close> returns and leaves the
  longest prefix that fits when the new capacity is not negative, and panics on the nil element at
  the back of the empty list exactly when it is negative.
\<close>

theorem SetCapacity_evicts_or_panics:
  assumes "lru_inv lru" "cap < 0 \<or> (\<forall>v. cap + cost lru v \<le> maxInt64)"
  shows "if cap < 0 then SetCapacity cap lru = Panic
    else \<exists>lru'. SetCapacity cap lru = Ret lru' \<and> lru_inv lru' \<and> Items lru' = fit (cost lru) cap (Items lru)"
proof -
  define lru1 where "lru1 = lru\<lparr>capacity := cap\<rparr>"
  from assms(1) have shape: "lru_shape lru1" by (simp add: lru1_def lru_inv_def lru_shape_def Items_def)
  have c: "0 \<le> capacity lru" "\<forall>v. 0 \<le> cost lru v \<and> capacity lru + cost lru v \<le> maxInt64" "lsize lru \<le> capacity lru"
    using assms(1) by (auto simp: lru_inv_def costs_ok_def)
  then have small: "\<forall>v. cost lru v \<le> maxInt64" by (metis add_increasing order_trans order_refl)
  have "0 \<le> cost lru undefined" "capacity lru + cost lru undefined \<le> maxInt64" using c(2) by auto
  then have sz: "lsize lru1 \<le> maxInt64" using c(3) by (simp add: lru1_def)
  show ?thesis
  proof (cases "cap < 0")
    case True
    with negative_capacity_panics [OF shape _ _ sz] c(2) small show ?thesis by (simp add: SetCapacity_def lru1_def)
  next
    case False
    then have "costs_ok lru1" using assms(2) c by (simp add: lru1_def costs_ok_def)
    from checkCapacity_correct [OF shape this sz] False show ?thesis
      by (auto simp: SetCapacity_def lru1_def Items_def)
  qed
qed

theorem SetCapacity_evicts_or_panics_witness:
  "SetCapacity (- 1) (NewLRUCache 1 (\<lambda>_ :: int. 1)) = Panic"
proof -
  have inv: "lru_inv (NewLRUCache 1 (\<lambda>_ :: int. 1))" by (rule NewLRUCache_inv) (simp_all add: maxInt64_def)
  from SetCapacity_evicts_or_panics [OF inv, of "- 1"] show ?thesis by simp
qed

end
