(* ===== verification/Numbered.thy ===== *)
theory Numbered
  imports LruCache GoStrings
begin

text \<open>
  The registry of numbered resources of \<open>go/pools/numbered.go\<close>, which holds the
  transactions and reserved connections of a tablet. A resource is locked by \<open>Get\<close> and
  unlocked by \<open>Put\<close>; the condition variable of \<open>WaitForEmpty\<close> is a list of parked
  goroutines that \<open>Broadcast\<close> wakes.
\<close>

section \<open>State\<close>

record 'v numbered_wrapper =
  val :: 'v
  inUse :: bool
  purpose :: string

record unregistered =
  reason :: string
  timeUnregistered :: int

record 'v numbered =
  resources :: "(int, 'v numbered_wrapper) gomap"
  recentlyUnregistered :: "unregistered lru_cache"
  parked :: "nat list"
  runnable :: "nat list"

datatype numbered_error = AlreadyPresent | NotFound | Ended int string | InUse string

definition NewNumbered :: "'v numbered" where
  "NewNumbered = \<lparr>resources = [], recentlyUnregistered = NewLRUCache 1000 (\<lambda>_. 1), parked = [], runnable = []\<rparr>"

section \<open>Operations\<close>

definition Register :: "int \<Rightarrow> 'v \<Rightarrow> 'v numbered \<Rightarrow> 'v numbered \<times> numbered_error option" where
  "Register idn v nu =
     (let resource = \<lparr>val = v, inUse = False, purpose = []\<rparr> in
      case map_of (resources nu) idn of
        Some _ \<Rightarrow> (nu, Some AlreadyPresent)
      | None \<Rightarrow> (nu\<lparr>resources := mput idn resource (resources nu)\<rparr>, None))"

definition Broadcast :: "'v numbered \<Rightarrow> 'v numbered" where
  "Broadcast nu = nu\<lparr>runnable := runnable nu @ parked nu, parked := []\<rparr>"

definition unregister :: "int \<Rightarrow> 'v numbered \<Rightarrow> 'v numbered \<times> bool" where
  "unregister idn nu =
     (let ok = (map_of (resources nu) idn \<noteq> None);
          nu1 = nu\<lparr>resources := mdel idn (resources nu)\<rparr>;
          nu2 = (if length (resources nu1) = 0 then Broadcast nu1 else nu1) in
      (nu2, ok))"

definition Unregister :: "int \<Rightarrow> int \<Rightarrow> string \<Rightarrow> 'v numbered \<Rightarrow> 'v numbered outcome" where
  "Unregister now idn why nu =
     (let (nu1, success) = unregister idn nu in
      if success then
        obind (lru_Set now (FormatInt idn) \<lparr>reason = why, timeUnregistered = now\<rparr> (recentlyUnregistered nu1))
          (\<lambda>(lru, _). Ret (nu1\<lparr>recentlyUnregistered := lru\<rparr>))
      else Ret nu1)"

definition Numbered_Get :: "int \<Rightarrow> int \<Rightarrow> string \<Rightarrow> 'v numbered \<Rightarrow> ('v numbered \<times> (numbered_error + 'v)) outcome" where
  "Numbered_Get now idn why nu =
     (case map_of (resources nu) idn of
        None \<Rightarrow>
          obind (lru_Get now (FormatInt idn) (recentlyUnregistered nu)) (\<lambda>(lru, found).
            Ret (nu\<lparr>recentlyUnregistered := lru\<rparr>,
              case found of Some unreg \<Rightarrow> Inl (Ended (timeUnregistered unreg) (reason unreg)) | None \<Rightarrow> Inl NotFound))
      | Some nw \<Rightarrow>
          if inUse nw then Ret (nu, Inl (InUse (purpose nw)))
          else Ret (nu\<lparr>resources := mput idn (nw\<lparr>inUse := True, purpose := why\<rparr>) (resources nu)\<rparr>, Inr (val nw)))"

definition Numbered_Put :: "int \<Rightarrow> 'v numbered \<Rightarrow> 'v numbered \<times> bool" where
  "Numbered_Put idn nu =
     (case map_of (resources nu) idn of
        Some nw \<Rightarrow> (nu\<lparr>resources := mput idn (nw\<lparr>inUse := False, purpose := []\<rparr>) (resources nu)\<rparr>, True)
      | None \<Rightarrow> (nu, False))"

definition GetAll :: "'v numbered \<Rightarrow> 'v list" where
  "GetAll nu = map (\<lambda>(_, nw). val nw) (resources nu)"

fun filter_loop :: "string \<Rightarrow> ('v \<Rightarrow> bool) \<Rightarrow> (int, 'v numbered_wrapper) gomap \<Rightarrow>
    (int, 'v numbered_wrapper) gomap \<times> 'v list" where
  "filter_loop why match [] = ([], [])"
| "filter_loop why match ((idn, nw) # rest) =
     (let (rest', vals) = filter_loop why match rest in
      if inUse nw then ((idn, nw) # rest', vals)
      else if match (val nw) then ((idn, nw\<lparr>inUse := True, purpose := why\<rparr>) # rest', val nw # vals)
      else ((idn, nw) # rest', vals))"

definition GetByFilter :: "string \<Rightarrow> ('v \<Rightarrow> bool) \<Rightarrow> 'v numbered \<Rightarrow> 'v numbered \<times> 'v list" where
  "GetByFilter why match nu =
     (let (rs, vals) = filter_loop why match (resources nu) in (nu\<lparr>resources := rs\<rparr>, vals))"

text \<open>
  One round of the loop of \<open>WaitForEmpty\<close> for goroutine \<open>g\<close>, entered by the call or by a
  wake-up: it returns when the pool is empty and parks on the condition variable otherwise.
\<close>

definition WaitForEmpty_round :: "nat \<Rightarrow> 'v numbered \<Rightarrow> 'v numbered \<times> bool" where
  "WaitForEmpty_round g nu =
     (if length (resources nu) \<noteq> 0
      then (nu\<lparr>runnable := removeAll g (runnable nu), parked := parked nu @ [g]\<rparr>, False)
      else (nu\<lparr>runnable := removeAll g (runnable nu)\<rparr>, True))"

definition Numbered_Size :: "'v numbered \<Rightarrow> int" where
  "Numbered_Size nu = int (length (resources nu))"

definition StatsJSON :: "'v numbered \<Rightarrow> string" where
  "StatsJSON nu = ''{'' @ [CHR 34] @ ''Size'' @ [CHR 34] @ '': '' @ FormatInt (Numbered_Size nu) @ ''}''"

section \<open>Runs\<close>

text \<open>
  Every call is atomic under the mutex. \<open>numbered_step\<close> is one call, with the set of
  identifiers it locks and the set it unlocks.
\<close>

inductive numbered_step :: "'v numbered \<Rightarrow> int set \<Rightarrow> int set \<Rightarrow> 'v numbered \<Rightarrow> bool" where
  register: "Register idn v nu = (nu', r) \<Longrightarrow> numbered_step nu {} {} nu'"
| unregister: "Unregister now idn why nu = Ret nu' \<Longrightarrow> numbered_step nu {} {idn} nu'"
| get: "Numbered_Get now idn why nu = Ret (nu', Inr v) \<Longrightarrow> numbered_step nu {idn} {} nu'"
| get_fails: "Numbered_Get now idn why nu = Ret (nu', Inl e) \<Longrightarrow> numbered_step nu {} {} nu'"
| put: "Numbered_Put idn nu = (nu', ok) \<Longrightarrow> numbered_step nu {} {idn} nu'"
| by_filter: "GetByFilter why match nu = (nu', vals) \<Longrightarrow>
    numbered_step nu {i. \<exists>nw. map_of (resources nu) i = Some nw \<and> \<not> inUse nw \<and> match (val nw)} {} nu'"
| wait: "WaitForEmpty_round g nu = (nu', ret) \<Longrightarrow> numbered_step nu {} {} nu'"

inductive numbered_run :: "'v numbered \<Rightarrow> int set \<Rightarrow> bool" where
  start: "numbered_run NewNumbered {}"
| step: "numbered_run nu held \<Longrightarrow> numbered_step nu lock unlock nu' \<Longrightarrow> numbered_run nu' (held \<union> lock - unlock)"

text \<open>
  The invariant: identifiers are distinct, the identifiers in use are those locked and not yet
  unlocked, the cache keeps its own invariant, and nobody sleeps while the pool is empty.
\<close>

definition locked_ids :: "'v numbered \<Rightarrow> int set" where
  "locked_ids nu = {i. \<exists>nw. map_of (resources nu) i = Some nw \<and> inUse nw}"

definition numbered_inv :: "'v numbered \<Rightarrow> bool" where
  "numbered_inv nu \<longleftrightarrow> wf_map (resources nu) \<and> unit_inv (recentlyUnregistered nu) \<and>
     capacity (recentlyUnregistered nu) = 1000 \<and> (resources nu = [] \<longrightarrow> parked nu = [])"

lemma mput_not_empty [simp]: "mput k v m \<noteq> []"
  by (cases "(k, v, m)" rule: mput.cases) auto

lemma filter_loop_get:
  "filter_loop why match m = (m', vals) \<Longrightarrow>
   map_of m' i = map_option (\<lambda>nw. if \<not> inUse nw \<and> match (val nw) then nw\<lparr>inUse := True, purpose := why\<rparr> else nw) (map_of m i) \<and>
   map fst m' = map fst m"
proof (induction m arbitrary: m' vals)
  case (Cons p m)
  obtain k nw where p: "p = (k, nw)" by fastforce
  obtain m1 vals1 where r: "filter_loop why match m = (m1, vals1)" by fastforce
  from Cons.IH [OF r] Cons.prems p r show ?case by (auto split: if_splits)
qed simp

lemma filter_loop_vals:
  "filter_loop why match m = (m', vals) \<Longrightarrow> vals = map (val \<circ> snd) (filter (\<lambda>(i, nw). \<not> inUse nw \<and> match (val nw)) m)"
proof (induction m arbitrary: m' vals)
  case (Cons p m)
  obtain k nw where p: "p = (k, nw)" by fastforce
  obtain m1 vals1 where r: "filter_loop why match m = (m1, vals1)" by fastforce
  from Cons.IH [OF r] Cons.prems p r show ?case by (auto split: if_splits)
qed simp

lemma Unregister_returns:
  assumes "numbered_inv nu"
  shows "\<exists>nu'. Unregister now idn why nu = Ret nu' \<and> numbered_inv nu' \<and> resources nu' = mdel idn (resources nu) \<and>
    recentlyUnregistered nu' = (if map_of (resources nu) idn \<noteq> None
      then put_ret now (FormatInt idn) \<lparr>reason = why, timeUnregistered = now\<rparr> (recentlyUnregistered nu)
      else recentlyUnregistered nu)"
proof -
  have u: "unit_inv (recentlyUnregistered nu)" using assms by (simp add: numbered_inv_def)
  note p = unit_put [OF u, of now "FormatInt idn" "\<lparr>reason = why, timeUnregistered = now\<rparr>"]
  show ?thesis using assms p
    by (simp add: Unregister_def unregister_def Broadcast_def Let_def numbered_inv_def)
qed

lemma Get_returns:
  assumes inv: "numbered_inv nu" and none: "map_of (resources nu) idn = None"
  shows "\<exists>nu'. numbered_inv nu' \<and> resources nu' = resources nu \<and> parked nu' = parked nu \<and>
    Numbered_Get now idn why nu = Ret (nu', Inl (case map_of (Items (recentlyUnregistered nu)) (FormatInt idn) of
      Some unreg \<Rightarrow> Ended (timeUnregistered unreg) (reason unreg) | None \<Rightarrow> NotFound))"
proof -
  have "lru_inv (recentlyUnregistered nu)" using inv by (simp add: numbered_inv_def unit_inv_def)
  from Get_correct [OF this, of now "FormatInt idn"] obtain lru' where l:
    "lru_Get now (FormatInt idn) (recentlyUnregistered nu) = Ret (lru', map_of (Items (recentlyUnregistered nu)) (FormatInt idn))"
    "lru_inv lru'" "cost lru' = cost (recentlyUnregistered nu)" "capacity lru' = capacity (recentlyUnregistered nu)" by blast
  have "numbered_inv (nu\<lparr>recentlyUnregistered := lru'\<rparr>)" using inv l by (simp add: numbered_inv_def unit_inv_def)
  then show ?thesis using none l(1)
    by (intro exI [of _ "nu\<lparr>recentlyUnregistered := lru'\<rparr>"]) (simp add: Numbered_Get_def split: option.split)
qed

lemma New_inv: "numbered_inv NewNumbered"
  by (simp add: numbered_inv_def NewNumbered_def unit_inv_def NewLRUCache_inv maxInt64_def)
    (simp add: NewLRUCache_def)

lemma step_inv:
  assumes "numbered_step nu lock unlock nu'" "numbered_inv nu"
  shows "numbered_inv nu' \<and> locked_ids nu' = locked_ids nu \<union> lock - unlock \<and> lock \<inter> locked_ids nu = {}"
  using assms
proof (induction rule: numbered_step.induct)
  case (register idn v nu nu' r)
  then show ?case by (auto simp: Register_def Let_def numbered_inv_def locked_ids_def split: option.splits if_splits)
next
  case (unregister now idn why nu nu')
  then show ?case using Unregister_returns [OF unregister(2), of now idn why] by (auto simp: locked_ids_def)
next
  case (get now idn why nu nu' v)
  show ?case
  proof (cases "map_of (resources nu) idn")
    case None
    then show ?thesis using Get_returns [OF get(2) None, of now why] get(1) by auto
  next
    case (Some nw)
    with get show ?thesis
      by (auto simp: Numbered_Get_def numbered_inv_def locked_ids_def split: if_splits)
  qed
next
  case (get_fails now idn why nu nu' e)
  show ?case
  proof (cases "map_of (resources nu) idn")
    case None
    then show ?thesis using Get_returns [OF get_fails(2) None, of now why] get_fails(1) by (auto simp: locked_ids_def)
  next
    case (Some nw)
    with get_fails show ?thesis by (auto simp: Numbered_Get_def split: if_splits)
  qed
next
  case (put idn nu nu' ok)
  then show ?case by (auto simp: Numbered_Put_def numbered_inv_def locked_ids_def split: option.splits if_splits)
next
  case (by_filter why match nu nu' vals)
  obtain rs where r: "filter_loop why match (resources nu) = (rs, vals)" "nu' = nu\<lparr>resources := rs\<rparr>"
    using by_filter(1) by (auto simp: GetByFilter_def Let_def split: prod.splits)
  note g = filter_loop_get [OF r(1)]
  have "map fst rs = map fst (resources nu)" using g by blast
  then have "rs = [] \<longleftrightarrow> resources nu = []" by (metis map_is_Nil_conv)
  then have "numbered_inv nu'" using by_filter(2) r(2) \<open>map fst rs = _\<close> by (simp add: numbered_inv_def wf_map_def)
  moreover have "map_of rs i = map_option (\<lambda>nw. if \<not> inUse nw \<and> match (val nw) then nw\<lparr>inUse := True, purpose := why\<rparr> else nw)
      (map_of (resources nu) i)" for i using g by blast
  ultimately show ?case using r(2) by (auto simp: locked_ids_def split: if_splits)
next
  case (wait g nu nu' finished)
  then show ?case by (auto simp: WaitForEmpty_round_def numbered_inv_def locked_ids_def split: if_splits)
qed

lemma run_inv: "numbered_run nu held \<Longrightarrow> numbered_inv nu \<and> locked_ids nu = held"
proof (induction rule: numbered_run.induct)
  case start
  show ?case by (simp add: New_inv) (simp add: locked_ids_def NewNumbered_def)
next
  case (step nu held lock unlock nu')
  then show ?case using step_inv by blast
qed


section \<open>Properties\<close>

text \<open>
  C34. Resources are used by one caller at a time: in every run, \<open>Get\<close> hands out a resource
  exactly when it is registered and not locked by an earlier call, and \<open>GetByFilter\<close> returns
  exactly the matching resources nobody has locked.
\<close>

theorem resources_locked_exclusively:
  assumes "numbered_run nu held"
  shows "((\<exists>nu' v. Numbered_Get now idn why nu = Ret (nu', Inr v)) \<longleftrightarrow> map_of (resources nu) idn \<noteq> None \<and> idn \<notin> held) \<and>
    snd (GetByFilter why match nu) = map (val \<circ> snd) (filter (\<lambda>(i, nw). i \<notin> held \<and> match (val nw)) (resources nu))"
proof (rule conjI)
  from run_inv [OF assms] have inv: "numbered_inv nu" and held: "held = locked_ids nu" by auto
  show "(\<exists>nu' v. Numbered_Get now idn why nu = Ret (nu', Inr v)) \<longleftrightarrow> map_of (resources nu) idn \<noteq> None \<and> idn \<notin> held"
  proof (cases "map_of (resources nu) idn")
    case None
    then show ?thesis using Get_returns [OF inv None, of now why] by auto
  qed (auto simp: Numbered_Get_def held locked_ids_def)
  obtain rs vals where r: "filter_loop why match (resources nu) = (rs, vals)" by fastforce
  have "inUse nw \<longleftrightarrow> i \<in> held" if "(i, nw) \<in> set (resources nu)" for i nw
    using that inv wf_map_mem [of "resources nu" i nw] by (auto simp: held locked_ids_def numbered_inv_def)
  then have "filter (\<lambda>(i, nw). \<not> inUse nw \<and> match (val nw)) (resources nu) = filter (\<lambda>(i, nw). i \<notin> held \<and> match (val nw)) (resources nu)"
    by (intro filter_cong) auto
  then show "snd (GetByFilter why match nu) = map (val \<circ> snd) (filter (\<lambda>(i, nw). i \<notin> held \<and> match (val nw)) (resources nu))"
    using filter_loop_vals [OF r] by (simp add: GetByFilter_def r)
qed

definition sample_numbered :: "string numbered" where
  "sample_numbered = fst (Register 7 ''conn'' NewNumbered)"

lemma sample_numbered_run: "numbered_run sample_numbered {}"
proof -
  have "numbered_step (NewNumbered :: string numbered) {} {} sample_numbered"
    by (rule numbered_step.register [of 7 "''conn''" _ _ "snd (Register 7 ''conn'' NewNumbered)"]) (simp add: sample_numbered_def)
  from numbered_run.step [OF numbered_run.start this] show ?thesis by simp
qed

lemma sample_numbered_eq: "resources sample_numbered = [(7, \<lparr>val = ''conn'', inUse = False, purpose = []\<rparr>)]"
  by (simp add: sample_numbered_def Register_def NewNumbered_def)

theorem resources_locked_exclusively_witness:
  "\<exists>nu' v. Numbered_Get 0 7 ''query'' sample_numbered = Ret (nu', Inr v)"
  using resources_locked_exclusively [OF sample_numbered_run, of 0 7 "''query''"] by (simp add: sample_numbered_eq)

text \<open>Ending resources one after the other.\<close>

fun unregister_all :: "(int \<times> int \<times> string) list \<Rightarrow> 'v numbered \<Rightarrow> 'v numbered outcome" where
  "unregister_all [] nu = Ret nu"
| "unregister_all ((now, idn, why) # es) nu = obind (Unregister now idn why nu) (unregister_all es)"

lemma unregister_all_puts:
  "numbered_inv nu \<Longrightarrow> \<exists>nu' its. unregister_all es nu = Ret nu' \<and> numbered_inv nu' \<and>
     (\<forall>i. map_of (resources nu) i = None \<longrightarrow> map_of (resources nu') i = None) \<and>
     recentlyUnregistered nu' = fold (\<lambda>(now, k, v). put_ret now k v) its (recentlyUnregistered nu) \<and>
     length its \<le> length es \<and> (\<lambda>it. fst (snd it)) ` set its \<subseteq> (\<lambda>e. FormatInt (fst (snd e))) ` set es"
proof (induction es arbitrary: nu)
  case Nil
  then show ?case by (auto intro!: exI [of _ "[]"])
next
  case (Cons e es)
  obtain now idn why where e: "e = (now, idn, why)" by (cases e)
  obtain nu1 where u: "Unregister now idn why nu = Ret nu1" "numbered_inv nu1" "resources nu1 = mdel idn (resources nu)"
    "recentlyUnregistered nu1 = (if map_of (resources nu) idn \<noteq> None
      then put_ret now (FormatInt idn) \<lparr>reason = why, timeUnregistered = now\<rparr> (recentlyUnregistered nu)
      else recentlyUnregistered nu)"
    using Unregister_returns [OF Cons.prems] by blast
  obtain nu' its where r: "unregister_all es nu1 = Ret nu'" "numbered_inv nu'"
    "\<forall>i. map_of (resources nu1) i = None \<longrightarrow> map_of (resources nu') i = None"
    "recentlyUnregistered nu' = fold (\<lambda>(now, k, v). put_ret now k v) its (recentlyUnregistered nu1)"
    "length its \<le> length es" "(\<lambda>it. fst (snd it)) ` set its \<subseteq> (\<lambda>e. FormatInt (fst (snd e))) ` set es"
    using Cons.IH [OF u(2)] by blast
  define its' where "its' = (if map_of (resources nu) idn \<noteq> None
      then (now, FormatInt idn, \<lparr>reason = why, timeUnregistered = now\<rparr>) # its else its)"
  have "recentlyUnregistered nu' = fold (\<lambda>(now, k, v). put_ret now k v) its' (recentlyUnregistered nu)"
    by (simp add: r(4) u(4) its'_def)
  moreover have "length its' \<le> length (e # es)" using r(5) by (simp add: its'_def)
  moreover have "(\<lambda>it. fst (snd it)) ` set its' \<subseteq> (\<lambda>e. FormatInt (fst (snd e))) ` set (e # es)"
    using r(6) by (auto simp: its'_def e)
  moreover have "\<forall>i. map_of (resources nu) i = None \<longrightarrow> map_of (resources nu') i = None" using r(3) u(3) by simp
  ultimately show ?case using r(1,2) u(1) e by auto
qed

definition in_int64 :: "int \<Rightarrow> bool" where
  "in_int64 i \<longleftrightarrow> - maxInt64 - 1 \<le> i \<and> i \<le> maxInt64"

lemma FormatInt_inj: "in_int64 i \<Longrightarrow> in_int64 j \<Longrightarrow> FormatInt i = FormatInt j \<longleftrightarrow> i = j"
proof -
  assume "in_int64 i" "in_int64 j"
  then have "ParseInt64 (FormatInt i) = Some i" "ParseInt64 (FormatInt j) = Some j"
    by (simp_all only: in_int64_def ParseInt64_FormatInt)
  then show ?thesis by (metis option.inject)
qed

text \<open>
  Asking for a resource that has ended says why: after \<open>Unregister\<close> of a registered
  identifier and fewer than 1000 further calls for other identifiers, \<open>Get\<close> fails with the
  time and the reason given when it ended.
\<close>

theorem ended_resource_is_explained:
  assumes run: "numbered_run nu held" and reg: "map_of (resources nu) idn \<noteq> None"
    and ids: "in_int64 idn" "\<forall>e \<in> set es. in_int64 (fst (snd e)) \<and> fst (snd e) \<noteq> idn" and few: "length es < 1000"
  shows "\<exists>nu1 nu2 nu3. Unregister now idn why nu = Ret nu1 \<and> unregister_all es nu1 = Ret nu2 \<and>
    Numbered_Get later idn p nu2 = Ret (nu3, Inl (Ended now why))"
proof -
  have inv: "numbered_inv nu" using run_inv [OF run] by blast
  let ?u = "\<lparr>reason = why, timeUnregistered = now\<rparr>"
  obtain nu1 where u: "Unregister now idn why nu = Ret nu1" "numbered_inv nu1" "resources nu1 = mdel idn (resources nu)"
    "recentlyUnregistered nu1 = put_ret now (FormatInt idn) ?u (recentlyUnregistered nu)"
    using Unregister_returns [OF inv, of now idn why] reg by auto
  obtain nu2 its where r: "unregister_all es nu1 = Ret nu2" "numbered_inv nu2"
    "\<forall>i. map_of (resources nu1) i = None \<longrightarrow> map_of (resources nu2) i = None"
    "recentlyUnregistered nu2 = fold (\<lambda>(now, k, v). put_ret now k v) its (recentlyUnregistered nu1)"
    "length its \<le> length es" "(\<lambda>it. fst (snd it)) ` set its \<subseteq> (\<lambda>e. FormatInt (fst (snd e))) ` set es"
    using unregister_all_puts [OF u(2)] by blast
  have c: "unit_inv (recentlyUnregistered nu)" "nat (capacity (recentlyUnregistered nu)) = 1000"
    using inv by (auto simp: numbered_inv_def)
  have "FormatInt idn \<notin> (\<lambda>e. FormatInt (fst (snd e))) ` set es"
  proof
    assume "FormatInt idn \<in> (\<lambda>e. FormatInt (fst (snd e))) ` set es"
    then obtain e where e: "FormatInt idn = FormatInt (fst (snd e))" "e \<in> set es" by (rule imageE)
    from ids(2) e(2) have i: "in_int64 (fst (snd e))" "fst (snd e) \<noteq> idn" by blast+
    from iffD1 [OF FormatInt_inj [OF ids(1) i(1)] e(1)] i(2) show False by blast
  qed
  with r(6) have "FormatInt idn \<notin> (\<lambda>it. fst (snd it)) ` set its" by (rule contra_subsetD)
  then have "\<forall>it \<in> set its. fst (snd it) \<noteq> FormatInt idn" by force
  moreover have "length its < nat (capacity (recentlyUnregistered nu))" using few r(5) c(2) by linarith
  ultimately have found: "map_of (Items (recentlyUnregistered nu2)) (FormatInt idn) = Some ?u"
    unfolding r(4) u(4) by (rule unit_lru.recent_found [OF c(1)])
  have "map_of (resources nu2) idn = None" using r(3) u(3) by simp
  from Get_returns [OF r(2) this, of later p] found u(1) r(1) show ?thesis by auto
qed

theorem ended_resource_is_explained_witness:
  "\<exists>nu1 nu2 nu3. Unregister 5 7 ''kill'' sample_numbered = Ret nu1 \<and> unregister_all [(6, 8, ''timeout'')] nu1 = Ret nu2 \<and>
    Numbered_Get 9 7 ''query'' nu2 = Ret (nu3, Inl (Ended 5 ''kill''))"
  by (rule ended_resource_is_explained [OF sample_numbered_run])
    (simp_all add: sample_numbered_eq in_int64_def maxInt64_def)

text \<open>
  No wake-up is lost: when a call of \<open>Unregister\<close> leaves the pool empty, every goroutine
  that was parked in \<open>WaitForEmpty\<close> is runnable, none is parked, and the next round of each
  of them returns.
\<close>

theorem WaitForEmpty_wakes_up:
  assumes "numbered_run nu held" "Unregister now idn why nu = Ret nu'" "resources nu' = []"
  shows "parked nu' = [] \<and> set (parked nu) \<subseteq> set (runnable nu') \<and> (\<forall>g. snd (WaitForEmpty_round g nu'))"
proof -
  have inv: "numbered_inv nu" using run_inv [OF assms(1)] by blast
  have u: "numbered_inv nu'" "resources nu' = mdel idn (resources nu)" using Unregister_returns [OF inv, of now idn why] assms(2) by auto
  have "fst (unregister idn nu) = Broadcast (nu\<lparr>resources := []\<rparr>)"
    using u(2) assms(3) by (simp add: unregister_def Let_def)
  then have "runnable nu' = runnable nu @ parked nu"
    using assms(2) by (auto simp: Unregister_def Let_def Broadcast_def obind_eq_Ret split: prod.splits if_splits)
  with u(1) assms(3) show ?thesis by (simp add: numbered_inv_def WaitForEmpty_round_def)
qed

theorem WaitForEmpty_wakes_up_witness:
  "\<exists>nu'. Unregister 5 7 ''kill'' (fst (WaitForEmpty_round 3 sample_numbered)) = Ret nu' \<and>
     parked nu' = [] \<and> 3 \<in> set (runnable nu') \<and> snd (WaitForEmpty_round 3 nu')"
proof -
  let ?nu = "fst (WaitForEmpty_round 3 sample_numbered)"
  have "numbered_step sample_numbered {} {} ?nu"
    by (rule numbered_step.wait [of 3 _ _ "snd (WaitForEmpty_round 3 sample_numbered)"]) simp
  from numbered_run.step [OF sample_numbered_run this] have run: "numbered_run ?nu {}" by simp
  have p: "parked ?nu = [3]" "resources ?nu = resources sample_numbered"
    by (simp_all add: WaitForEmpty_round_def sample_numbered_eq) (simp add: sample_numbered_def Register_def NewNumbered_def)
  obtain nu' where u: "Unregister 5 7 ''kill'' ?nu = Ret nu'" "resources nu' = mdel 7 (resources ?nu)"
    using Unregister_returns [of ?nu 5 7 "''kill''"] run_inv [OF run] by blast
  have "resources nu' = []" using u(2) by (simp add: p sample_numbered_eq)
  from WaitForEmpty_wakes_up [OF run u(1) this] u(1) p(1) show ?thesis by auto
qed

end
