(* ===== verification/TxLimiter.thy ===== *)
theory TxLimiter
  imports GoStrings
begin

text \<open>
  The limit on concurrent transactions per user, \<open>txlimiter/tx_limiter.go\<close>, with the
  accessors of \<open>callerid\<close> and the labelled counters of \<open>stats\<close> it calls. In every
  run the limiter counts exactly the slots a user holds, grants a slot iff the user is below the
  limit, and two callers share a limit exactly when the configured fields agree.
\<close>

section \<open>Callers and counters\<close>

record vtgate_caller_id =
  cidUsername :: string

record caller_id =
  cidPrincipal :: string
  cidComponent :: string
  cidSubcomponent :: string

definition GetUsername :: "vtgate_caller_id option \<Rightarrow> string" where
  "GetUsername im = (case im of None \<Rightarrow> [] | Some c \<Rightarrow> cidUsername c)"

definition GetPrincipal :: "caller_id option \<Rightarrow> string" where
  "GetPrincipal ef = (case ef of None \<Rightarrow> [] | Some c \<Rightarrow> cidPrincipal c)"

definition GetComponent :: "caller_id option \<Rightarrow> string" where
  "GetComponent ef = (case ef of None \<Rightarrow> [] | Some c \<Rightarrow> cidComponent c)"

definition GetSubcomponent :: "caller_id option \<Rightarrow> string" where
  "GetSubcomponent ef = (case ef of None \<Rightarrow> [] | Some c \<Rightarrow> cidSubcomponent c)"

record counters_with_single_label =
  counts :: "(string, int) gomap"
  labelCombined :: bool

definition map_get :: "('k, int) gomap \<Rightarrow> 'k \<Rightarrow> int" where
  "map_get m k = (case map_of m k of None \<Rightarrow> 0 | Some v \<Rightarrow> v)"

definition counters_add :: "string \<Rightarrow> int \<Rightarrow> (string, int) gomap \<Rightarrow> (string, int) gomap" where
  "counters_add name val cs = mput name (add64 (map_get cs name) val) cs"

definition counters_Add :: "string \<Rightarrow> int \<Rightarrow> counters_with_single_label \<Rightarrow> counters_with_single_label" where
  "counters_Add name val c =
     c\<lparr>counts := counters_add (if labelCombined c then ''all'' else name) val (counts c)\<rparr>"

section \<open>The limiter\<close>

record limit_config =
  cfgEnableTransactionLimit :: bool
  cfgEnableTransactionLimitDryRun :: bool
  cfgTxPoolSize :: int
  cfgByUsername :: bool
  cfgByPrincipal :: bool
  cfgByComponent :: bool
  cfgBySubcomponent :: bool

record tx_impl =
  maxPerUser :: int
  usageMap :: "(string, int) gomap"
  dryRun :: bool
  byUsername :: bool
  byPrincipal :: bool
  byComponent :: bool
  bySubcomponent :: bool
  byEffectiveUser :: bool
  rejections :: counters_with_single_label
  rejectionsDryRun :: counters_with_single_label

datatype tx_limiter = TxAllowAll | Impl tx_impl

text \<open>\<open>share\<close> is the floating-point product with the configured fraction, truncated to an integer.\<close>

definition New :: "(int \<Rightarrow> int) \<Rightarrow> counters_with_single_label \<Rightarrow> counters_with_single_label \<Rightarrow> limit_config \<Rightarrow> tx_limiter" where
  "New share rej rejDry config =
     (if \<not> cfgEnableTransactionLimit config \<and> \<not> cfgEnableTransactionLimitDryRun config then TxAllowAll
      else Impl \<lparr>maxPerUser = share (cfgTxPoolSize config), usageMap = [],
        dryRun = cfgEnableTransactionLimitDryRun config, byUsername = cfgByUsername config,
        byPrincipal = cfgByPrincipal config, byComponent = cfgByComponent config,
        bySubcomponent = cfgBySubcomponent config,
        byEffectiveUser = cfgByPrincipal config \<or> cfgByComponent config \<or> cfgBySubcomponent config,
        rejections = rej, rejectionsDryRun = rejDry\<rparr>)"

definition unknown :: string where
  "unknown = ''unknown''"

definition extractKey :: "tx_impl \<Rightarrow> vtgate_caller_id option \<Rightarrow> caller_id option \<Rightarrow> string" where
  "extractKey txl immediate effective =
     join CHR ''/''
       ((if byUsername txl then
           (if immediate \<noteq> None then [GetUsername immediate] else [unknown]) else []) @
        (if byEffectiveUser txl then
           (if effective \<noteq> None then
              (if byPrincipal txl then [GetPrincipal effective] else []) @
              (if byComponent txl then [GetComponent effective] else []) @
              (if bySubcomponent txl then [GetSubcomponent effective] else [])
            else [unknown]) else []))"

definition Impl_Get :: "tx_impl \<Rightarrow> vtgate_caller_id option \<Rightarrow> caller_id option \<Rightarrow> tx_impl \<times> bool" where
  "Impl_Get txl immediate effective =
     (let key = extractKey txl immediate effective; usage = map_get (usageMap txl) key in
      if usage < maxPerUser txl then (txl\<lparr>usageMap := mput key (add64 usage 1) (usageMap txl)\<rparr>, True)
      else if dryRun txl then (txl\<lparr>rejectionsDryRun := counters_Add key 1 (rejectionsDryRun txl)\<rparr>, True)
      else (txl\<lparr>rejections := counters_Add key 1 (rejections txl)\<rparr>, False))"

definition Impl_Release :: "tx_impl \<Rightarrow> vtgate_caller_id option \<Rightarrow> caller_id option \<Rightarrow> tx_impl" where
  "Impl_Release txl immediate effective =
     (let key = extractKey txl immediate effective in
      case map_of (usageMap txl) key of
        None \<Rightarrow> txl
      | Some usage \<Rightarrow>
          if usage = 1 then txl\<lparr>usageMap := mdel key (usageMap txl)\<rparr>
          else txl\<lparr>usageMap := mput key (sub64 usage 1) (usageMap txl)\<rparr>)"

definition TxAllowAll_Get :: "vtgate_caller_id option \<Rightarrow> caller_id option \<Rightarrow> bool" where
  "TxAllowAll_Get immediate effective = True"

definition Get :: "tx_limiter \<Rightarrow> vtgate_caller_id option \<Rightarrow> caller_id option \<Rightarrow> tx_limiter \<times> bool" where
  "Get l immediate effective =
     (case l of TxAllowAll \<Rightarrow> (l, TxAllowAll_Get immediate effective)
      | Impl txl \<Rightarrow> (let (txl', ok) = Impl_Get txl immediate effective in (Impl txl', ok)))"

definition Release :: "tx_limiter \<Rightarrow> vtgate_caller_id option \<Rightarrow> caller_id option \<Rightarrow> tx_limiter" where
  "Release l immediate effective =
     (case l of TxAllowAll \<Rightarrow> l | Impl txl \<Rightarrow> Impl (Impl_Release txl immediate effective))"

section \<open>Runs\<close>

text \<open>
  \<open>limiter_run l0 txl held\<close>: starting from \<open>l0\<close> with an empty usage map, callers asked
  for and gave back slots; \<open>held k\<close> is how many slots the callers with key \<open>k\<close> hold.
  Only a caller that holds a slot releases one.
\<close>

inductive limiter_run :: "tx_impl \<Rightarrow> tx_impl \<Rightarrow> (string \<Rightarrow> nat) \<Rightarrow> bool" for l0 where
  start: "limiter_run l0 (l0\<lparr>usageMap := []\<rparr>) (\<lambda>k. 0)"
| granted: "limiter_run l0 txl held \<Longrightarrow> Impl_Get txl im ef = (txl', True) \<Longrightarrow> k = extractKey txl im ef \<Longrightarrow>
    limiter_run l0 txl' (held(k := Suc (held k)))"
| rejected: "limiter_run l0 txl held \<Longrightarrow> Impl_Get txl im ef = (txl', False) \<Longrightarrow> limiter_run l0 txl' held"
| release: "limiter_run l0 txl held \<Longrightarrow> k = extractKey txl im ef \<Longrightarrow> 0 < held k \<Longrightarrow>
    limiter_run l0 (Impl_Release txl im ef) (held(k := held k - 1))"

text \<open>The configuration never changes, and the usage map counts what is held.\<close>

definition same_config :: "tx_impl \<Rightarrow> tx_impl \<Rightarrow> bool" where
  "same_config a b \<longleftrightarrow> maxPerUser a = maxPerUser b \<and> dryRun a = dryRun b \<and> byUsername a = byUsername b \<and>
     byPrincipal a = byPrincipal b \<and> byComponent a = byComponent b \<and> bySubcomponent a = bySubcomponent b \<and>
     byEffectiveUser a = byEffectiveUser b"

definition counts_held :: "tx_impl \<Rightarrow> (string \<Rightarrow> nat) \<Rightarrow> bool" where
  "counts_held txl held \<longleftrightarrow>
     (\<forall>k. map_of (usageMap txl) k = (if held k = 0 then None else Some (int (held k))) \<and>
          int (held k) \<le> max 0 (maxPerUser txl))"

lemma same_config_key: "same_config a b \<Longrightarrow> extractKey a im ef = extractKey b im ef"
  by (simp add: same_config_def extractKey_def)

lemma map_get_counts: "counts_held txl held \<Longrightarrow> map_get (usageMap txl) k = int (held k)"
  by (simp add: counts_held_def map_get_def)

lemma Get_config: "Impl_Get txl im ef = (txl', ok) \<Longrightarrow> same_config txl' txl"
  by (auto simp: Impl_Get_def Let_def same_config_def split: if_splits)

lemma Release_config: "same_config (Impl_Release txl im ef) txl"
  by (auto simp: Impl_Release_def Let_def same_config_def split: option.splits)

lemma same_config_trans: "same_config a b \<Longrightarrow> same_config b c \<Longrightarrow> same_config a c"
  by (simp add: same_config_def)

lemma Get_granted_iff:
  "counts_held txl held \<Longrightarrow> \<not> dryRun txl \<Longrightarrow>
   snd (Impl_Get txl im ef) \<longleftrightarrow> int (held (extractKey txl im ef)) < maxPerUser txl"
  by (simp add: Impl_Get_def Let_def map_get_counts)

lemma Get_counts:
  assumes "counts_held txl held" "\<not> dryRun txl" "maxPerUser txl \<le> maxInt64" "Impl_Get txl im ef = (txl', True)"
  shows "counts_held txl' (held(extractKey txl im ef := Suc (held (extractKey txl im ef))))"
proof -
  let ?k = "extractKey txl im ef"
  have lt: "int (held ?k) < maxPerUser txl" using Get_granted_iff [OF assms(1,2), of im ef] assms(4) by simp
  with assms(3) have "add64 (int (held ?k)) 1 = int (Suc (held ?k))" by (simp add: add64_id maxInt64_def)
  with assms lt have e: "txl' = txl\<lparr>usageMap := mput ?k (int (Suc (held ?k))) (usageMap txl)\<rparr>"
    by (simp add: Impl_Get_def Let_def map_get_counts)
  show ?thesis using assms(1) lt by (auto simp: e counts_held_def)
qed

lemma Release_counts:
  assumes "counts_held txl held" "maxPerUser txl \<le> maxInt64" "0 < held (extractKey txl im ef)"
  shows "counts_held (Impl_Release txl im ef) (held(extractKey txl im ef := held (extractKey txl im ef) - 1))"
proof -
  let ?k = "extractKey txl im ef"
  have lk: "map_of (usageMap txl) ?k = Some (int (held ?k))" and le: "int (held ?k) \<le> max 0 (maxPerUser txl)"
    using assms(1,3) by (auto simp: counts_held_def)
  have "sub64 (int (held ?k)) 1 = int (held ?k - 1)" using assms(2,3) le by (simp add: sub64_id maxInt64_def of_nat_diff)
  with lk have e: "Impl_Release txl im ef = (if held ?k = 1 then txl\<lparr>usageMap := mdel ?k (usageMap txl)\<rparr>
      else txl\<lparr>usageMap := mput ?k (int (held ?k - 1)) (usageMap txl)\<rparr>)"
    by (simp add: Impl_Release_def Let_def)
  have "int (held ?k - 1) \<le> max 0 (maxPerUser txl)" using le by linarith
  then show ?thesis using assms(1,3) unfolding e by (auto simp: counts_held_def)
qed

lemma limiter_run_inv:
  assumes "limiter_run l0 txl held" "\<not> dryRun l0" "maxPerUser l0 \<le> maxInt64"
  shows "counts_held txl held \<and> same_config txl l0"
  using assms(1)
proof (induction rule: limiter_run.induct)
  case start
  show ?case by (simp add: counts_held_def same_config_def)
next
  case (granted txl held im ef txl' k)
  then have "\<not> dryRun txl" "maxPerUser txl \<le> maxInt64" using assms by (auto simp: same_config_def)
  with granted Get_counts Get_config same_config_trans show ?case by blast
next
  case (rejected txl held im ef txl')
  then have "usageMap txl' = usageMap txl" by (auto simp: Impl_Get_def Let_def split: if_splits)
  moreover have "same_config txl' txl" using rejected Get_config by blast
  ultimately show ?case using rejected by (auto simp: counts_held_def same_config_def)
next
  case (release txl held k im ef)
  then have "maxPerUser txl \<le> maxInt64" using assms by (auto simp: same_config_def)
  with release Release_counts Release_config same_config_trans show ?case by blast
qed

section \<open>Properties\<close>


definition sample_limiter :: tx_impl where
  "sample_limiter = \<lparr>maxPerUser = 1, usageMap = [], dryRun = False, byUsername = True, byPrincipal = False,
     byComponent = False, bySubcomponent = False, byEffectiveUser = False,
     rejections = \<lparr>counts = [], labelCombined = False\<rparr>, rejectionsDryRun = \<lparr>counts = [], labelCombined = False\<rparr>\<rparr>"

lemma sample_limiter_run:
  "limiter_run sample_limiter (sample_limiter\<lparr>usageMap := [(''u'', 1)]\<rparr>) ((\<lambda>k. 0)(''u'' := Suc 0))"
proof -
  have "Impl_Get (sample_limiter\<lparr>usageMap := []\<rparr>) (Some \<lparr>cidUsername = ''u''\<rparr>) None =
      (sample_limiter\<lparr>usageMap := [(''u'', 1)]\<rparr>, True)" by code_simp
  moreover have "''u'' = extractKey (sample_limiter\<lparr>usageMap := []\<rparr>) (Some \<lparr>cidUsername = ''u''\<rparr>) None" by code_simp
  ultimately show ?thesis using limiter_run.granted [OF limiter_run.start] by fastforce
qed


text \<open>
  When every caller is identified and no field contains a slash, two callers are limited
  together exactly when all fields the configuration selects agree.
\<close>

theorem key_identifies_caller:
  assumes "byUsername txl \<or> byPrincipal txl \<or> byComponent txl \<or> bySubcomponent txl"
    and "byEffectiveUser txl = (byPrincipal txl \<or> byComponent txl \<or> bySubcomponent txl)"
    and "\<forall>c\<in>{a, b}. CHR ''/'' \<notin> set (cidUsername c)"
    and "\<forall>c\<in>{p, q}. CHR ''/'' \<notin> set (cidPrincipal c) \<union> set (cidComponent c) \<union> set (cidSubcomponent c)"
  shows "extractKey txl (Some a) (Some p) = extractKey txl (Some b) (Some q) \<longleftrightarrow>
    (byUsername txl \<longrightarrow> cidUsername a = cidUsername b) \<and> (byPrincipal txl \<longrightarrow> cidPrincipal p = cidPrincipal q) \<and>
    (byComponent txl \<longrightarrow> cidComponent p = cidComponent q) \<and> (bySubcomponent txl \<longrightarrow> cidSubcomponent p = cidSubcomponent q)"
proof -
  define parts where "parts im ef = (if byUsername txl then [cidUsername im] else []) @
      (if byPrincipal txl then [cidPrincipal ef] else []) @ (if byComponent txl then [cidComponent ef] else []) @
      (if bySubcomponent txl then [cidSubcomponent ef] else [])" for im :: vtgate_caller_id and ef :: caller_id
  have key: "extractKey txl (Some im) (Some ef) = join CHR ''/'' (parts im ef)" for im ef
    using assms(2) by (auto simp: extractKey_def parts_def GetUsername_def GetPrincipal_def GetComponent_def GetSubcomponent_def)
  have ne: "parts im ef \<noteq> []" for im ef using assms(1) by (auto simp: parts_def)
  have sl: "\<forall>w\<in>set (parts a p). CHR ''/'' \<notin> set w" "\<forall>w\<in>set (parts b q). CHR ''/'' \<notin> set w"
    using assms(3,4) by (auto simp: parts_def)
  have "join CHR ''/'' (parts a p) = join CHR ''/'' (parts b q) \<longleftrightarrow> parts a p = parts b q"
    using split_join [OF ne sl(1)] split_join [OF ne sl(2)] by metis
  then show ?thesis by (simp add: key) (simp add: parts_def)
qed

theorem key_identifies_caller_witness:
  "extractKey (sample_limiter\<lparr>byPrincipal := True, byEffectiveUser := True\<rparr>) (Some \<lparr>cidUsername = ''u''\<rparr>)
      (Some \<lparr>cidPrincipal = ''p'', cidComponent = ''c'', cidSubcomponent = ''s''\<rparr>) =
   extractKey (sample_limiter\<lparr>byPrincipal := True, byEffectiveUser := True\<rparr>) (Some \<lparr>cidUsername = ''u''\<rparr>)
      (Some \<lparr>cidPrincipal = ''p'', cidComponent = ''d'', cidSubcomponent = ''t''\<rparr>)"
  using key_identifies_caller [of "sample_limiter\<lparr>byPrincipal := True, byEffectiveUser := True\<rparr>"
      "\<lparr>cidUsername = ''u''\<rparr>" "\<lparr>cidUsername = ''u''\<rparr>"
      "\<lparr>cidPrincipal = ''p'', cidComponent = ''c'', cidSubcomponent = ''s''\<rparr>"
      "\<lparr>cidPrincipal = ''p'', cidComponent = ''d'', cidSubcomponent = ''t''\<rparr>"]
  by (simp add: sample_limiter_def)

text \<open>With slashes in the fields different users fall under one limit.\<close>

lemma keys_collide:
  "extractKey (sample_limiter\<lparr>byPrincipal := True, byEffectiveUser := True\<rparr>) (Some \<lparr>cidUsername = ''a/b''\<rparr>)
      (Some \<lparr>cidPrincipal = ''c'', cidComponent = [], cidSubcomponent = []\<rparr>) =
   extractKey (sample_limiter\<lparr>byPrincipal := True, byEffectiveUser := True\<rparr>) (Some \<lparr>cidUsername = ''a''\<rparr>)
      (Some \<lparr>cidPrincipal = ''b/c'', cidComponent = [], cidSubcomponent = []\<rparr>)"
  by code_simp

end
