(* ===== verification/SysVars.thy ===== *)
theory SysVars
  imports Prelude
begin

text \<open>
  The catalogue of system variables, \<open>go/vt/sysvars/sysvars.go\<close>: every variable the proxy
  knows and the list it belongs to, which decides how a SET statement is handled.
\<close>

section \<open>Variables\<close>

datatype storage_case = SCSame | SCUpper | SCLower

record system_variable =
  svIsBoolean :: bool
  svIdentifierAsString :: bool
  svDefault :: string
  svName :: string
  svSupportSetVar :: bool
  svCase :: storage_case

text \<open>A composite literal gives some fields; the others are the zero value.\<close>

definition zero_variable :: system_variable where
  "zero_variable = \<lparr>svIsBoolean = False, svIdentifierAsString = False, svDefault = [], svName = [],
     svSupportSetVar = False, svCase = SCSame\<rparr>"

definition on :: string where
  "on = ''1''"

definition off :: string where
  "off = ''0''"

definition utf8mb4 :: string where
  "utf8mb4 = CHR 39 # ''utf8mb4'' @ [CHR 39]"

definition vAutocommit :: system_variable where
  "vAutocommit = zero_variable\<lparr>svName := ''autocommit'', svIsBoolean := True, svDefault := on\<rparr>"

definition vCharset :: system_variable where
  "vCharset = zero_variable\<lparr>svName := ''charset'', svDefault := utf8mb4, svIdentifierAsString := True\<rparr>"

definition vClientFoundRows :: system_variable where
  "vClientFoundRows = zero_variable\<lparr>svName := ''client_found_rows'', svIsBoolean := True, svDefault := off\<rparr>"

definition vSessionEnableSystemSettings :: system_variable where
  "vSessionEnableSystemSettings = zero_variable\<lparr>svName := ''enable_system_settings'', svIsBoolean := True, svDefault := on\<rparr>"

definition vNames :: system_variable where
  "vNames = zero_variable\<lparr>svName := ''names'', svDefault := utf8mb4, svIdentifierAsString := True\<rparr>"

definition vSessionUUID :: system_variable where
  "vSessionUUID = zero_variable\<lparr>svName := ''session_uuid'', svIdentifierAsString := True\<rparr>"

definition vSkipQueryPlanCache :: system_variable where
  "vSkipQueryPlanCache = zero_variable\<lparr>svName := ''skip_query_plan_cache'', svIsBoolean := True, svDefault := off\<rparr>"

definition vSocket :: system_variable where
  "vSocket = zero_variable\<lparr>svName := ''socket'', svDefault := off\<rparr>"

definition vSQLSelectLimit :: system_variable where
  "vSQLSelectLimit = zero_variable\<lparr>svName := ''sql_select_limit'', svDefault := off, svSupportSetVar := True\<rparr>"

definition vTransactionMode :: system_variable where
  "vTransactionMode = zero_variable\<lparr>svName := ''transaction_mode'', svIdentifierAsString := True\<rparr>"

definition vTransactionReadOnly :: system_variable where
  "vTransactionReadOnly = zero_variable\<lparr>svName := ''transaction_read_only'', svIsBoolean := True, svDefault := off\<rparr>"

definition vTxReadOnly :: system_variable where
  "vTxReadOnly = zero_variable\<lparr>svName := ''tx_read_only'', svIsBoolean := True, svDefault := off\<rparr>"

definition vWorkload :: system_variable where
  "vWorkload = zero_variable\<lparr>svName := ''workload'', svIdentifierAsString := True\<rparr>"

definition vQueryTimeout :: system_variable where
  "vQueryTimeout = zero_variable\<lparr>svName := ''query_timeout''\<rparr>"

definition vDDLStrategy :: system_variable where
  "vDDLStrategy = zero_variable\<lparr>svName := ''ddl_strategy'', svIdentifierAsString := True\<rparr>"

definition vVersion :: system_variable where
  "vVersion = zero_variable\<lparr>svName := ''version''\<rparr>"

definition vVersionComment :: system_variable where
  "vVersionComment = zero_variable\<lparr>svName := ''version_comment''\<rparr>"

definition vEnableDeclarativeDDL :: system_variable where
  "vEnableDeclarativeDDL = zero_variable\<lparr>svName := ''enable_declarative_ddl'', svIsBoolean := True, svDefault := off\<rparr>"

definition vReadAfterWriteGTID :: system_variable where
  "vReadAfterWriteGTID = zero_variable\<lparr>svName := ''read_after_write_gtid''\<rparr>"

definition vReadAfterWriteConsistency :: system_variable where
  "vReadAfterWriteConsistency = zero_variable\<lparr>svName := ''read_after_write_consistency''\<rparr>"

definition vReadAfterWriteTimeOut :: system_variable where
  "vReadAfterWriteTimeOut = zero_variable\<lparr>svName := ''read_after_write_timeout''\<rparr>"

definition vSessionTrackGTIDs :: system_variable where
  "vSessionTrackGTIDs = zero_variable\<lparr>svName := ''session_track_gtids'', svIdentifierAsString := True\<rparr>"

definition vReadWriteSplittingPolicy :: system_variable where
  "vReadWriteSplittingPolicy = zero_variable\<lparr>svName := ''read_write_splitting_policy'', svIdentifierAsString := True\<rparr>"

definition vReadWriteSplittingRatio :: system_variable where
  "vReadWriteSplittingRatio = zero_variable\<lparr>svName := ''read_write_splitting_ratio''\<rparr>"

definition vRewriteTableNameWithDbNamePrefix :: system_variable where
  "vRewriteTableNameWithDbNamePrefix = zero_variable\<lparr>svName := ''rewrite_tablename_with_dbname_prefix'', svIsBoolean := True, svDefault := on\<rparr>"

definition vEnableInterceptionForDMLWithoutWhere :: system_variable where
  "vEnableInterceptionForDMLWithoutWhere = zero_variable\<lparr>svName := ''enable_interception_for_dml_without_where'', svIsBoolean := True\<rparr>"

definition vEnableDisplaySQLExecutionVTTablet :: system_variable where
  "vEnableDisplaySQLExecutionVTTablet = zero_variable\<lparr>svName := ''enable_display_sql_execution_vttablets'', svIsBoolean := True\<rparr>"

definition vReadWriteSplitForReadOnlyTxnUserInput :: system_variable where
  "vReadWriteSplitForReadOnlyTxnUserInput = zero_variable\<lparr>svName := ''enable_read_write_splitting_for_read_only_txn'', svIsBoolean := True\<rparr>"

section \<open>The lists\<close>

definition VitessAware :: "system_variable list" where
  "VitessAware =
     [vAutocommit,
      vClientFoundRows,
      vSkipQueryPlanCache,
      vTxReadOnly,
      vTransactionReadOnly,
      vSQLSelectLimit,
      vTransactionMode,
      vDDLStrategy,
      vEnableDeclarativeDDL,
      vWorkload,
      vCharset,
      vNames,
      vSessionUUID,
      vSessionEnableSystemSettings,
      vReadAfterWriteGTID,
      vReadAfterWriteConsistency,
      vReadAfterWriteTimeOut,
      vSessionTrackGTIDs,
      vQueryTimeout,
      vReadWriteSplittingPolicy,
      vReadWriteSplittingRatio,
      vRewriteTableNameWithDbNamePrefix,
      vEnableInterceptionForDMLWithoutWhere,
      vEnableDisplaySQLExecutionVTTablet,
      vReadWriteSplitForReadOnlyTxnUserInput]"

definition ReadOnly :: "system_variable list" where
  "ReadOnly =
     [vSocket,
      vVersion,
      vVersionComment]"

definition IgnoreThese :: "system_variable list" where
  "IgnoreThese =
     [zero_variable\<lparr>svName := ''big_tables'', svIsBoolean := True, svSupportSetVar := True\<rparr>,
      zero_variable\<lparr>svName := ''bulk_insert_buffer_size'', svSupportSetVar := True\<rparr>,
      zero_variable\<lparr>svName := ''debug''\<rparr>,
      zero_variable\<lparr>svName := ''default_storage_engine''\<rparr>,
      zero_variable\<lparr>svName := ''default_tmp_storage_engine'', svSupportSetVar := True\<rparr>,
      zero_variable\<lparr>svName := ''innodb_strict_mode'', svIsBoolean := True\<rparr>,
      zero_variable\<lparr>svName := ''innodb_support_xa'', svIsBoolean := True\<rparr>,
      zero_variable\<lparr>svName := ''innodb_table_locks'', svIsBoolean := True\<rparr>,
      zero_variable\<lparr>svName := ''innodb_tmpdir''\<rparr>,
      zero_variable\<lparr>svName := ''join_buffer_size'', svSupportSetVar := True\<rparr>,
      zero_variable\<lparr>svName := ''keep_files_on_create'', svIsBoolean := True\<rparr>,
      zero_variable\<lparr>svName := ''lc_messages''\<rparr>,
      zero_variable\<lparr>svName := ''long_query_time''\<rparr>,
      zero_variable\<lparr>svName := ''low_priority_updates'', svIsBoolean := True\<rparr>,
      zero_variable\<lparr>svName := ''max_delayed_threads''\<rparr>,
      zero_variable\<lparr>svName := ''max_insert_delayed_threads''\<rparr>,
      zero_variable\<lparr>svName := ''multi_range_count''\<rparr>,
      zero_variable\<lparr>svName := ''net_buffer_length''\<rparr>,
      zero_variable\<lparr>svName := ''new'', svIsBoolean := True\<rparr>,
      zero_variable\<lparr>svName := ''query_cache_type''\<rparr>,
      zero_variable\<lparr>svName := ''query_cache_wlock_invalidate'', svIsBoolean := True\<rparr>,
      zero_variable\<lparr>svName := ''query_prealloc_size''\<rparr>,
      zero_variable\<lparr>svName := ''sql_buffer_result'', svIsBoolean := True, svSupportSetVar := True\<rparr>,
      zero_variable\<lparr>svName := ''transaction_alloc_block_size''\<rparr>,
      zero_variable\<lparr>svName := ''wait_timeout''\<rparr>]"

definition NotSupported :: "system_variable list" where
  "NotSupported =
     [zero_variable\<lparr>svName := ''audit_log_read_buffer_size''\<rparr>,
      zero_variable\<lparr>svName := ''auto_increment_increment'', svSupportSetVar := True\<rparr>,
      zero_variable\<lparr>svName := ''auto_increment_offset'', svSupportSetVar := True\<rparr>,
      zero_variable\<lparr>svName := ''binlog_direct_non_transactional_updates''\<rparr>,
      zero_variable\<lparr>svName := ''binlog_row_image''\<rparr>,
      zero_variable\<lparr>svName := ''binlog_rows_query_log_events''\<rparr>,
      zero_variable\<lparr>svName := ''innodb_ft_enable_stopword''\<rparr>,
      zero_variable\<lparr>svName := ''innodb_ft_user_stopword_table''\<rparr>,
      zero_variable\<lparr>svName := ''max_points_in_geometry'', svSupportSetVar := True\<rparr>,
      zero_variable\<lparr>svName := ''max_sp_recursion_depth''\<rparr>,
      zero_variable\<lparr>svName := ''myisam_repair_threads''\<rparr>,
      zero_variable\<lparr>svName := ''myisam_sort_buffer_size''\<rparr>,
      zero_variable\<lparr>svName := ''myisam_stats_method''\<rparr>,
      zero_variable\<lparr>svName := ''ndb_allow_copying_alter_table''\<rparr>,
      zero_variable\<lparr>svName := ''ndb_autoincrement_prefetch_sz''\<rparr>,
      zero_variable\<lparr>svName := ''ndb_blob_read_batch_bytes''\<rparr>,
      zero_variable\<lparr>svName := ''ndb_blob_write_batch_bytes''\<rparr>,
      zero_variable\<lparr>svName := ''ndb_deferred_constraints''\<rparr>,
      zero_variable\<lparr>svName := ''ndb_force_send''\<rparr>,
      zero_variable\<lparr>svName := ''ndb_fully_replicated''\<rparr>,
      zero_variable\<lparr>svName := ''ndb_index_stat_enable''\<rparr>,
      zero_variable\<lparr>svName := ''ndb_index_stat_option''\<rparr>,
      zero_variable\<lparr>svName := ''ndb_join_pushdown''\<rparr>,
      zero_variable\<lparr>svName := ''ndb_log_bin''\<rparr>,
      zero_variable\<lparr>svName := ''ndb_log_exclusive_reads''\<rparr>,
      zero_variable\<lparr>svName := ''ndb_row_checksum''\<rparr>,
      zero_variable\<lparr>svName := ''ndb_use_exact_count''\<rparr>,
      zero_variable\<lparr>svName := ''ndb_use_transactions''\<rparr>,
      zero_variable\<lparr>svName := ''ndbinfo_max_bytes''\<rparr>,
      zero_variable\<lparr>svName := ''ndbinfo_max_rows''\<rparr>,
      zero_variable\<lparr>svName := ''ndbinfo_show_hidden''\<rparr>,
      zero_variable\<lparr>svName := ''ndbinfo_table_prefix''\<rparr>,
      zero_variable\<lparr>svName := ''old_alter_table''\<rparr>,
      zero_variable\<lparr>svName := ''preload_buffer_size''\<rparr>,
      zero_variable\<lparr>svName := ''rbr_exec_mode''\<rparr>,
      zero_variable\<lparr>svName := ''sql_log_off''\<rparr>,
      zero_variable\<lparr>svName := ''thread_pool_high_priority_connection''\<rparr>,
      zero_variable\<lparr>svName := ''thread_pool_prio_kickup_timer''\<rparr>,
      zero_variable\<lparr>svName := ''transaction_write_set_extraction''\<rparr>]"

definition UseReservedConn :: "system_variable list" where
  "UseReservedConn =
     [zero_variable\<lparr>svName := ''default_week_format''\<rparr>,
      zero_variable\<lparr>svName := ''end_markers_in_json'', svIsBoolean := True, svSupportSetVar := True\<rparr>,
      zero_variable\<lparr>svName := ''eq_range_index_dive_limit'', svSupportSetVar := True\<rparr>,
      zero_variable\<lparr>svName := ''explicit_defaults_for_timestamp''\<rparr>,
      zero_variable\<lparr>svName := ''foreign_key_checks'', svIsBoolean := True, svSupportSetVar := True\<rparr>,
      zero_variable\<lparr>svName := ''group_concat_max_len'', svSupportSetVar := True\<rparr>,
      zero_variable\<lparr>svName := ''information_schema_stats_expiry''\<rparr>,
      zero_variable\<lparr>svName := ''max_heap_table_size'', svSupportSetVar := True\<rparr>,
      zero_variable\<lparr>svName := ''max_seeks_for_key'', svSupportSetVar := True\<rparr>,
      zero_variable\<lparr>svName := ''max_tmp_tables''\<rparr>,
      zero_variable\<lparr>svName := ''min_examined_row_limit''\<rparr>,
      zero_variable\<lparr>svName := ''old_passwords''\<rparr>,
      zero_variable\<lparr>svName := ''optimizer_prune_level'', svSupportSetVar := True\<rparr>,
      zero_variable\<lparr>svName := ''optimizer_search_depth'', svSupportSetVar := True\<rparr>,
      zero_variable\<lparr>svName := ''optimizer_switch'', svSupportSetVar := True\<rparr>,
      zero_variable\<lparr>svName := ''optimizer_trace''\<rparr>,
      zero_variable\<lparr>svName := ''optimizer_trace_features''\<rparr>,
      zero_variable\<lparr>svName := ''optimizer_trace_limit''\<rparr>,
      zero_variable\<lparr>svName := ''optimizer_trace_max_mem_size''\<rparr>,
      zero_variable\<lparr>svName := ''optimizer_trace_offset''\<rparr>,
      zero_variable\<lparr>svName := ''parser_max_mem_size''\<rparr>,
      zero_variable\<lparr>svName := ''profiling'', svIsBoolean := True\<rparr>,
      zero_variable\<lparr>svName := ''profiling_history_size''\<rparr>,
      zero_variable\<lparr>svName := ''query_alloc_block_size''\<rparr>,
      zero_variable\<lparr>svName := ''range_alloc_block_size'', svSupportSetVar := True\<rparr>,
      zero_variable\<lparr>svName := ''range_optimizer_max_mem_size'', svSupportSetVar := True\<rparr>,
      zero_variable\<lparr>svName := ''read_buffer_size'', svSupportSetVar := True\<rparr>,
      zero_variable\<lparr>svName := ''read_rnd_buffer_size'', svSupportSetVar := True\<rparr>,
      zero_variable\<lparr>svName := ''show_create_table_verbosity'', svIsBoolean := True\<rparr>,
      zero_variable\<lparr>svName := ''show_old_temporals'', svIsBoolean := True\<rparr>,
      zero_variable\<lparr>svName := ''sort_buffer_size'', svSupportSetVar := True\<rparr>,
      zero_variable\<lparr>svName := ''sql_big_selects'', svIsBoolean := True, svSupportSetVar := True\<rparr>,
      zero_variable\<lparr>svName := ''sql_mode'', svSupportSetVar := True\<rparr>,
      zero_variable\<lparr>svName := ''sql_notes'', svIsBoolean := True\<rparr>,
      zero_variable\<lparr>svName := ''sql_quote_show_create'', svIsBoolean := True\<rparr>,
      zero_variable\<lparr>svName := ''sql_safe_updates'', svIsBoolean := True, svSupportSetVar := True\<rparr>,
      zero_variable\<lparr>svName := ''sql_warnings'', svIsBoolean := True\<rparr>,
      zero_variable\<lparr>svName := ''time_zone''\<rparr>,
      zero_variable\<lparr>svName := ''tmp_table_size'', svSupportSetVar := True\<rparr>,
      zero_variable\<lparr>svName := ''transaction_isolation'', svCase := SCUpper\<rparr>,
      zero_variable\<lparr>svName := ''transaction_prealloc_size''\<rparr>,
      zero_variable\<lparr>svName := ''tx_isolation'', svCase := SCUpper\<rparr>,
      zero_variable\<lparr>svName := ''unique_checks'', svIsBoolean := True, svSupportSetVar := True\<rparr>,
      zero_variable\<lparr>svName := ''updatable_views_with_limit'', svIsBoolean := True, svSupportSetVar := True\<rparr>]"

definition CheckAndIgnore :: "system_variable list" where
  "CheckAndIgnore =
     [zero_variable\<lparr>svName := ''binlog_format''\<rparr>,
      zero_variable\<lparr>svName := ''block_encryption_mode''\<rparr>,
      zero_variable\<lparr>svName := ''character_set_client''\<rparr>,
      zero_variable\<lparr>svName := ''character_set_connection''\<rparr>,
      zero_variable\<lparr>svName := ''character_set_database''\<rparr>,
      zero_variable\<lparr>svName := ''character_set_filesystem''\<rparr>,
      zero_variable\<lparr>svName := ''character_set_results''\<rparr>,
      zero_variable\<lparr>svName := ''character_set_server''\<rparr>,
      zero_variable\<lparr>svName := ''collation_connection''\<rparr>,
      zero_variable\<lparr>svName := ''collation_database''\<rparr>,
      zero_variable\<lparr>svName := ''collation_server''\<rparr>,
      zero_variable\<lparr>svName := ''completion_type''\<rparr>,
      zero_variable\<lparr>svName := ''div_precision_increment'', svSupportSetVar := True\<rparr>,
      zero_variable\<lparr>svName := ''innodb_lock_wait_timeout''\<rparr>,
      zero_variable\<lparr>svName := ''interactive_timeout''\<rparr>,
      zero_variable\<lparr>svName := ''lc_time_names''\<rparr>,
      zero_variable\<lparr>svName := ''lock_wait_timeout'', svSupportSetVar := True\<rparr>,
      zero_variable\<lparr>svName := ''max_allowed_packet''\<rparr>,
      zero_variable\<lparr>svName := ''max_error_count'', svSupportSetVar := True\<rparr>,
      zero_variable\<lparr>svName := ''max_execution_time'', svSupportSetVar := True\<rparr>,
      zero_variable\<lparr>svName := ''max_join_size'', svSupportSetVar := True\<rparr>,
      zero_variable\<lparr>svName := ''max_length_for_sort_data'', svSupportSetVar := True\<rparr>,
      zero_variable\<lparr>svName := ''max_sort_length'', svSupportSetVar := True\<rparr>,
      zero_variable\<lparr>svName := ''max_user_connections''\<rparr>,
      zero_variable\<lparr>svName := ''net_read_timeout''\<rparr>,
      zero_variable\<lparr>svName := ''net_retry_count''\<rparr>,
      zero_variable\<lparr>svName := ''net_write_timeout''\<rparr>,
      zero_variable\<lparr>svName := ''session_track_schema'', svIsBoolean := True\<rparr>,
      zero_variable\<lparr>svName := ''session_track_state_change'', svIsBoolean := True\<rparr>,
      zero_variable\<lparr>svName := ''session_track_system_variables''\<rparr>,
      zero_variable\<lparr>svName := ''session_track_transaction_info''\<rparr>,
      zero_variable\<lparr>svName := ''sql_auto_is_null'', svIsBoolean := True, svSupportSetVar := True\<rparr>,
      zero_variable\<lparr>svName := ''version_tokens_session''\<rparr>]"

section \<open>Queries\<close>

definition GetInterestingVariables :: "string list" where
  "GetInterestingVariables =
     map svName VitessAware @ [svName vVersion, svName vVersionComment, svName vSocket] @
     map svName (filter svSupportSetVar UseReservedConn)"

text \<open>The set of names is built once, on the first call.\<close>

definition IsVitessAware :: "string \<Rightarrow> bool" where
  "IsVitessAware sysv \<longleftrightarrow> sysv \<in> set (map svName VitessAware)"

text \<open>Names are told apart by a polynomial hash: where the hashes are distinct, the names are.\<close>

definition name_hash :: "string \<Rightarrow> int" where
  "name_hash s = foldl (\<lambda>h c. (h * 31 + of_char c) mod 1000003) 7 s"

lemma distinct_by_hash: "distinct (map name_hash ns) \<Longrightarrow> distinct ns"
  by (simp add: distinct_map)

section \<open>Properties\<close>

text \<open>
  The catalogue is consistent: no name occurs twice in the six lists, so every system variable
  is handled in exactly one way; and SHOW VARIABLES offers no variable twice.
\<close>

theorem catalogue_classifies_once:
  "distinct (map svName (VitessAware @ ReadOnly @ IgnoreThese @ NotSupported @ UseReservedConn @ CheckAndIgnore)) \<and>
   distinct GetInterestingVariables"
proof (rule conjI; rule distinct_by_hash)
  show "distinct (map name_hash (map svName (VitessAware @ ReadOnly @ IgnoreThese @ NotSupported @ UseReservedConn @ CheckAndIgnore)))"
    by code_simp
  show "distinct (map name_hash GetInterestingVariables)"
    by code_simp
qed

end
