(* ===== verification/SafeSession.thy ===== *)
theory SafeSession
  imports GoStrings Bytes SysVars
begin

text \<open>
  The session of a client at the proxy, \<open>go/vt/vtgate/safe_session.go\<close>: the fields of the
  protobuf message the file touches, the fields the proxy adds, and every method. A method that
  changes the session returns the new one; the mutex makes each method atomic. Shard sessions are
  values here: a pointer in one of the three lists is not shared with another list.
\<close>

section \<open>Data\<close>

datatype autocommit_state = notAutocommittable | autocommittable | autocommitted

datatype savepoint_state = savepointStateNotSet | savepointNotNeeded | savepointNeeded | savepointSet |
  savepointRollbackSet | savepointRollback

datatype commit_order = CommitOrder_NORMAL | CommitOrder_PRE | CommitOrder_POST | CommitOrder_AUTOCOMMIT

datatype transaction_mode = TransactionMode_UNSPECIFIED | TransactionMode_SINGLE | TransactionMode_MULTI |
  TransactionMode_TWOPC

datatype transaction_access_mode = TransactionAccessMode_INVALID | WITH_CONSISTENT_SNAPSHOT | READ_WRITE | READ_ONLY

datatype read_after_write_consistency = EVENTUAL | SESSION | INSTANCE | GLOBAL

record tablet_alias =
  aliasCell :: string
  aliasUid :: "32 word"

record target =
  tgKeyspace :: string
  tgShard :: string
  tgTabletType :: int
  tgCell :: string

record shard_session =
  ssTarget :: "target option"
  ssTransactionId :: int
  ssTabletAlias :: "tablet_alias option"
  ssReservedId :: int
  ssVindexOnly :: bool

record execute_options =
  optTransactionAccessMode :: "int list"
  optHasCreatedTempTables :: bool
  optSkipQueryPlanCache :: bool
  optSqlSelectLimit :: int

text \<open>The timeout is a float64, kept as its 64 bits: nothing here computes with it.\<close>

record read_after_write =
  rawGtid :: string
  rawTimeout :: "64 word"
  rawSessionTrackGtids :: bool
  rawConsistency :: read_after_write_consistency

record query_warning =
  warnCode :: "32 word"
  warnMessage :: string

record 'bv session =
  sInTransaction :: bool
  sShardSessions :: "shard_session list"
  sAutocommit :: bool
  sTargetString :: string
  sOptions :: "execute_options option"
  sTransactionMode :: transaction_mode
  sWarnings :: "query_warning list"
  sPreSessions :: "shard_session list"
  sPostSessions :: "shard_session list"
  sUserDefinedVariables :: "(string, 'bv) gomap option"
  sSystemVariables :: "(string, string) gomap option"
  sSavepoints :: "string list"
  sInReservedConn :: bool
  sLockSession :: "shard_session option"
  sLastLockHeartbeat :: int
  sReadAfterWrite :: "read_after_write option"
  sDDLStrategy :: string
  sSessionUUID :: string
  sEnableSystemSettings :: bool
  sAdvisoryLock :: "(string, int) gomap option"
  sQueryTimeout :: int
  sReadWriteSplittingPolicy :: string
  sReadWriteSplittingRatio :: int
  sRewriteTableNameWithDbNamePrefix :: bool
  sReadWriteSplitForReadOnlyTxnUserInput :: bool
  sTransactionAccessMode :: transaction_access_mode
  sEnableInterceptionForDMLWithoutWhere :: bool
  sEnableDisplaySQLExecutionVTTabletType :: bool
  sEnableDeclarativeDDL :: bool

record execute_entry =
  entryID :: int
  entryTarget :: "target option"
  entryQuery :: string

record execute_logger =
  entries :: "execute_entry list"
  lastID :: int

record 'bv safe_session =
  mustRollback :: bool
  autocommitState :: autocommit_state
  commitOrder :: commit_order
  savepointState :: savepoint_state
  rollbackOnPartialExec :: string
  savepointName :: string
  foundRowsHandled :: bool
  queryFromVindex :: bool
  logging :: "execute_logger option"
  Session :: "'bv session"

datatype session_error = VT13001 string | MultiDbAttempted "shard_session list" |
  NonMatchingAliases "tablet_alias option" "tablet_alias option" | UnexpectedCommitOrder string

text \<open>The zero value of the message.\<close>

definition zero_session :: "'bv session" where
  "zero_session = \<lparr>sInTransaction = False, sShardSessions = [], sAutocommit = False, sTargetString = [],
     sOptions = None, sTransactionMode = TransactionMode_UNSPECIFIED, sWarnings = [], sPreSessions = [],
     sPostSessions = [], sUserDefinedVariables = None, sSystemVariables = None, sSavepoints = [],
     sInReservedConn = False, sLockSession = None, sLastLockHeartbeat = 0, sReadAfterWrite = None,
     sDDLStrategy = [], sSessionUUID = [], sEnableSystemSettings = False, sAdvisoryLock = None,
     sQueryTimeout = 0, sReadWriteSplittingPolicy = [], sReadWriteSplittingRatio = 0,
     sRewriteTableNameWithDbNamePrefix = False, sReadWriteSplitForReadOnlyTxnUserInput = False,
     sTransactionAccessMode = TransactionAccessMode_INVALID, sEnableInterceptionForDMLWithoutWhere = False,
     sEnableDisplaySQLExecutionVTTabletType = False, sEnableDeclarativeDDL = False\<rparr>"

definition zero_options :: execute_options where
  "zero_options = \<lparr>optTransactionAccessMode = [], optHasCreatedTempTables = False,
     optSkipQueryPlanCache = False, optSqlSelectLimit = 0\<rparr>"

definition zero_raw :: read_after_write where
  "zero_raw = \<lparr>rawGtid = [], rawTimeout = 0, rawSessionTrackGtids = False, rawConsistency = EVENTUAL\<rparr>"

abbreviation on_session :: "('bv session \<Rightarrow> 'bv session) \<Rightarrow> 'bv safe_session \<Rightarrow> 'bv safe_session" where
  "on_session f s \<equiv> s\<lparr>Session := f (Session s)\<rparr>"

section \<open>Creation and reset\<close>

definition NewSafeSession :: "'bv session option \<Rightarrow> 'bv safe_session" where
  "NewSafeSession sessn =
     \<lparr>mustRollback = False, autocommitState = notAutocommittable, commitOrder = CommitOrder_NORMAL,
      savepointState = savepointStateNotSet, rollbackOnPartialExec = [], savepointName = [],
      foundRowsHandled = False, queryFromVindex = False, logging = None,
      Session = (case sessn of None \<Rightarrow> zero_session | Some m \<Rightarrow> m)\<rparr>"

definition NewAutocommitSession :: "'bv session \<Rightarrow> 'bv safe_session" where
  "NewAutocommitSession sessn =
     NewSafeSession (Some (sessn\<lparr>sInTransaction := False, sTransactionAccessMode := TransactionAccessMode_INVALID,
       sShardSessions := [], sPreSessions := [], sPostSessions := [], sLockSession := None,
       sAutocommit := True, sWarnings := []\<rparr>))"

definition resetCommonLocked :: "'bv safe_session \<Rightarrow> 'bv safe_session" where
  "resetCommonLocked s =
     on_session (\<lambda>m. m\<lparr>sInTransaction := False, sTransactionAccessMode := TransactionAccessMode_INVALID,
         sSavepoints := [], sOptions := map_option (\<lambda>opt. opt\<lparr>optTransactionAccessMode := []\<rparr>) (sOptions m)\<rparr>)
       (s\<lparr>mustRollback := False, autocommitState := notAutocommittable, commitOrder := CommitOrder_NORMAL\<rparr>)"

definition clear_shards :: "'bv session \<Rightarrow> 'bv session" where
  "clear_shards m = m\<lparr>sShardSessions := [], sPreSessions := [], sPostSessions := []\<rparr>"

definition ResetTx :: "'bv safe_session \<Rightarrow> 'bv safe_session" where
  "ResetTx s =
     (let s1 = resetCommonLocked s in
      if \<not> sInReservedConn (Session s1) then on_session clear_shards s1 else s1)"

definition Reset :: "'bv safe_session \<Rightarrow> 'bv safe_session" where
  "Reset s = on_session clear_shards (resetCommonLocked s)"

definition ResetAll :: "'bv safe_session \<Rightarrow> 'bv safe_session" where
  "ResetAll s =
     on_session (\<lambda>m. (clear_shards m)\<lparr>sLockSession := None, sAdvisoryLock := None\<rparr>) (resetCommonLocked s)"

section \<open>Commit token and savepoints\<close>

definition SavePoints :: "'bv safe_session \<Rightarrow> string list" where
  "SavePoints s = sSavepoints (Session s)"

definition SetAutocommittable :: "bool \<Rightarrow> 'bv safe_session \<Rightarrow> 'bv safe_session" where
  "SetAutocommittable flag s =
     (if autocommitState s = autocommitted then s
      else if flag then s\<lparr>autocommitState := autocommittable\<rparr>
      else s\<lparr>autocommitState := notAutocommittable\<rparr>)"

definition AutocommitApproval :: "'bv safe_session \<Rightarrow> 'bv safe_session \<times> bool" where
  "AutocommitApproval s =
     (if autocommitState s = autocommitted then (s, False)
      else if autocommitState s = autocommittable then (s\<lparr>autocommitState := autocommitted\<rparr>, True)
      else (s, False))"

definition SetSavepointState :: "bool \<Rightarrow> 'bv safe_session \<Rightarrow> 'bv safe_session" where
  "SetSavepointState spNeed s =
     (if savepointState s \<noteq> savepointStateNotSet then s
      else if spNeed then s\<lparr>savepointState := savepointNeeded\<rparr>
      else s\<lparr>savepointState := savepointNotNeeded\<rparr>)"

definition CanAddSavepoint :: "'bv safe_session \<Rightarrow> bool" where
  "CanAddSavepoint s \<longleftrightarrow> savepointState s = savepointNeeded"

definition SetSavepoint :: "string \<Rightarrow> 'bv safe_session \<Rightarrow> 'bv safe_session" where
  "SetSavepoint name s = s\<lparr>savepointName := name, savepointState := savepointSet\<rparr>"

definition txRollback :: string where
  "txRollback = ''Rollback Transaction''"

definition SetRollbackCommand :: "'bv safe_session \<Rightarrow> 'bv safe_session" where
  "SetRollbackCommand s =
     (if savepointState s = savepointRollback then s
      else
        let s1 = (if savepointState s = savepointSet
          then s\<lparr>rollbackOnPartialExec := ''rollback to '' @ savepointName s\<rparr>
          else s\<lparr>rollbackOnPartialExec := txRollback\<rparr>) in
        s1\<lparr>savepointState := savepointRollbackSet\<rparr>)"

definition SavepointRollback :: "'bv safe_session \<Rightarrow> 'bv safe_session" where
  "SavepointRollback s = s\<lparr>savepointState := savepointRollback\<rparr>"

definition IsRollbackSet :: "'bv safe_session \<Rightarrow> bool" where
  "IsRollbackSet s \<longleftrightarrow> savepointState s = savepointRollbackSet"

definition SetCommitOrder :: "commit_order \<Rightarrow> 'bv safe_session \<Rightarrow> 'bv safe_session" where
  "SetCommitOrder co s = s\<lparr>commitOrder := co\<rparr>"

definition InTransaction :: "'bv safe_session \<Rightarrow> bool" where
  "InTransaction s = sInTransaction (Session s)"

definition StoreSavepoint :: "string \<Rightarrow> 'bv safe_session \<Rightarrow> 'bv safe_session" where
  "StoreSavepoint sql s = on_session (\<lambda>m. m\<lparr>sSavepoints := sSavepoints m @ [sql]\<rparr>) s"

text \<open>\<open>strings.Contains\<close>.\<close>

fun str_contains :: "string \<Rightarrow> string \<Rightarrow> bool" where
  "str_contains [] sub \<longleftrightarrow> sub = []"
| "str_contains (c # s) sub \<longleftrightarrow> take (length sub) (c # s) = sub \<or> str_contains s sub"

definition RemoveInternalSavepoint :: "'bv safe_session \<Rightarrow> 'bv safe_session" where
  "RemoveInternalSavepoint s =
     (let sCount = length (sSavepoints (Session s)) in
      if savepointName s = [] then s
      else if sCount = 0 then s
      else if str_contains (sSavepoints (Session s) ! (sCount - 1)) (savepointName s)
      then on_session (\<lambda>m. m\<lparr>sSavepoints := take (sCount - 1) (sSavepoints m)\<rparr>) s
      else s)"

section \<open>Shard sessions\<close>

definition actualNoOfShardSession :: "shard_session list \<Rightarrow> nat" where
  "actualNoOfShardSession sessions = length (filter (\<lambda>ss. \<not> ssVindexOnly ss) sessions)"

definition isSingleDB :: "transaction_mode \<Rightarrow> 'bv safe_session \<Rightarrow> bool" where
  "isSingleDB txMode s \<longleftrightarrow>
     sTransactionMode (Session s) = TransactionMode_SINGLE \<or>
     (sTransactionMode (Session s) = TransactionMode_UNSPECIFIED \<and> txMode = TransactionMode_SINGLE)"

definition getSessions :: "'bv safe_session \<Rightarrow> shard_session list" where
  "getSessions s =
     (case commitOrder s of
        CommitOrder_PRE \<Rightarrow> sPreSessions (Session s)
      | CommitOrder_POST \<Rightarrow> sPostSessions (Session s)
      | _ \<Rightarrow> sShardSessions (Session s))"

definition put_sessions :: "shard_session list \<Rightarrow> 'bv safe_session \<Rightarrow> 'bv safe_session" where
  "put_sessions l s =
     (case commitOrder s of
        CommitOrder_PRE \<Rightarrow> on_session (\<lambda>m. m\<lparr>sPreSessions := l\<rparr>) s
      | CommitOrder_POST \<Rightarrow> on_session (\<lambda>m. m\<lparr>sPostSessions := l\<rparr>) s
      | _ \<Rightarrow> on_session (\<lambda>m. m\<lparr>sShardSessions := l\<rparr>) s)"

text \<open>A shard session without a target is a nil pointer dereference.\<close>

fun find_loop :: "string \<Rightarrow> string \<Rightarrow> int \<Rightarrow> nat \<Rightarrow> shard_session list \<Rightarrow> nat option outcome" where
  "find_loop keyspace shard tabletType i [] = Ret None"
| "find_loop keyspace shard tabletType i (ss # rest) =
     (case ssTarget ss of
        None \<Rightarrow> Panic
      | Some t \<Rightarrow>
          if keyspace = tgKeyspace t \<and> tabletType = tgTabletType t \<and> shard = tgShard t then Ret (Some i)
          else find_loop keyspace shard tabletType (Suc i) rest)"

definition FindAndChangeSessionIfInSingleTxMode ::
  "string \<Rightarrow> string \<Rightarrow> int \<Rightarrow> transaction_mode \<Rightarrow> 'bv safe_session \<Rightarrow>
   ('bv safe_session \<times> (session_error + int \<times> int \<times> tablet_alias option)) outcome" where
  "FindAndChangeSessionIfInSingleTxMode keyspace shard tabletType txMode s =
     (let sessions = getSessions s in
      obind (find_loop keyspace shard tabletType 0 sessions) (\<lambda>found.
        case found of
          None \<Rightarrow> Ret (s, Inr (0, 0, None))
        | Some i \<Rightarrow>
            let ss = sessions ! i; res = (ssTransactionId ss, ssReservedId ss, ssTabletAlias ss) in
            if txMode \<noteq> TransactionMode_SINGLE \<or> \<not> ssVindexOnly ss \<or> queryFromVindex s then Ret (s, Inr res)
            else if actualNoOfShardSession (sShardSessions (Session s)) > 0
            then Ret (s\<lparr>mustRollback := True\<rparr>, Inl (MultiDbAttempted (sShardSessions (Session s))))
            else Ret (put_sessions (sessions[i := ss\<lparr>ssVindexOnly := False\<rparr>]) s, Inr res)))"

definition targetedAtSameTablet :: "shard_session \<Rightarrow> shard_session \<Rightarrow> bool outcome" where
  "targetedAtSameTablet sess ss =
     (case (ssTarget sess, ssTarget ss) of
        (Some a, Some b) \<Rightarrow> Ret (tgKeyspace a = tgKeyspace b \<and> tgTabletType a = tgTabletType b \<and> tgShard a = tgShard b)
      | _ \<Rightarrow> Panic)"

fun addOrUpdate :: "shard_session \<Rightarrow> shard_session list \<Rightarrow> (session_error + shard_session list) outcome" where
  "addOrUpdate ss [] = Ret (Inr [ss])"
| "addOrUpdate ss (sess # rest) =
     obind (targetedAtSameTablet sess ss) (\<lambda>same.
       if same then
         (if ssTabletAlias sess \<noteq> ssTabletAlias ss then Ret (Inl (NonMatchingAliases (ssTabletAlias sess) (ssTabletAlias ss)))
          else Ret (Inr (ss # rest)))
       else obind (addOrUpdate ss rest) (\<lambda>r. Ret (case r of Inl e \<Rightarrow> Inl e | Inr l \<Rightarrow> Inr (sess # l))))"

definition AppendOrUpdate ::
  "shard_session \<Rightarrow> transaction_mode \<Rightarrow> 'bv safe_session \<Rightarrow> ('bv safe_session \<times> session_error option) outcome" where
  "AppendOrUpdate ss txMode s0 =
     (if autocommitState s0 = autocommitted \<and> ssTransactionId ss \<noteq> 0
      then Ret (s0, Some (VT13001 (''unexpected '' @ CHR 39 # ''autocommitted'' @ CHR 39 # '' state in transaction'')))
      else if \<not> (sInTransaction (Session s0) \<or> sInReservedConn (Session s0))
      then Ret (s0, Some (VT13001 ''current session is neither in transaction nor in reserved connection''))
      else
        let s = s0\<lparr>autocommitState := notAutocommittable\<rparr> in
        case commitOrder s of
          CommitOrder_NORMAL \<Rightarrow>
            let ss1 = (if queryFromVindex s then ss\<lparr>ssVindexOnly := True\<rparr> else ss) in
            obind (addOrUpdate ss1 (sShardSessions (Session s))) (\<lambda>r.
              case r of
                Inl e \<Rightarrow> Ret (s, Some e)
              | Inr newSessions \<Rightarrow>
                  let s1 = on_session (\<lambda>m. m\<lparr>sShardSessions := newSessions\<rparr>) s in
                  if queryFromVindex s1 then Ret (s1, None)
                  else if isSingleDB txMode s1 \<and> length newSessions > 1 then
                    (if actualNoOfShardSession newSessions \<le> 1 then Ret (s1, None)
                     else Ret (s1\<lparr>mustRollback := True\<rparr>, Some (MultiDbAttempted newSessions)))
                  else Ret (s1, None))
        | CommitOrder_PRE \<Rightarrow>
            obind (addOrUpdate ss (sPreSessions (Session s))) (\<lambda>r.
              case r of
                Inl e \<Rightarrow> Ret (s, Some e)
              | Inr newSessions \<Rightarrow> Ret (on_session (\<lambda>m. m\<lparr>sPreSessions := newSessions\<rparr>) s, None))
        | CommitOrder_POST \<Rightarrow>
            obind (addOrUpdate ss (sPostSessions (Session s))) (\<lambda>r.
              case r of
                Inl e \<Rightarrow> Ret (s, Some e)
              | Inr newSessions \<Rightarrow> Ret (on_session (\<lambda>m. m\<lparr>sPostSessions := newSessions\<rparr>) s, None))
        | _ \<Rightarrow> Ret (s, Some (UnexpectedCommitOrder ''SafeSession.AppendOrUpdate'')))"

fun remove_loop :: "tablet_alias option \<Rightarrow> nat \<Rightarrow> nat option \<Rightarrow> shard_session list \<Rightarrow> session_error + nat option" where
  "remove_loop al i idx [] = Inr idx"
| "remove_loop al i idx (ss # rest) =
     (if ssTabletAlias ss = al then
        (if ssTransactionId ss \<noteq> 0 then Inl (VT13001 ''removing shard session when in transaction'')
         else remove_loop al (Suc i) (Some i) rest)
      else remove_loop al (Suc i) idx rest)"

definition removeShard :: "tablet_alias option \<Rightarrow> shard_session list \<Rightarrow> session_error + shard_session list" where
  "removeShard al sessions =
     (case remove_loop al 0 None sessions of
        Inl e \<Rightarrow> Inl e
      | Inr None \<Rightarrow> Inl (VT13001 ''tried to remove missing shard'')
      | Inr (Some idx) \<Rightarrow> Inr (take idx sessions @ drop (Suc idx) sessions))"

definition ResetShard :: "tablet_alias option \<Rightarrow> 'bv safe_session \<Rightarrow> 'bv safe_session \<times> session_error option" where
  "ResetShard al s =
     (case commitOrder s of
        CommitOrder_NORMAL \<Rightarrow>
          (case removeShard al (sShardSessions (Session s)) of
             Inl e \<Rightarrow> (s, Some e) | Inr l \<Rightarrow> (on_session (\<lambda>m. m\<lparr>sShardSessions := l\<rparr>) s, None))
      | CommitOrder_PRE \<Rightarrow>
          (case removeShard al (sPreSessions (Session s)) of
             Inl e \<Rightarrow> (s, Some e) | Inr l \<Rightarrow> (on_session (\<lambda>m. m\<lparr>sPreSessions := l\<rparr>) s, None))
      | CommitOrder_POST \<Rightarrow>
          (case removeShard al (sPostSessions (Session s)) of
             Inl e \<Rightarrow> (s, Some e) | Inr l \<Rightarrow> (on_session (\<lambda>m. m\<lparr>sPostSessions := l\<rparr>) s, None))
      | _ \<Rightarrow> (s, Some (UnexpectedCommitOrder ''SafeSession.ResetShard'')))"

definition SetRollback :: "'bv safe_session \<Rightarrow> 'bv safe_session" where
  "SetRollback s = (if sInTransaction (Session s) then s\<lparr>mustRollback := True\<rparr> else s)"

definition MustRollback :: "'bv safe_session \<Rightarrow> bool" where
  "MustRollback s = mustRollback s"

definition isTxOpen :: "'bv safe_session \<Rightarrow> bool" where
  "isTxOpen s \<longleftrightarrow> length (sShardSessions (Session s)) > 0 \<or> length (sPreSessions (Session s)) > 0 \<or>
     length (sPostSessions (Session s)) > 0"

section \<open>Settings\<close>

definition SetQueryTimeout :: "int \<Rightarrow> 'bv safe_session \<Rightarrow> 'bv safe_session" where
  "SetQueryTimeout queryTimeout s = on_session (\<lambda>m. m\<lparr>sQueryTimeout := queryTimeout\<rparr>) s"

definition GetQueryTimeout :: "'bv safe_session \<Rightarrow> int" where
  "GetQueryTimeout s = sQueryTimeout (Session s)"

definition RecordWarning :: "query_warning \<Rightarrow> 'bv safe_session \<Rightarrow> 'bv safe_session" where
  "RecordWarning warning s = on_session (\<lambda>m. m\<lparr>sWarnings := sWarnings m @ [warning]\<rparr>) s"

definition ClearWarnings :: "'bv safe_session \<Rightarrow> 'bv safe_session" where
  "ClearWarnings s = on_session (\<lambda>m. m\<lparr>sWarnings := []\<rparr>) s"

definition SetUserDefinedVariable :: "string \<Rightarrow> 'bv \<Rightarrow> 'bv safe_session \<Rightarrow> 'bv safe_session" where
  "SetUserDefinedVariable key bv s =
     on_session (\<lambda>m. m\<lparr>sUserDefinedVariables :=
       Some (mput key bv (case sUserDefinedVariables m of None \<Rightarrow> [] | Some vs \<Rightarrow> vs))\<rparr>) s"

definition SetTargetString :: "string \<Rightarrow> 'bv safe_session \<Rightarrow> 'bv safe_session" where
  "SetTargetString tgt s = on_session (\<lambda>m. m\<lparr>sTargetString := tgt\<rparr>) s"

definition SetSystemVariable :: "string \<Rightarrow> string \<Rightarrow> 'bv safe_session \<Rightarrow> 'bv safe_session" where
  "SetSystemVariable name expr s =
     on_session (\<lambda>m. m\<lparr>sSystemVariables :=
       Some (mput name expr (case sSystemVariables m of None \<Rightarrow> [] | Some vs \<Rightarrow> vs))\<rparr>) s"

definition sysvar_map :: "'bv safe_session \<Rightarrow> (string, string) gomap" where
  "sysvar_map s = (case sSystemVariables (Session s) of None \<Rightarrow> [] | Some vs \<Rightarrow> vs)"

definition GetSystemVariables :: "(string \<Rightarrow> string \<Rightarrow> 's \<Rightarrow> 's) \<Rightarrow> 'bv safe_session \<Rightarrow> 's \<Rightarrow> 's" where
  "GetSystemVariables f s st = fold (\<lambda>(k, v) st. if IsVitessAware k then st else f k v st) (sysvar_map s) st"

definition HasSystemVariables :: "'bv safe_session \<Rightarrow> bool" where
  "HasSystemVariables s = GetSystemVariables (\<lambda>_ _ found. True) s False"

definition SetOptions :: "execute_options option \<Rightarrow> 'bv safe_session \<Rightarrow> 'bv safe_session" where
  "SetOptions opts s = on_session (\<lambda>m. m\<lparr>sOptions := opts\<rparr>) s"

definition InReservedConn :: "'bv safe_session \<Rightarrow> bool" where
  "InReservedConn s = sInReservedConn (Session s)"

definition SetReservedConn :: "bool \<Rightarrow> 'bv safe_session \<Rightarrow> 'bv safe_session" where
  "SetReservedConn reservedConn s = on_session (\<lambda>m. m\<lparr>sInReservedConn := reservedConn\<rparr>) s"

text \<open>\<open>sort.Strings\<close> is the stable sort of the prelude; the order of strings is total, so any sort agrees.\<close>

fun pre_query_loop :: "bool \<Rightarrow> (string, string) gomap \<Rightarrow> string list \<Rightarrow> string" where
  "pre_query_loop first sysVars [] = []"
| "pre_query_loop first sysVars (k # ks) =
     (let v = (case map_of sysVars k of None \<Rightarrow> [] | Some v \<Rightarrow> v) in
      (if first then ''set '' @ k @ '' = '' @ v else '', '' @ k @ '' = '' @ v) @ pre_query_loop False sysVars ks)"

definition SetPreQueries :: "'bv safe_session \<Rightarrow> string list" where
  "SetPreQueries s =
     (let (keys, sysVars) = GetSystemVariables (\<lambda>k v (keys, sysVars). (keys @ [k], mput k v sysVars)) s ([], []) in
      if length keys = 0 then []
      else [pre_query_loop True sysVars (insertion_sort str_less keys)])"

definition SetLockSession :: "int \<Rightarrow> shard_session option \<Rightarrow> 'bv safe_session \<Rightarrow> 'bv safe_session" where
  "SetLockSession now lockSession s =
     on_session (\<lambda>m. m\<lparr>sLockSession := lockSession, sLastLockHeartbeat := now\<rparr>) s"

definition UpdateLockHeartbeat :: "int \<Rightarrow> 'bv safe_session \<Rightarrow> 'bv safe_session" where
  "UpdateLockHeartbeat now s = on_session (\<lambda>m. m\<lparr>sLastLockHeartbeat := now\<rparr>) s"

definition TriggerLockHeartBeat :: "int \<Rightarrow> int \<Rightarrow> 'bv safe_session \<Rightarrow> bool" where
  "TriggerLockHeartBeat heartbeatSeconds now s \<longleftrightarrow> sub64 now (sLastLockHeartbeat (Session s)) \<ge> heartbeatSeconds"

definition InLockSession :: "'bv safe_session \<Rightarrow> bool" where
  "InLockSession s \<longleftrightarrow> sLockSession (Session s) \<noteq> None"

definition ResetLock :: "'bv safe_session \<Rightarrow> 'bv safe_session" where
  "ResetLock s = on_session (\<lambda>m. m\<lparr>sLockSession := None, sAdvisoryLock := None\<rparr>) s"

definition SetDDLStrategy :: "string \<Rightarrow> 'bv safe_session \<Rightarrow> 'bv safe_session" where
  "SetDDLStrategy strategy s = on_session (\<lambda>m. m\<lparr>sDDLStrategy := strategy\<rparr>) s"

definition GetDDLStrategy :: "'bv safe_session \<Rightarrow> string" where
  "GetDDLStrategy s = sDDLStrategy (Session s)"

definition SetEnableDeclarativeDDL :: "bool \<Rightarrow> 'bv safe_session \<Rightarrow> 'bv safe_session" where
  "SetEnableDeclarativeDDL enable s = on_session (\<lambda>m. m\<lparr>sEnableDeclarativeDDL := enable\<rparr>) s"

definition GetEnableDeclarativeDDL :: "'bv safe_session \<Rightarrow> bool" where
  "GetEnableDeclarativeDDL s = sEnableDeclarativeDDL (Session s)"

definition SetReadWriteSplittingPolicy :: "string \<Rightarrow> 'bv safe_session \<Rightarrow> 'bv safe_session" where
  "SetReadWriteSplittingPolicy strategy s = on_session (\<lambda>m. m\<lparr>sReadWriteSplittingPolicy := strategy\<rparr>) s"

definition GetReadWriteSplittingPolicy :: "'bv safe_session \<Rightarrow> string" where
  "GetReadWriteSplittingPolicy s = sReadWriteSplittingPolicy (Session s)"

definition SetReadWriteSplittingRatio :: "int \<Rightarrow> 'bv safe_session \<Rightarrow> 'bv safe_session" where
  "SetReadWriteSplittingRatio ratio s = on_session (\<lambda>m. m\<lparr>sReadWriteSplittingRatio := ratio\<rparr>) s"

definition GetReadWriteSplittingRatio :: "'bv safe_session \<Rightarrow> int" where
  "GetReadWriteSplittingRatio s = sReadWriteSplittingRatio (Session s)"

definition SetEnableInterceptionForDMLWithoutWhere :: "bool \<Rightarrow> 'bv safe_session \<Rightarrow> 'bv safe_session" where
  "SetEnableInterceptionForDMLWithoutWhere enable s = on_session (\<lambda>m. m\<lparr>sEnableInterceptionForDMLWithoutWhere := enable\<rparr>) s"

definition GetEnableInterceptionForDMLWithoutWhere :: "'bv safe_session \<Rightarrow> bool" where
  "GetEnableInterceptionForDMLWithoutWhere s = sEnableInterceptionForDMLWithoutWhere (Session s)"

definition SetEnableDisplaySQLExecutionVTTablet :: "bool \<Rightarrow> 'bv safe_session \<Rightarrow> 'bv safe_session" where
  "SetEnableDisplaySQLExecutionVTTablet enable s = on_session (\<lambda>m. m\<lparr>sEnableDisplaySQLExecutionVTTabletType := enable\<rparr>) s"

definition GetEnableDisplaySQLExecutionVTTablet :: "'bv safe_session \<Rightarrow> bool" where
  "GetEnableDisplaySQLExecutionVTTablet s = sEnableDisplaySQLExecutionVTTabletType (Session s)"

definition SetReadWriteSplitForReadOnlyTxnUserInput :: "bool \<Rightarrow> 'bv safe_session \<Rightarrow> 'bv safe_session" where
  "SetReadWriteSplitForReadOnlyTxnUserInput enable s = on_session (\<lambda>m. m\<lparr>sReadWriteSplitForReadOnlyTxnUserInput := enable\<rparr>) s"

definition GetReadWriteSplitForReadOnlyTxnUserInput :: "'bv safe_session \<Rightarrow> bool" where
  "GetReadWriteSplitForReadOnlyTxnUserInput s = sReadWriteSplitForReadOnlyTxnUserInput (Session s)"

definition SetRewriteTableNameWithDbNamePrefix :: "bool \<Rightarrow> 'bv safe_session \<Rightarrow> 'bv safe_session" where
  "SetRewriteTableNameWithDbNamePrefix allow s = on_session (\<lambda>m. m\<lparr>sRewriteTableNameWithDbNamePrefix := allow\<rparr>) s"

definition GetRewriteTableNameWithDbNamePrefix :: "'bv safe_session \<Rightarrow> bool" where
  "GetRewriteTableNameWithDbNamePrefix s = sRewriteTableNameWithDbNamePrefix (Session s)"

definition SetSessionEnableSystemSettings :: "bool \<Rightarrow> 'bv safe_session \<Rightarrow> 'bv safe_session" where
  "SetSessionEnableSystemSettings allow s = on_session (\<lambda>m. m\<lparr>sEnableSystemSettings := allow\<rparr>) s"

definition GetSessionEnableSystemSettings :: "'bv safe_session \<Rightarrow> bool" where
  "GetSessionEnableSystemSettings s = sEnableSystemSettings (Session s)"

definition GetSessionUUID :: "'bv safe_session \<Rightarrow> string" where
  "GetSessionUUID s = sSessionUUID (Session s)"

definition on_raw :: "(read_after_write \<Rightarrow> read_after_write) \<Rightarrow> 'bv safe_session \<Rightarrow> 'bv safe_session" where
  "on_raw f s = on_session (\<lambda>m. m\<lparr>sReadAfterWrite :=
     Some (f (case sReadAfterWrite m of None \<Rightarrow> zero_raw | Some r \<Rightarrow> r))\<rparr>) s"

definition SetReadAfterWriteGTID :: "string \<Rightarrow> 'bv safe_session \<Rightarrow> 'bv safe_session" where
  "SetReadAfterWriteGTID vtgtid s = on_raw (\<lambda>r. r\<lparr>rawGtid := vtgtid\<rparr>) s"

definition SetReadAfterWriteTimeout :: "64 word \<Rightarrow> 'bv safe_session \<Rightarrow> 'bv safe_session" where
  "SetReadAfterWriteTimeout timeout s = on_raw (\<lambda>r. r\<lparr>rawTimeout := timeout\<rparr>) s"

definition SetSessionTrackGtids :: "bool \<Rightarrow> 'bv safe_session \<Rightarrow> 'bv safe_session" where
  "SetSessionTrackGtids enable s = on_raw (\<lambda>r. r\<lparr>rawSessionTrackGtids := enable\<rparr>) s"

definition SetReadAfterWriteConsistency :: "read_after_write_consistency \<Rightarrow> 'bv safe_session \<Rightarrow> 'bv safe_session" where
  "SetReadAfterWriteConsistency scope s = on_raw (\<lambda>r. r\<lparr>rawConsistency := scope\<rparr>) s"

definition GetOrCreateOptions :: "'bv safe_session \<Rightarrow> 'bv safe_session \<times> execute_options" where
  "GetOrCreateOptions s =
     (case sOptions (Session s) of
        None \<Rightarrow> (on_session (\<lambda>m. m\<lparr>sOptions := Some zero_options\<rparr>) s, zero_options)
      | Some opts \<Rightarrow> (s, opts))"

definition HasCreatedTempTables :: "'bv safe_session \<Rightarrow> bool" where
  "HasCreatedTempTables s =
     (case sOptions (Session s) of None \<Rightarrow> False | Some opts \<Rightarrow> optHasCreatedTempTables opts)"

text \<open>These two methods accept a nil receiver.\<close>

definition cachePlan :: "'bv safe_session option \<Rightarrow> bool" where
  "cachePlan session =
     (case session of None \<Rightarrow> True
      | Some s \<Rightarrow>
          (case sOptions (Session s) of None \<Rightarrow> True
           | Some opts \<Rightarrow> \<not> (optSkipQueryPlanCache opts \<or> optHasCreatedTempTables opts)))"

definition getSelectLimit :: "'bv safe_session option \<Rightarrow> int" where
  "getSelectLimit session =
     (case session of None \<Rightarrow> - 1
      | Some s \<Rightarrow> (case sOptions (Session s) of None \<Rightarrow> - 1 | Some opts \<Rightarrow> optSqlSelectLimit opts))"

definition HasAdvisoryLock :: "'bv safe_session \<Rightarrow> bool" where
  "HasAdvisoryLock s \<longleftrightarrow> (case sAdvisoryLock (Session s) of None \<Rightarrow> False | Some m \<Rightarrow> length m \<noteq> 0)"

definition AddAdvisoryLock :: "string \<Rightarrow> 'bv safe_session \<Rightarrow> 'bv safe_session" where
  "AddAdvisoryLock name s =
     (case sAdvisoryLock (Session s) of
        None \<Rightarrow> on_session (\<lambda>m. m\<lparr>sAdvisoryLock := Some [(name, 1)]\<rparr>) s
      | Some locks \<Rightarrow>
          let count = (case map_of locks name of None \<Rightarrow> 0 | Some c \<Rightarrow> add64 c 1) in
          on_session (\<lambda>m. m\<lparr>sAdvisoryLock := Some (mput name count locks)\<rparr>) s)"

definition RemoveAdvisoryLock :: "string \<Rightarrow> 'bv safe_session \<Rightarrow> 'bv safe_session" where
  "RemoveAdvisoryLock name s =
     (case sAdvisoryLock (Session s) of
        None \<Rightarrow> s
      | Some locks \<Rightarrow>
          (case map_of locks name of
             None \<Rightarrow> s
           | Some c \<Rightarrow>
               let count = sub64 c 1 in
               if count = 0 then on_session (\<lambda>m. m\<lparr>sAdvisoryLock := Some (mdel name locks)\<rparr>) s
               else on_session (\<lambda>m. m\<lparr>sAdvisoryLock := Some (mput name count locks)\<rparr>) s))"

definition ClearAdvisoryLock :: "'bv safe_session \<Rightarrow> 'bv safe_session" where
  "ClearAdvisoryLock s = on_session (\<lambda>m. m\<lparr>sAdvisoryLock := None\<rparr>) s"

definition EnableLogging :: "'bv safe_session \<Rightarrow> 'bv safe_session" where
  "EnableLogging s = s\<lparr>logging := Some \<lparr>entries = [], lastID = 0\<rparr>\<rparr>"

definition IsNonWeakReadAfterWriteConsistencyEnable :: "'bv safe_session \<Rightarrow> bool" where
  "IsNonWeakReadAfterWriteConsistencyEnable s \<longleftrightarrow>
     (case sReadAfterWrite (Session s) of None \<Rightarrow> False | Some r \<Rightarrow> rawConsistency r \<noteq> EVENTUAL)"

definition GetLogs :: "execute_logger \<Rightarrow> execute_entry list" where
  "GetLogs l = entries l"

end
