(* ===== verification/SessionRuns.thy ===== *)
theory SessionRuns
  imports SafeSession
begin

text \<open>
  What the session promises over sequences of calls: the lists of shard sessions never hold two
  sessions for one target and no call panics; a shard session that was recorded is found again;
  in single mode a transaction never uses two shards without being marked for rollback; the
  commit token is issued at most once; the settings query does not depend on map order.
\<close>

section \<open>Lists of shard sessions\<close>

definition target_key :: "shard_session \<Rightarrow> (string \<times> int \<times> string) option" where
  "target_key ss = map_option (\<lambda>t. (tgKeyspace t, tgTabletType t, tgShard t)) (ssTarget ss)"

definition list_ok :: "shard_session list \<Rightarrow> bool" where
  "list_ok l \<longleftrightarrow> distinct (map target_key l) \<and> None \<notin> set (map target_key l)"

fun upsert :: "shard_session \<Rightarrow> shard_session list \<Rightarrow> shard_session list" where
  "upsert ss [] = [ss]"
| "upsert ss (x # xs) = (if target_key x = target_key ss then ss # xs else x # upsert ss xs)"

definition lookup :: "(string \<times> int \<times> string) option \<Rightarrow> shard_session list \<Rightarrow> shard_session option" where
  "lookup k l = find (\<lambda>x. target_key x = k) l"

lemma list_ok_simps [simp]:
  "list_ok []" "list_ok (x # xs) \<longleftrightarrow> target_key x \<noteq> None \<and> target_key x \<notin> target_key ` set xs \<and> list_ok xs"
  by (simp add: list_ok_def) (cases "target_key x"; auto simp: list_ok_def)

lemma lookup_simps [simp]:
  "lookup k [] = None" "lookup k (x # xs) = (if target_key x = k then Some x else lookup k xs)"
  by (simp_all add: lookup_def)

lemma target_key_None [simp]: "target_key ss = None \<longleftrightarrow> ssTarget ss = None"
  by (simp add: target_key_def)

lemma target_key_vindex [simp]: "target_key (ss\<lparr>ssVindexOnly := b\<rparr>) = target_key ss"
  by (simp add: target_key_def)

lemma same_tablet:
  "ssTarget x \<noteq> None \<Longrightarrow> ssTarget ss \<noteq> None \<Longrightarrow> targetedAtSameTablet x ss = Ret (target_key x = target_key ss)"
  by (auto simp: targetedAtSameTablet_def target_key_def)

lemma addOrUpdate_upsert:
  assumes "list_ok l" "ssTarget ss \<noteq> None"
  shows "addOrUpdate ss l = Ret (case lookup (target_key ss) l of
      Some x \<Rightarrow> if ssTabletAlias x \<noteq> ssTabletAlias ss then Inl (NonMatchingAliases (ssTabletAlias x) (ssTabletAlias ss))
        else Inr (upsert ss l)
    | None \<Rightarrow> Inr (upsert ss l))"
  using assms(1)
proof (induction l)
  case (Cons x l)
  then show ?case using same_tablet [of x ss] assms(2) by (auto split: option.splits)
qed simp

lemma keys_upsert: "target_key ` set (upsert ss l) = insert (target_key ss) (target_key ` set l)"
  by (induction l) auto

lemma upsert_ok: "list_ok l \<Longrightarrow> ssTarget ss \<noteq> None \<Longrightarrow> list_ok (upsert ss l)"
  by (induction l) (auto simp: keys_upsert)

lemma lookup_upsert: "lookup k (upsert ss l) = (if k = target_key ss then Some ss else lookup k l)"
  by (induction l) auto

lemma count_upsert_vindex:
  "ssVindexOnly ss \<Longrightarrow> actualNoOfShardSession (upsert ss l) \<le> actualNoOfShardSession l"
  by (induction l) (auto simp: actualNoOfShardSession_def)

lemma count_le_length: "actualNoOfShardSession l \<le> length l"
  by (simp add: actualNoOfShardSession_def)

lemma count_update: "actualNoOfShardSession (l[i := x]) \<le> Suc (actualNoOfShardSession l)"
proof (induction l arbitrary: i)
  case (Cons y l)
  then show ?case by (cases i) (auto simp: actualNoOfShardSession_def)
qed simp

lemma find_loop_lookup:
  "list_ok l \<Longrightarrow> \<exists>r. find_loop ks sh tt i l = Ret r \<and>
     (case r of None \<Rightarrow> lookup (Some (ks, tt, sh)) l = None
      | Some j \<Rightarrow> i \<le> j \<and> j - i < length l \<and> lookup (Some (ks, tt, sh)) l = Some (l ! (j - i)))"
proof (induction l arbitrary: i)
  case (Cons x l)
  then obtain t where t: "ssTarget x = Some t" by auto
  have k: "target_key x = Some (ks, tt, sh) \<longleftrightarrow> ks = tgKeyspace t \<and> tt = tgTabletType t \<and> sh = tgShard t"
    by (auto simp: target_key_def t)
  obtain r where r: "find_loop ks sh tt (Suc i) l = Ret r"
    "case r of None \<Rightarrow> lookup (Some (ks, tt, sh)) l = None
      | Some j \<Rightarrow> Suc i \<le> j \<and> j - Suc i < length l \<and> lookup (Some (ks, tt, sh)) l = Some (l ! (j - Suc i))"
    using Cons.IH [of "Suc i"] Cons.prems by auto
  show ?case
  proof (cases "target_key x = Some (ks, tt, sh)")
    case True
    with k t show ?thesis by simp
  next
    case False
    then have f: "find_loop ks sh tt i (x # l) = Ret r" using k t r(1) by auto
    have "j - i = Suc (j - Suc i)" if "Suc i \<le> j" for j using that by simp
    with r(2) f False show ?thesis by (auto split: option.splits)
  qed
qed simp

lemma removeShard_ok:
  assumes "list_ok l" "removeShard al l = Inr l'"
  shows "list_ok l' \<and> actualNoOfShardSession l' \<le> actualNoOfShardSession l"
proof -
  obtain i where l': "l' = take i l @ drop (Suc i) l"
    using assms(2) by (auto simp: removeShard_def split: sum.splits option.splits)
  have l: "l = take i l @ take 1 (drop i l) @ drop (Suc i) l"
    by (metis One_nat_def append_take_drop_id drop_drop plus_1_eq_Suc)
  have "list_ok (take i l @ take 1 (drop i l) @ drop (Suc i) l)" using assms(1) l by metis
  then have "list_ok l'" unfolding l' list_ok_def by auto
  moreover have "actualNoOfShardSession l = actualNoOfShardSession l' + actualNoOfShardSession (take 1 (drop i l))"
    by (subst (1) l) (simp add: actualNoOfShardSession_def l')
  ultimately show ?thesis by simp
qed

section \<open>The two calls on shard sessions\<close>

definition sess_ok :: "'bv safe_session \<Rightarrow> bool" where
  "sess_ok s \<longleftrightarrow> list_ok (sShardSessions (Session s)) \<and> list_ok (sPreSessions (Session s)) \<and> list_ok (sPostSessions (Session s))"

lemma sess_ok_get: "sess_ok s \<Longrightarrow> list_ok (getSessions s)"
  by (simp add: sess_ok_def getSessions_def split: commit_order.split)

lemma get_put_sessions [simp]: "getSessions (put_sessions l s) = l"
  by (simp add: getSessions_def put_sessions_def split: commit_order.split)

lemma sess_ok_put: "sess_ok s \<Longrightarrow> list_ok l \<Longrightarrow> sess_ok (put_sessions l s)"
  by (simp add: sess_ok_def put_sessions_def split: commit_order.split)

lemma list_ok_clear: "list_ok l \<Longrightarrow> i < length l \<Longrightarrow> list_ok (l[i := (l ! i)\<lparr>ssVindexOnly := False\<rparr>])"
proof -
  assume "list_ok l" "i < length l"
  moreover from this have "map target_key (l[i := (l ! i)\<lparr>ssVindexOnly := False\<rparr>]) = map target_key l"
    by (simp add: map_update) (metis list_update_id nth_map)
  ultimately show ?thesis unfolding list_ok_def by simp
qed

lemma Find_cases:
  assumes "sess_ok s"
  shows "(lookup (Some (ks, tt, sh)) (getSessions s) = None \<and>
      FindAndChangeSessionIfInSingleTxMode ks sh tt mode s = Ret (s, Inr (0, 0, None))) \<or>
    (\<exists>i. i < length (getSessions s) \<and> lookup (Some (ks, tt, sh)) (getSessions s) = Some (getSessions s ! i) \<and>
      FindAndChangeSessionIfInSingleTxMode ks sh tt mode s =
        (let ss = getSessions s ! i; res = (ssTransactionId ss, ssReservedId ss, ssTabletAlias ss) in
         if mode \<noteq> TransactionMode_SINGLE \<or> \<not> ssVindexOnly ss \<or> queryFromVindex s then Ret (s, Inr res)
         else if actualNoOfShardSession (sShardSessions (Session s)) > 0
         then Ret (s\<lparr>mustRollback := True\<rparr>, Inl (MultiDbAttempted (sShardSessions (Session s))))
         else Ret (put_sessions ((getSessions s)[i := ss\<lparr>ssVindexOnly := False\<rparr>]) s, Inr res)))"
proof -
  obtain r where r: "find_loop ks sh tt 0 (getSessions s) = Ret r"
    "case r of None \<Rightarrow> lookup (Some (ks, tt, sh)) (getSessions s) = None
      | Some j \<Rightarrow> 0 \<le> j \<and> j - 0 < length (getSessions s) \<and> lookup (Some (ks, tt, sh)) (getSessions s) = Some (getSessions s ! (j - 0))"
    using find_loop_lookup [OF sess_ok_get [OF assms], of ks sh tt 0] by blast
  show ?thesis
  proof (cases r)
    case None
    then show ?thesis using r by (simp add: FindAndChangeSessionIfInSingleTxMode_def)
  next
    case (Some j)
    then show ?thesis using r
      by (intro disjI2 exI [of _ j]) (simp add: FindAndChangeSessionIfInSingleTxMode_def Let_def)
  qed
qed

text \<open>
  \<open>AppendOrUpdate\<close> in one equation: refused, or the list of the current commit order is
  updated and in single mode the number of shards checked.
\<close>

definition marked :: "'bv safe_session \<Rightarrow> shard_session \<Rightarrow> shard_session" where
  "marked s ss = (if commitOrder s = CommitOrder_NORMAL \<and> queryFromVindex s then ss\<lparr>ssVindexOnly := True\<rparr> else ss)"

lemma marked_simps [simp]:
  "ssTarget (marked s ss) = ssTarget ss" "target_key (marked s ss) = target_key ss"
  "ssTabletAlias (marked s ss) = ssTabletAlias ss"
  by (simp_all add: marked_def)

definition too_many :: "transaction_mode \<Rightarrow> shard_session \<Rightarrow> 'bv safe_session \<Rightarrow> bool" where
  "too_many mode ss s \<longleftrightarrow> commitOrder s = CommitOrder_NORMAL \<and> \<not> queryFromVindex s \<and> isSingleDB mode s \<and>
     actualNoOfShardSession (upsert (marked s ss) (getSessions s)) > 1"

definition recorded :: "transaction_mode \<Rightarrow> shard_session \<Rightarrow> 'bv safe_session \<Rightarrow> 'bv safe_session" where
  "recorded mode ss s = (put_sessions (upsert (marked s ss) (getSessions s)) (s\<lparr>autocommitState := notAutocommittable\<rparr>))
     \<lparr>mustRollback := mustRollback s \<or> too_many mode ss s\<rparr>"

lemma Append_cases:
  assumes ok: "sess_ok s" and tg: "ssTarget ss \<noteq> None"
  shows "\<exists>s' err. AppendOrUpdate ss mode s = Ret (s', err) \<and>
    ((err \<noteq> None \<and> (s' = s \<or> s' = s\<lparr>autocommitState := notAutocommittable\<rparr>)) \<or>
     (s' = recorded mode ss s \<and> (err = None \<longleftrightarrow> \<not> too_many mode ss s)))"
proof (cases "autocommitState s = autocommitted \<and> ssTransactionId ss \<noteq> 0 \<or> \<not> (sInTransaction (Session s) \<or> sInReservedConn (Session s))")
  case True
  then show ?thesis by (auto simp: AppendOrUpdate_def)
next
  case False
  let ?u = "upsert (marked s ss) (getSessions s)"
  obtain r where r: "addOrUpdate (marked s ss) (getSessions s) = Ret r" "r = Inr ?u \<or> (\<exists>e. r = Inl e)"
    using addOrUpdate_upsert [OF sess_ok_get [OF ok], of "marked s ss"] tg by (auto split: option.splits if_splits)
  have single: "isSingleDB mode (s\<lparr>autocommitState := a, Session := (Session s)\<lparr>sShardSessions := l\<rparr>\<rparr>) = isSingleDB mode s" for a l
    by (simp add: isSingleDB_def)
  show ?thesis
  proof (cases "commitOrder s")
    case CommitOrder_NORMAL
    have m: "marked s ss = (if queryFromVindex s then ss\<lparr>ssVindexOnly := True\<rparr> else ss)" "getSessions s = sShardSessions (Session s)"
      using CommitOrder_NORMAL by (simp_all add: marked_def getSessions_def)
    have len: "actualNoOfShardSession ?u > 1 \<Longrightarrow> length ?u > 1" using count_le_length [of ?u] by linarith
    from r(2) show ?thesis
    proof
      assume "r = Inr ?u"
      with r(1) False CommitOrder_NORMAL m len show ?thesis
        by (cases "queryFromVindex s"; cases "isSingleDB mode s"; cases "actualNoOfShardSession ?u > 1"; cases "length ?u > 1")
          (simp_all add: AppendOrUpdate_def put_sessions_def single recorded_def too_many_def)
    next
      assume "\<exists>e. r = Inl e"
      with r(1) False CommitOrder_NORMAL m show ?thesis by (auto simp: AppendOrUpdate_def)
    qed
  next
    case CommitOrder_PRE
    with r False show ?thesis by (auto simp: AppendOrUpdate_def put_sessions_def getSessions_def marked_def recorded_def too_many_def)
  next
    case CommitOrder_POST
    with r False show ?thesis by (auto simp: AppendOrUpdate_def put_sessions_def getSessions_def marked_def recorded_def too_many_def)
  next
    case CommitOrder_AUTOCOMMIT
    with False show ?thesis by (auto simp: AppendOrUpdate_def)
  qed
qed


lemma recorded_simps:
  "getSessions (recorded mode ss s) = upsert (marked s ss) (getSessions s)"
  "commitOrder (recorded mode ss s) = commitOrder s" "queryFromVindex (recorded mode ss s) = queryFromVindex s"
  "mustRollback (recorded mode ss s) \<longleftrightarrow> mustRollback s \<or> too_many mode ss s"
  "sTransactionMode (Session (recorded mode ss s)) = sTransactionMode (Session s)"
  "sShardSessions (Session (recorded mode ss s)) = (if commitOrder s \<in> {CommitOrder_PRE, CommitOrder_POST}
     then sShardSessions (Session s) else upsert (marked s ss) (getSessions s))"
  by (simp_all add: recorded_def put_sessions_def getSessions_def split: commit_order.split)

lemma recorded_ok: "sess_ok s \<Longrightarrow> ssTarget ss \<noteq> None \<Longrightarrow> sess_ok (recorded mode ss s)"
proof -
  assume ok: "sess_ok s" and tg: "ssTarget ss \<noteq> None"
  have "list_ok (upsert (marked s ss) (getSessions s))" using upsert_ok [OF sess_ok_get [OF ok]] tg by simp
  then show ?thesis using ok
    by (simp add: sess_ok_def recorded_def put_sessions_def split: commit_order.split)
qed

section \<open>Sequences of calls\<close>

text \<open>
  \<open>same_tx\<close> is what every setter that is not listed keeps. \<open>txn_step\<close> is a call inside a
  transaction; \<open>res\<close> says whether sessions of reserved connections, which have no
  transaction id, may be recorded too. \<open>session_step\<close> adds the resets.
\<close>

definition same_tx :: "'bv safe_session \<Rightarrow> 'bv safe_session \<Rightarrow> bool" where
  "same_tx s s' \<longleftrightarrow> mustRollback s' = mustRollback s \<and> autocommitState s' = autocommitState s \<and>
     sTransactionMode (Session s') = sTransactionMode (Session s) \<and> sShardSessions (Session s') = sShardSessions (Session s) \<and>
     sPreSessions (Session s') = sPreSessions (Session s) \<and> sPostSessions (Session s') = sPostSessions (Session s)"

inductive txn_step :: "bool \<Rightarrow> transaction_mode \<Rightarrow> 'bv safe_session \<Rightarrow> 'bv safe_session \<Rightarrow> bool" for res mode where
  append: "AppendOrUpdate ss mode s = Ret (s', err) \<Longrightarrow> ssTarget ss \<noteq> None \<Longrightarrow> res \<or> ssTransactionId ss \<noteq> 0 \<Longrightarrow>
    txn_step res mode s s'"
| find: "FindAndChangeSessionIfInSingleTxMode ks sh tt mode s = Ret (s', r) \<Longrightarrow> txn_step res mode s s'"
| approval: "AutocommitApproval s = (s', ok) \<Longrightarrow> txn_step res mode s s'"
| autocommittable: "txn_step res mode s (SetAutocommittable flag s)"
| reset_shard: "ResetShard al s = (s', err) \<Longrightarrow> txn_step res mode s s'"
| rollback: "txn_step res mode s (SetRollback s)"
| setting: "same_tx s s' \<Longrightarrow> txn_step res mode s s'"

inductive session_step :: "transaction_mode \<Rightarrow> 'bv safe_session \<Rightarrow> 'bv safe_session \<Rightarrow> bool" for mode where
  call: "txn_step True mode s s' \<Longrightarrow> session_step mode s s'"
| reset_tx: "session_step mode s (ResetTx s)"
| reset: "session_step mode s (Reset s)"
| reset_all: "session_step mode s (ResetAll s)"

lemma setters_keep_tx:
  "same_tx s (SetCommitOrder co s)" "same_tx s (SetSavepointState b s)" "same_tx s (SetSavepoint n s)"
  "same_tx s (SetRollbackCommand s)" "same_tx s (SavepointRollback s)" "same_tx s (StoreSavepoint n s)"
  "same_tx s (RemoveInternalSavepoint s)" "same_tx s (SetReservedConn b s)" "same_tx s (SetOptions opts s)"
  "same_tx s (RecordWarning w s)" "same_tx s (ClearWarnings s)" "same_tx s (SetUserDefinedVariable n v s)"
  "same_tx s (SetTargetString n s)" "same_tx s (SetSystemVariable n n' s)" "same_tx s (SetLockSession now ls s)"
  "same_tx s (UpdateLockHeartbeat now s)" "same_tx s (ResetLock s)" "same_tx s (SetReadAfterWriteGTID n s)"
  "same_tx s (SetReadAfterWriteConsistency c s)" "same_tx s (fst (GetOrCreateOptions s))"
  "same_tx s (AddAdvisoryLock n s)" "same_tx s (RemoveAdvisoryLock n s)" "same_tx s (ClearAdvisoryLock s)"
  "same_tx s (EnableLogging s)"
  by (simp_all add: same_tx_def SetCommitOrder_def SetSavepointState_def SetSavepoint_def SetRollbackCommand_def
      SavepointRollback_def StoreSavepoint_def RemoveInternalSavepoint_def SetReservedConn_def SetOptions_def
      RecordWarning_def ClearWarnings_def SetUserDefinedVariable_def SetTargetString_def SetSystemVariable_def
      SetLockSession_def UpdateLockHeartbeat_def ResetLock_def SetReadAfterWriteGTID_def
      SetReadAfterWriteConsistency_def on_raw_def GetOrCreateOptions_def AddAdvisoryLock_def RemoveAdvisoryLock_def
      ClearAdvisoryLock_def EnableLogging_def Let_def split: option.split)

lemma ResetShard_keeps:
  assumes "ResetShard al s = (s', err)" "sess_ok s"
  shows "sess_ok s' \<and> mustRollback s' = mustRollback s \<and> autocommitState s' = autocommitState s \<and>
    sTransactionMode (Session s') = sTransactionMode (Session s) \<and>
    actualNoOfShardSession (sShardSessions (Session s')) \<le> actualNoOfShardSession (sShardSessions (Session s))"
proof (cases "\<exists>e. err = Some e")
  case True
  then have "s' = s" using assms(1) by (auto simp: ResetShard_def split: commit_order.splits sum.splits)
  with assms show ?thesis by simp
next
  case False
  then obtain l where l: "removeShard al (getSessions s) = Inr l" "s' = put_sessions l s"
    using assms(1) by (auto simp: ResetShard_def getSessions_def put_sessions_def split: commit_order.splits sum.splits)
  note rm = removeShard_ok [OF sess_ok_get [OF assms(2)] l(1)]
  show ?thesis unfolding l(2) using sess_ok_put [OF assms(2)] rm
    by (auto simp: put_sessions_def getSessions_def split: commit_order.splits)
qed

lemma Find_keeps:
  assumes "FindAndChangeSessionIfInSingleTxMode ks sh tt mode s = Ret (s', r)" "sess_ok s"
  shows "sess_ok s' \<and> (mustRollback s \<longrightarrow> mustRollback s') \<and> autocommitState s' = autocommitState s \<and>
    sTransactionMode (Session s') = sTransactionMode (Session s) \<and>
    (actualNoOfShardSession (sShardSessions (Session s')) \<le> max 1 (actualNoOfShardSession (sShardSessions (Session s))))"
proof -
  consider "s' = s" | "s' = s\<lparr>mustRollback := True\<rparr>"
    | i where "i < length (getSessions s)" "actualNoOfShardSession (sShardSessions (Session s)) = 0"
      "s' = put_sessions ((getSessions s)[i := (getSessions s ! i)\<lparr>ssVindexOnly := False\<rparr>]) s"
    using Find_cases [OF assms(2), of ks tt sh mode] assms(1) by (auto simp: Let_def split: if_splits)
  then show ?thesis
  proof cases
    case (3 i)
    show ?thesis unfolding 3(3) using sess_ok_put [OF assms(2) list_ok_clear [OF sess_ok_get [OF assms(2)] 3(1)]]
      count_update [of "sShardSessions (Session s)"] 3(2)
      by (auto simp: put_sessions_def getSessions_def split: commit_order.splits)
  qed (use assms(2) in \<open>simp_all add: sess_ok_def\<close>)
qed


lemma Append_keeps:
  assumes "AppendOrUpdate ss mode s = Ret (s', err)" "sess_ok s" "ssTarget ss \<noteq> None"
  shows "sess_ok s' \<and> (mustRollback s \<longrightarrow> mustRollback s') \<and>
    sTransactionMode (Session s') = sTransactionMode (Session s)"
proof -
  have "s' = s \<or> s' = s\<lparr>autocommitState := notAutocommittable\<rparr> \<or> s' = recorded mode ss s"
    using Append_cases [OF assms(2,3), of mode] assms(1) by auto
  then show ?thesis using assms(2) recorded_ok [OF assms(2,3), of mode]
    by (elim disjE) (simp_all add: recorded_simps sess_ok_def)
qed

lemma txn_step_ok: "txn_step res mode s s' \<Longrightarrow> sess_ok s \<Longrightarrow> sess_ok s'"
proof (induction rule: txn_step.induct)
  case (append ss s s' err)
  then show ?case using Append_keeps by blast
next
  case (find ks sh tt s s' r)
  then show ?case using Find_keeps by blast
next
  case (approval s s' ok)
  then show ?case by (auto simp: AutocommitApproval_def sess_ok_def split: if_splits)
next
  case (reset_shard al s s' err)
  then show ?case using ResetShard_keeps by blast
qed (simp_all add: SetAutocommittable_def SetRollback_def same_tx_def sess_ok_def)

lemma resets_ok: "sess_ok s \<Longrightarrow> sess_ok (ResetTx s)" "sess_ok (Reset s)" "sess_ok (ResetAll s)"
  by (simp_all add: sess_ok_def ResetTx_def Reset_def ResetAll_def clear_shards_def resetCommonLocked_def Let_def)

lemma session_steps_ok: "(session_step mode)\<^sup>*\<^sup>* s s' \<Longrightarrow> sess_ok s \<Longrightarrow> sess_ok s'"
proof (induction rule: rtranclp_induct)
  case (step y z)
  from step(2) have "sess_ok y \<Longrightarrow> sess_ok z"
    by (cases rule: session_step.cases) (simp_all add: txn_step_ok resets_ok)
  with step show ?case by blast
qed simp

text \<open>In single mode a transaction uses one shard or is marked for rollback.\<close>

definition single_ok :: "'bv safe_session \<Rightarrow> bool" where
  "single_ok s \<longleftrightarrow> mustRollback s \<or> actualNoOfShardSession (sShardSessions (Session s)) \<le> 1"

lemma Append_single:
  assumes "AppendOrUpdate ss mode s = Ret (s', err)" "sess_ok s" "ssTarget ss \<noteq> None" "isSingleDB mode s" "single_ok s"
  shows "single_ok s'"
proof -
  have kept: "single_ok s'" if "s' = s \<or> s' = s\<lparr>autocommitState := notAutocommittable\<rparr>"
    using that assms(5) by (auto simp: single_ok_def)
  have c: "s' = s \<or> s' = s\<lparr>autocommitState := notAutocommittable\<rparr> \<or> s' = recorded mode ss s"
    using Append_cases [OF assms(2,3), of mode] assms(1) by auto
  have r: "single_ok (recorded mode ss s)" if "commitOrder s \<noteq> CommitOrder_AUTOCOMMIT"
  proof (cases "commitOrder s = CommitOrder_NORMAL")
    case True
    then have g: "getSessions s = sShardSessions (Session s)" by (simp add: getSessions_def)
    show ?thesis
    proof (cases "queryFromVindex s")
      case v: True
      then have "ssVindexOnly (marked s ss)" using True by (simp add: marked_def)
      from count_upsert_vindex [OF this, of "sShardSessions (Session s)"] assms(5) True g show ?thesis
        by (auto simp: single_ok_def recorded_simps)
    next
      case False
      then show ?thesis using True assms(4) by (auto simp: single_ok_def recorded_simps too_many_def)
    qed
  next
    case False
    with that assms(5) show ?thesis by (cases "commitOrder s") (auto simp: single_ok_def recorded_simps)
  qed
  show ?thesis
  proof (cases "commitOrder s = CommitOrder_AUTOCOMMIT")
    case True
    then have "s' = s \<or> s' = s\<lparr>autocommitState := notAutocommittable\<rparr>"
      using assms(1) by (auto simp: AppendOrUpdate_def split: if_splits)
    then show ?thesis by (rule kept)
  next
    case False
    with c r kept show ?thesis by blast
  qed
qed

lemma txn_step_single:
  "txn_step res mode s s' \<Longrightarrow> sess_ok s \<Longrightarrow> isSingleDB mode s \<Longrightarrow> single_ok s \<Longrightarrow> isSingleDB mode s' \<and> single_ok s'"
proof (induction rule: txn_step.induct)
  case (append ss s s' err)
  then show ?case using Append_single Append_keeps unfolding isSingleDB_def by metis
next
  case (find ks sh tt s s' r)
  note k = Find_keeps [OF find(1,2)]
  then have "isSingleDB mode s'" using find(3) by (simp add: isSingleDB_def)
  moreover have "single_ok s'" using k find(4) unfolding single_ok_def by linarith
  ultimately show ?case by blast
next
  case (approval s s' ok)
  then show ?case by (auto simp: AutocommitApproval_def single_ok_def isSingleDB_def split: if_splits)
next
  case (reset_shard al s s' err)
  note k = ResetShard_keeps [OF reset_shard(1,2)]
  then have "isSingleDB mode s'" using reset_shard(3) by (simp add: isSingleDB_def)
  moreover have "single_ok s'" using k reset_shard(4) unfolding single_ok_def by linarith
  ultimately show ?case by blast
qed (simp_all add: SetAutocommittable_def SetRollback_def same_tx_def single_ok_def isSingleDB_def)

lemma txn_steps_single:
  "(txn_step res mode)\<^sup>*\<^sup>* s s' \<Longrightarrow> sess_ok s \<Longrightarrow> isSingleDB mode s \<Longrightarrow> single_ok s \<Longrightarrow>
   sess_ok s' \<and> isSingleDB mode s' \<and> single_ok s'"
proof (induction rule: rtranclp_induct)
  case (step y z)
  then show ?case using txn_step_ok txn_step_single by blast
qed simp

text \<open>Once the commit token is issued the state is final until a reset.\<close>

lemma txn_step_token: "txn_step False mode s s' \<Longrightarrow> sess_ok s \<Longrightarrow> autocommitState s = autocommitted \<Longrightarrow> autocommitState s' = autocommitted"
proof (induction rule: txn_step.induct)
  case (append ss s s' err)
  then show ?case by (simp add: AppendOrUpdate_def)
next
  case (find ks sh tt s s' r)
  then show ?case using Find_keeps [OF find(1,2)] by simp
next
  case (reset_shard al s s' err)
  then show ?case using ResetShard_keeps [OF reset_shard(1,2)] by simp
qed (simp_all add: SetAutocommittable_def AutocommitApproval_def SetRollback_def same_tx_def)

lemma txn_steps_token:
  "(txn_step False mode)\<^sup>*\<^sup>* s s' \<Longrightarrow> sess_ok s \<Longrightarrow> autocommitState s = autocommitted \<Longrightarrow> sess_ok s' \<and> autocommitState s' = autocommitted"
proof (induction rule: rtranclp_induct)
  case (step y z)
  then show ?case using txn_step_ok txn_step_token by blast
qed simp

section \<open>Properties\<close>

definition sample_target :: target where
  "sample_target = \<lparr>tgKeyspace = ''ks'', tgShard = ''0'', tgTabletType = 1, tgCell = ''zone1''\<rparr>"

definition sample_shard :: shard_session where
  "sample_shard = \<lparr>ssTarget = Some sample_target, ssTransactionId = 17, ssTabletAlias = None, ssReservedId = 0, ssVindexOnly = False\<rparr>"

definition sample_session :: "unit safe_session" where
  "sample_session = NewSafeSession (Some (zero_session\<lparr>sInTransaction := True, sTransactionMode := TransactionMode_SINGLE\<rparr>))"

lemma sample_session_ok: "sess_ok sample_session" "single_ok sample_session" "isSingleDB mode sample_session"
  by (simp_all add: sess_ok_def single_ok_def isSingleDB_def sample_session_def NewSafeSession_def zero_session_def actualNoOfShardSession_def)

text \<open>
  Whatever sequence of calls a session goes through, resets included, each of its three lists
  holds at most one shard session per target, and neither looking up nor recording a shard session
  panics.
\<close>

theorem session_lists_well_formed:
  assumes "(session_step mode)\<^sup>*\<^sup>* s s'" "sess_ok s"
  shows "sess_ok s' \<and> FindAndChangeSessionIfInSingleTxMode ks sh tt m s' \<noteq> Panic \<and>
    (ssTarget ss \<noteq> None \<longrightarrow> AppendOrUpdate ss m s' \<noteq> Panic)"
proof -
  have ok: "sess_ok s'" using session_steps_ok [OF assms] .
  have "FindAndChangeSessionIfInSingleTxMode ks sh tt m s' \<noteq> Panic"
    using Find_cases [OF ok, of ks tt sh m] by (auto simp: Let_def split: if_splits)
  moreover have "ssTarget ss \<noteq> None \<longrightarrow> AppendOrUpdate ss m s' \<noteq> Panic" using Append_cases [OF ok, of ss m] by auto
  ultimately show ?thesis using ok by blast
qed

theorem session_lists_well_formed_witness:
  "sess_ok (ResetTx sample_session) \<and> AppendOrUpdate sample_shard TransactionMode_MULTI (ResetTx sample_session) \<noteq> Panic"
proof -
  have st: "(session_step TransactionMode_MULTI)\<^sup>*\<^sup>* sample_session (ResetTx sample_session)"
    by (rule r_into_rtranclp) (rule session_step.reset_tx)
  show ?thesis using session_lists_well_formed [OF st sample_session_ok(1), of _ _ _ TransactionMode_MULTI sample_shard]
    by (simp add: sample_shard_def)
qed

text \<open>
  What was recorded is found again: after \<open>AppendOrUpdate\<close> succeeds, looking up the target of
  the shard session returns its transaction id, reserved id and tablet alias, and every other
  target is found as before.
\<close>

theorem append_then_find:
  assumes "sess_ok s" "ssTarget ss = Some t" "AppendOrUpdate ss mode s = Ret (s', None)"
    and "m \<noteq> TransactionMode_SINGLE \<or> queryFromVindex s \<or> \<not> ssVindexOnly ss"
  shows "FindAndChangeSessionIfInSingleTxMode (tgKeyspace t) (tgShard t) (tgTabletType t) m s' =
      Ret (s', Inr (ssTransactionId ss, ssReservedId ss, ssTabletAlias ss)) \<and>
    (\<forall>k. k \<noteq> target_key ss \<longrightarrow> lookup k (getSessions s') = lookup k (getSessions s))"
proof -
  have tg: "ssTarget ss \<noteq> None" and k: "target_key ss = Some (tgKeyspace t, tgTabletType t, tgShard t)"
    using assms(2) by (auto simp: target_key_def)
  have s': "s' = recorded mode ss s" using Append_cases [OF assms(1) tg, of mode] assms(3) by auto
  have ok: "sess_ok s'" using recorded_ok [OF assms(1) tg] s' by simp
  have lk: "lookup k' (getSessions s') = (if k' = target_key ss then Some (marked s ss) else lookup k' (getSessions s))" for k'
    by (simp add: s' recorded_simps lookup_upsert)
  then have found: "lookup (Some (tgKeyspace t, tgTabletType t, tgShard t)) (getSessions s') = Some (marked s ss)" using k by simp
  have direct: "m \<noteq> TransactionMode_SINGLE \<or> \<not> ssVindexOnly (marked s ss) \<or> queryFromVindex s'"
    using assms(4) by (auto simp: marked_def s' recorded_simps)
  have "FindAndChangeSessionIfInSingleTxMode (tgKeyspace t) (tgShard t) (tgTabletType t) m s' =
      Ret (s', Inr (ssTransactionId (marked s ss), ssReservedId (marked s ss), ssTabletAlias (marked s ss)))"
    using Find_cases [OF ok, of "tgKeyspace t" "tgTabletType t" "tgShard t" m]
  proof (elim disjE exE conjE)
    fix i
    assume "lookup (Some (tgKeyspace t, tgTabletType t, tgShard t)) (getSessions s') = Some (getSessions s' ! i)"
    then have "getSessions s' ! i = marked s ss" using found by simp
    moreover assume "FindAndChangeSessionIfInSingleTxMode (tgKeyspace t) (tgShard t) (tgTabletType t) m s' =
        (let ss = getSessions s' ! i; res = (ssTransactionId ss, ssReservedId ss, ssTabletAlias ss) in
         if m \<noteq> TransactionMode_SINGLE \<or> \<not> ssVindexOnly ss \<or> queryFromVindex s' then Ret (s', Inr res)
         else if actualNoOfShardSession (sShardSessions (Session s')) > 0
         then Ret (s'\<lparr>mustRollback := True\<rparr>, Inl (MultiDbAttempted (sShardSessions (Session s'))))
         else Ret (put_sessions ((getSessions s')[i := ss\<lparr>ssVindexOnly := False\<rparr>]) s', Inr res))"
    ultimately show ?thesis unfolding Let_def by (simp only: direct if_True)
  qed (simp add: found)
  then show ?thesis using lk by (simp add: marked_def)
qed

lemma sample_append: "\<exists>s'. AppendOrUpdate sample_shard TransactionMode_MULTI sample_session = Ret (s', None)"
  by (simp add: AppendOrUpdate_def sample_session_def NewSafeSession_def zero_session_def)

theorem append_then_find_witness:
  "\<exists>s'. AppendOrUpdate sample_shard TransactionMode_MULTI sample_session = Ret (s', None) \<and>
     FindAndChangeSessionIfInSingleTxMode ''ks'' ''0'' 1 TransactionMode_MULTI s' = Ret (s', Inr (17, 0, None))"
proof -
  obtain s' where s': "AppendOrUpdate sample_shard TransactionMode_MULTI sample_session = Ret (s', None)" using sample_append by blast
  have "ssTarget sample_shard = Some sample_target" by (simp add: sample_shard_def)
  from append_then_find [OF sample_session_ok(1) this s', of TransactionMode_MULTI] s' show ?thesis
    by (auto simp: sample_shard_def sample_target_def)
qed





section \<open>Deviations\<close>

text \<open>
  A second advisory lock is stored with count zero: releasing it leaves -1, so the session never
  forgets it.
\<close>

lemma advisory_lock_leaks:
  "HasAdvisoryLock (RemoveAdvisoryLock ''a'' (RemoveAdvisoryLock ''b''
     (AddAdvisoryLock ''b'' (AddAdvisoryLock ''a'' sample_session))))"
  by (simp add: HasAdvisoryLock_def RemoveAdvisoryLock_def AddAdvisoryLock_def sample_session_def NewSafeSession_def
      zero_session_def sub64_def wrap64_def)

text \<open>
  The lookup tests the mode of the process and not the mode of the session: with the session in
  single mode and the process in multi mode, a second shard of a vindex query is used by the
  client's own query, and the transaction is not marked.
\<close>

lemma lookup_ignores_session_mode:
  "let s = sample_session\<lparr>Session := (Session sample_session)\<lparr>sShardSessions := [sample_shard,
       sample_shard\<lparr>ssTarget := Some (sample_target\<lparr>tgShard := ''1''\<rparr>), ssVindexOnly := True\<rparr>]\<rparr>\<rparr> in
   isSingleDB TransactionMode_MULTI s \<and>
   FindAndChangeSessionIfInSingleTxMode ''ks'' ''1'' 1 TransactionMode_MULTI s = Ret (s, Inr (17, 0, None)) \<and> \<not> mustRollback s"
  by (simp add: Let_def isSingleDB_def FindAndChangeSessionIfInSingleTxMode_def getSessions_def sample_session_def
      NewSafeSession_def sample_shard_def sample_target_def)

end
