(* ===== verification/SessionSettings.thy ===== *)
theory SessionSettings
  imports SafeSession
begin

text \<open>
  The query that restores the settings of a session on a new connection,
  \<open>SetPreQueries\<close> of \<open>safe_session.go\<close>: the code collects the variables in map order and sorts
  them, so that the query is the same for equal settings.
\<close>

section \<open>Sorting names\<close>

lemma strict_weak_str_less: "strict_weak str_less"
  unfolding strict_weak_def
proof (intro conjI allI impI)
  fix a b c
  show "\<not> str_less a a" by simp
  show "str_less a c" if "str_less a b \<and> str_less b c" using that str_less_trans by blast
  show "\<not> str_less a c" if n: "\<not> str_less a b \<and> \<not> str_less b c"
  proof
    assume ac: "str_less a c"
    from n str_less_linear have "a = b \<or> str_less b a" "b = c \<or> str_less c b" by blast+
    with ac n show False using str_less_trans str_less_asym by blast
  qed
qed

lemma sorted_distinct_strict: "sorted_wrt (\<lambda>a b. \<not> str_less b a) l \<Longrightarrow> distinct l \<Longrightarrow> sorted_wrt str_less l"
proof (induction l)
  case (Cons y l)
  then show ?case using str_less_linear by fastforce
qed simp

lemma sort_names_sorted: "distinct ks \<Longrightarrow> sorted_wrt str_less (insertion_sort str_less ks)"
  using isort.ordered [OF strict_weak_str_less] isort.distinct_sf [of str_less ks]
  by (intro sorted_distinct_strict) simp_all

lemma sorted_names_unique: "sorted_wrt str_less xs \<Longrightarrow> sorted_wrt str_less ys \<Longrightarrow> set xs = set ys \<Longrightarrow> xs = ys"
proof (induction xs arbitrary: ys)
  case (Cons x xs)
  then obtain y ys' where y: "ys = y # ys'" by (cases ys) auto
  have nx: "x \<notin> set xs" and ny: "y \<notin> set ys'" using Cons.prems y by auto
  have "x = y"
  proof (rule ccontr)
    assume "x \<noteq> y"
    with Cons.prems(3) y have "x \<in> set ys'" "y \<in> set xs" by auto
    with Cons.prems(1,2) y have "str_less y x" "str_less x y" by auto
    then show False using str_less_asym by blast
  qed
  moreover have "set xs = set ys'" using Cons.prems(3) y nx ny \<open>x = y\<close> by auto
  ultimately show ?case using Cons y by auto
qed simp

lemma sort_names_cong: "distinct ks \<Longrightarrow> distinct ls \<Longrightarrow> set ks = set ls \<Longrightarrow> insertion_sort str_less ks = insertion_sort str_less ls"
  using isort.set_sf [of str_less ks] isort.set_sf [of str_less ls]
  by (intro sorted_names_unique sort_names_sorted) auto

section \<open>The collected variables\<close>

definition mysql_vars :: "(string, string) gomap \<Rightarrow> (string, string) gomap" where
  "mysql_vars m = filter (\<lambda>kv. \<not> IsVitessAware (fst kv)) m"

lemma collect_fold:
  "fold (\<lambda>(k, v) st. if IsVitessAware k then st else (\<lambda>k v (keys, sysVars). (keys @ [k], mput k v sysVars)) k v st) m (ks, sv) =
   (ks @ map fst (mysql_vars m), fold (\<lambda>(k, v). mput k v) (mysql_vars m) sv)"
proof (induction m arbitrary: ks sv)
  case (Cons kv m)
  then show ?case by (cases kv) (simp add: mysql_vars_def)
qed (simp add: mysql_vars_def)

lemma fold_mput_lookup: "wf_map kvs \<Longrightarrow> map_of (fold (\<lambda>(k, v). mput k v) kvs m) k = (case map_of kvs k of None \<Rightarrow> map_of m k | Some v \<Rightarrow> Some v)"
proof (induction kvs arbitrary: m)
  case (Cons kv kvs)
  then show ?case by (cases kv) (auto simp: wf_map_Cons split: option.splits)
qed simp

lemma wf_mysql_vars: "wf_map m \<Longrightarrow> wf_map (mysql_vars m)"
  unfolding wf_map_def mysql_vars_def by (simp add: distinct_map_filter)

lemma mysql_vars_lookup: "map_of (mysql_vars m) k = (if IsVitessAware k then None else map_of m k)"
proof (induction m)
  case (Cons kv m)
  then show ?case by (cases kv) (auto simp: mysql_vars_def)
qed (simp add: mysql_vars_def)

lemma pre_query_cong: "map_of sv = map_of sv' \<Longrightarrow> pre_query_loop first sv ks = pre_query_loop first sv' ks"
  by (induction ks arbitrary: first) simp_all

lemma SetPreQueries_eq:
  "SetPreQueries s = (if mysql_vars (sysvar_map s) = [] then []
     else [pre_query_loop True (fold (\<lambda>(k, v). mput k v) (mysql_vars (sysvar_map s)) [])
       (insertion_sort str_less (map fst (mysql_vars (sysvar_map s))))])"
  using collect_fold [of "sysvar_map s" "[]" "[]"] by (simp add: SetPreQueries_def GetSystemVariables_def)

lemma has_fold: "fold (\<lambda>(k, v) st. if IsVitessAware k then st else True) m b = (b \<or> mysql_vars m \<noteq> [])"
proof (induction m arbitrary: b)
  case (Cons kv m)
  then show ?case by (cases kv) (auto simp: mysql_vars_def)
qed (simp add: mysql_vars_def)

section \<open>Properties\<close>

text \<open>
  The query that restores the settings of a session depends only on the values of its system
  variables, not on the order in which the map yields them, and there is a query exactly when some
  variable concerns MySQL.
\<close>

theorem settings_query_deterministic:
  assumes "wf_map (sysvar_map s)" "wf_map (sysvar_map s')" "map_of (sysvar_map s) = map_of (sysvar_map s')"
  shows "SetPreQueries s = SetPreQueries s' \<and> (SetPreQueries s \<noteq> [] \<longleftrightarrow> HasSystemVariables s)"
proof -
  let ?a = "mysql_vars (sysvar_map s)" and ?b = "mysql_vars (sysvar_map s')"
  have wf: "wf_map ?a" "wf_map ?b" using assms(1,2) by (auto intro: wf_mysql_vars)
  have lk: "map_of ?a = map_of ?b" using assms(3) by (simp add: fun_eq_iff mysql_vars_lookup)
  then have keys: "set (map fst ?a) = set (map fst ?b)" by (metis dom_map_of_conv_image_fst list.set_map)
  have "insertion_sort str_less (map fst ?a) = insertion_sort str_less (map fst ?b)"
    using wf keys by (intro sort_names_cong) (simp_all add: wf_map_def)
  moreover have "map_of (fold (\<lambda>(k, v). mput k v) ?a []) = map_of (fold (\<lambda>(k, v). mput k v) ?b [])"
    using wf lk by (simp add: fun_eq_iff fold_mput_lookup)
  then have "pre_query_loop True (fold (\<lambda>(k, v). mput k v) ?a []) ks = pre_query_loop True (fold (\<lambda>(k, v). mput k v) ?b []) ks" for ks
    by (rule pre_query_cong)
  moreover have "?a = [] \<longleftrightarrow> ?b = []" using keys by auto
  ultimately have "SetPreQueries s = SetPreQueries s'" by (simp add: SetPreQueries_eq)
  moreover have "HasSystemVariables s \<longleftrightarrow> ?a \<noteq> []"
    using has_fold [of "sysvar_map s" False] by (simp add: HasSystemVariables_def GetSystemVariables_def)
  moreover have "SetPreQueries s \<noteq> [] \<longleftrightarrow> ?a \<noteq> []" by (simp add: SetPreQueries_eq)
  ultimately show ?thesis by blast
qed

theorem settings_query_deterministic_witness:
  "SetPreQueries (SetSystemVariable ''b'' ''2'' (SetSystemVariable ''a'' ''1'' (NewSafeSession None :: unit safe_session))) =
   SetPreQueries (SetSystemVariable ''a'' ''1'' (SetSystemVariable ''b'' ''2'' (NewSafeSession None :: unit safe_session)))"
proof (rule conjunct1 [OF settings_query_deterministic])
  let ?s = "NewSafeSession None :: unit safe_session"
  have m: "sysvar_map (SetSystemVariable x v (SetSystemVariable y w ?s)) = mput x v [(y, w)]" for x v y w
    by (simp add: sysvar_map_def SetSystemVariable_def NewSafeSession_def zero_session_def)
  show "wf_map (sysvar_map (SetSystemVariable ''b'' ''2'' (SetSystemVariable ''a'' ''1'' ?s)))"
    "wf_map (sysvar_map (SetSystemVariable ''a'' ''1'' (SetSystemVariable ''b'' ''2'' ?s)))"
    unfolding m by (simp_all add: wf_map_def)
  show "map_of (sysvar_map (SetSystemVariable ''b'' ''2'' (SetSystemVariable ''a'' ''1'' ?s))) =
    map_of (sysvar_map (SetSystemVariable ''a'' ''1'' (SetSystemVariable ''b'' ''2'' ?s)))"
    unfolding m by (auto simp: fun_eq_iff)
qed

end
