(* ===== verification/Consolidator.thy ===== *)
theory Consolidator
  imports LruCache
begin

text \<open>
  \<open>go/sync2/consolidator.go\<close>: the cache that counts how often a key had to wait, and the
  consolidator that lets concurrent duplicates of a query share one execution. The counter a cache
  entry points to is the entry's value here. A result is an object at an address: callers keep
  its pointer after the query has left the map.
\<close>

section \<open>The counting cache\<close>

type_synonym consolidator_cache = "int lru_cache"

definition NewConsolidatorCache :: "int \<Rightarrow> consolidator_cache" where
  "NewConsolidatorCache cap = NewLRUCache cap (\<lambda>_. 1)"

definition ccount_add :: "int \<Rightarrow> string \<Rightarrow> consolidator_cache \<Rightarrow> consolidator_cache" where
  "ccount_add n query cc =
     cc\<lparr>llist := map (\<lambda>(a, e). (a, if ekey e = query then e\<lparr>evalue := add64 (evalue e) n\<rparr> else e)) (llist cc)\<rparr>"

definition Record :: "int \<Rightarrow> string \<Rightarrow> consolidator_cache \<Rightarrow> consolidator_cache outcome" where
  "Record now query cc =
     obind (lru_Get now query cc) (\<lambda>(cc1, v).
       if v \<noteq> None then Ret (ccount_add 1 query cc1)
       else obind (lru_Set now query 1 cc1) (\<lambda>(cc2, _). Ret cc2))"

definition cc_Items :: "consolidator_cache \<Rightarrow> (string \<times> int) list" where
  "cc_Items cc = map (\<lambda>(k, v). (k, v)) (Items cc)"

text \<open>Counting keeps the order, the keys and the sizes of the entries.\<close>

lemma ccount_add_inv: "unit_inv cc \<Longrightarrow> unit_inv (ccount_add n query cc)"
proof -
  assume u: "unit_inv cc"
  let ?f = "\<lambda>(a, e). (a :: nat, if ekey e = query then e\<lparr>evalue := add64 (evalue e) n\<rparr> else (e :: int entry))"
  have l: "llist (ccount_add n query cc) = map ?f (llist cc)" by (simp add: ccount_add_def)
  have fst: "map fst (map ?f l) = map fst l" for l :: "(nat \<times> int entry) list"
    by (simp add: comp_def case_prod_beta)
  have key: "ekey (snd (?f x)) = ekey (snd x)" "esize (snd (?f x)) = esize (snd x)" for x by (auto split: prod.splits)
  have ks: "map fst (Items (ccount_add n query cc)) = map fst (Items cc)"
    unfolding Items_def l by (simp add: comp_def case_prod_beta)
  have tot: "total_cost (\<lambda>_. 1) (Items (ccount_add n query cc)) = total_cost (\<lambda>_. 1) (Items cc)"
    by (simp add: total_cost_def Items_def l comp_def)
  have mem: "(\<exists>e. (a, e) \<in> set (map ?f (llist cc)) \<and> ekey e = k) \<longleftrightarrow> (\<exists>e. (a, e) \<in> set (llist cc) \<and> ekey e = k)" for a k
    by (force split: prod.splits)
  have sz: "\<forall>(a, e) \<in> set (map ?f (llist cc)). esize e = 1"
    using u unfolding unit_inv_def lru_inv_def lru_shape_def by (force split: prod.splits)
  let ?cc = "ccount_add n query cc"
  have same: "table ?cc = table cc" "cost ?cc = cost cc" "lsize ?cc = lsize cc" "fresh ?cc = fresh cc" by (simp_all add: ccount_add_def)
  have shape: "lru_shape cc" and one: "cost cc = (\<lambda>_. 1)" using u by (auto simp: unit_inv_def lru_inv_def)
  have dom: "fst ` set (map ?f (llist cc)) = fst ` set (llist cc)" by (metis fst list.set_map)
  have "lru_shape ?cc" unfolding lru_shape_def l same
  proof (intro conjI)
    show "wf_map (map ?f (llist cc))" using shape fst [of "llist cc"] unfolding lru_shape_def wf_map_def by metis
    show "distinct (map fst (Items ?cc))" using shape ks unfolding lru_shape_def by metis
    show "\<forall>a \<in> fst ` set (map ?f (llist cc)). a < fresh cc" using shape unfolding lru_shape_def dom by blast
    show "\<forall>k a. map_of (table cc) k = Some a \<longleftrightarrow> (\<exists>e. (a, e) \<in> set (map ?f (llist cc)) \<and> ekey e = k)"
      using shape unfolding lru_shape_def mem by blast
    show "\<forall>(a, e) \<in> set (map ?f (llist cc)). esize e = cost cc (evalue e)" using sz unfolding one .
    show "lsize cc = total_cost (cost cc) (Items ?cc)" using shape tot unfolding lru_shape_def one by metis
  qed
  moreover have "capacity ?cc = capacity cc" by (simp add: ccount_add_def)
  ultimately show ?thesis using u unfolding unit_inv_def lru_inv_def costs_ok_def same by metis
qed

lemma Record_returns:
  assumes "unit_inv cc" shows "\<exists>cc'. Record now query cc = Ret cc' \<and> unit_inv cc'"
proof -
  have "lru_inv cc" using assms by (simp add: unit_inv_def)
  from Get_correct [OF this, of now query] obtain cc1 where c: "lru_Get now query cc = Ret (cc1, map_of (Items cc) query)"
    "lru_inv cc1" "cost cc1 = cost cc" by blast
  then have u: "unit_inv cc1" using assms by (simp add: unit_inv_def)
  show ?thesis
    by (cases "map_of (Items cc) query")
      (simp_all add: Record_def c(1) unit_put(1) [OF u] unit_put(2) [OF u] ccount_add_inv [OF u])
qed

section \<open>Sharing one execution\<close>

record 'r result =
  executing :: bool
  rquery :: string
  rresult :: "'r option"

record 'r consolidator =
  ccache :: consolidator_cache
  queries :: "(string, nat) gomap"
  results :: "nat \<Rightarrow> 'r result"
  nextResult :: nat

definition NewConsolidator :: "'r consolidator" where
  "NewConsolidator = \<lparr>ccache = NewConsolidatorCache 1000, queries = [],
     results = (\<lambda>_. \<lparr>executing = False, rquery = [], rresult = None\<rparr>), nextResult = 0\<rparr>"

definition Create :: "string \<Rightarrow> 'r consolidator \<Rightarrow> 'r consolidator \<times> nat \<times> bool" where
  "Create query co =
     (case map_of (queries co) query of
        Some r \<Rightarrow> (co, r, False)
      | None \<Rightarrow>
          let r = nextResult co in
          (co\<lparr>queries := mput query r (queries co), nextResult := Suc r,
             results := (results co)(r := \<lparr>executing = True, rquery = query, rresult = None\<rparr>)\<rparr>, r, True))"

text \<open>\<open>Unlock\<close> of a mutex that is not locked is a fatal error.\<close>

definition result_Broadcast :: "nat \<Rightarrow> 'r consolidator \<Rightarrow> 'r consolidator outcome" where
  "result_Broadcast r co =
     (let rs = results co r in
      if \<not> executing rs then Panic
      else Ret (co\<lparr>queries := mdel (rquery rs) (queries co), results := (results co)(r := rs\<lparr>executing := False\<rparr>)\<rparr>))"

text \<open>\<open>Wait\<close> records the query and then blocks until the result is no longer locked.\<close>

definition result_Wait :: "int \<Rightarrow> nat \<Rightarrow> 'r consolidator \<Rightarrow> ('r consolidator \<times> bool) outcome" where
  "result_Wait now r co =
     obind (Record now (rquery (results co r)) (ccache co)) (\<lambda>cc.
       Ret (co\<lparr>ccache := cc\<rparr>, \<not> executing (results co r)))"


section \<open>Runs\<close>

text \<open>
  The caller that created a result publishes what it computed and broadcasts once; the others hold
  the pointer and wait.
\<close>

inductive co_run :: "'r consolidator \<Rightarrow> bool" where
  start: "co_run NewConsolidator"
| create: "co_run co \<Longrightarrow> Create query co = (co', r, created) \<Longrightarrow> co_run co'"
| publish: "co_run co \<Longrightarrow> executing (results co r) \<Longrightarrow>
    co_run (co\<lparr>results := (results co)(r := (results co r)\<lparr>rresult := Some x\<rparr>)\<rparr>)"
| broadcast: "co_run co \<Longrightarrow> result_Broadcast r co = Ret co' \<Longrightarrow> co_run co'"
| wait: "co_run co \<Longrightarrow> result_Wait now r co = Ret (co', go_on) \<Longrightarrow> co_run co'"

definition co_inv :: "'r consolidator \<Rightarrow> bool" where
  "co_inv co \<longleftrightarrow> wf_map (queries co) \<and> unit_inv (ccache co) \<and> (\<forall>r. executing (results co r) \<longrightarrow> r < nextResult co) \<and>
     (\<forall>q r. map_of (queries co) q = Some r \<longleftrightarrow> executing (results co r) \<and> rquery (results co r) = q)"

lemma Create_inv: "co_inv co \<Longrightarrow> Create query co = (co', r, created) \<Longrightarrow> co_inv co'"
proof (cases "map_of (queries co) query")
  case None
  assume inv: "co_inv co" and c: "Create query co = (co', r, created)"
  from c None have co': "co' = co\<lparr>queries := mput query (nextResult co) (queries co), nextResult := Suc (nextResult co),
      results := (results co)(nextResult co := \<lparr>executing = True, rquery = query, rresult = None\<rparr>)\<rparr>"
    by (auto simp: Create_def Let_def)
  have new: "\<not> executing (results co (nextResult co))" using inv unfolding co_inv_def by blast
  have q: "map_of (queries co) q = Some r \<longleftrightarrow> executing (results co r) \<and> rquery (results co r) = q" for q r
    using inv unfolding co_inv_def by blast
  have lt: "executing (results co r) \<Longrightarrow> r < nextResult co" for r using inv unfolding co_inv_def by blast
  have "map_of (queries co') k = Some r' \<longleftrightarrow> executing (results co' r') \<and> rquery (results co' r') = k" for k r'
    using q [of k r'] q [of k "nextResult co"] q [of query r'] new None by (auto simp: co')
  moreover have "executing (results co' r') \<Longrightarrow> r' < nextResult co'" for r'
    using lt [of r'] by (auto simp: co' split: if_splits)
  ultimately show ?thesis using inv by (simp add: co_inv_def co')
next
  case (Some r')
  then show "co_inv co \<Longrightarrow> Create query co = (co', r, created) \<Longrightarrow> co_inv co'" by (simp add: Create_def)
qed

lemma co_run_inv: "co_run co \<Longrightarrow> co_inv co"
proof (induction rule: co_run.induct)
  case start
  show ?case by (simp add: co_inv_def NewConsolidator_def unit_inv_def NewConsolidatorCache_def NewLRUCache_inv maxInt64_def)
      (simp add: NewLRUCache_def)
next
  case (create co query co' r created)
  then show ?case using Create_inv by blast
next
  case (publish co r x)
  then show ?case unfolding co_inv_def by simp
next
  case (broadcast co r co')
  have e: "executing (results co r)" and co': "co' = co\<lparr>queries := mdel (rquery (results co r)) (queries co),
      results := (results co)(r := (results co r)\<lparr>executing := False\<rparr>)\<rparr>"
    using broadcast(2) by (auto simp: result_Broadcast_def Let_def split: if_splits)
  have q: "map_of (queries co) q = Some r \<longleftrightarrow> executing (results co r) \<and> rquery (results co r) = q" for q r
    using broadcast(3) unfolding co_inv_def by blast
  have "map_of (queries co') k = Some r' \<longleftrightarrow> executing (results co' r') \<and> rquery (results co' r') = k" for k r'
    using q [of k r'] q [of k r] q [of "rquery (results co r)" r] q [of "rquery (results co r)" r'] e by (auto simp: co')
  moreover have "executing (results co' r') \<Longrightarrow> r' < nextResult co'" for r'
    using broadcast(3) unfolding co_inv_def co' by (auto split: if_splits)
  ultimately show ?case using broadcast(3) by (simp add: co_inv_def co')
next
  case (wait co now r co' go_on)
  then obtain cc where "Record now (rquery (results co r)) (ccache co) = Ret cc" "co' = co\<lparr>ccache := cc\<rparr>"
    by (auto simp: result_Wait_def obind_eq_Ret)
  moreover have "unit_inv (ccache co)" using wait(3) by (simp add: co_inv_def)
  ultimately have "unit_inv (ccache co')" using Record_returns [of "ccache co" now "rquery (results co r)"] by auto
  with wait(3) \<open>co' = _\<close> show ?case by (simp add: co_inv_def)
qed

section \<open>Properties\<close>

text \<open>
  C39. Concurrent duplicates of a query share one execution: in every run at most one result per
  query is executing, \<open>Create\<close> hands out that result while there is one and creates a result
  exactly when there is none, and the creator's \<open>Broadcast\<close> succeeds and lets everybody who
  waits for the result go on.
\<close>

theorem one_execution_per_query:
  assumes "co_run co"
  shows "(executing (results co r) \<and> executing (results co r') \<and> rquery (results co r) = rquery (results co r') \<longrightarrow> r = r') \<and>
    (case Create query co of (co', r, created) \<Rightarrow>
       executing (results co' r) \<and> rquery (results co' r) = query \<and>
       (created \<longleftrightarrow> (\<forall>r'. \<not> (executing (results co r') \<and> rquery (results co r') = query)))) \<and>
    (executing (results co r) \<longrightarrow> (\<exists>co'. result_Broadcast r co = Ret co' \<and> (\<exists>co2. result_Wait now r co' = Ret (co2, True))))"
proof -
  note inv = co_run_inv [OF assms]
  have q: "map_of (queries co) q = Some r \<longleftrightarrow> executing (results co r) \<and> rquery (results co r) = q" for q r
    using inv unfolding co_inv_def by blast
  have a: "executing (results co r) \<and> executing (results co r') \<and> rquery (results co r) = rquery (results co r') \<longrightarrow> r = r'"
    using q [of "rquery (results co r)" r] q [of "rquery (results co r)" r'] by auto
  have b: "case Create query co of (co', r, created) \<Rightarrow>
       executing (results co' r) \<and> rquery (results co' r) = query \<and>
       (created \<longleftrightarrow> (\<forall>r'. \<not> (executing (results co r') \<and> rquery (results co r') = query)))"
  proof (cases "map_of (queries co) query")
    case None
    then show ?thesis using q [of query] by (simp add: Create_def Let_def)
  next
    case (Some r')
    then show ?thesis using q [of query r'] by (auto simp: Create_def)
  qed
  have c: "\<exists>co'. result_Broadcast r co = Ret co' \<and> (\<exists>co2. result_Wait now r co' = Ret (co2, True))" if e: "executing (results co r)"
  proof -
    obtain cc where "Record now (rquery (results co r)) (ccache co) = Ret cc"
      using Record_returns [of "ccache co"] inv unfolding co_inv_def by blast
    with e show ?thesis by (simp add: result_Broadcast_def result_Wait_def Let_def)
  qed
  from a b c show ?thesis by blast
qed

lemma sample_co_run: "co_run (fst (Create ''q'' (NewConsolidator :: unit consolidator)))"
proof -
  let ?c = "Create ''q'' (NewConsolidator :: unit consolidator)"
  have "?c = (fst ?c, fst (snd ?c), snd (snd ?c))" by simp
  from co_run.create [OF co_run.start this] show ?thesis .
qed

theorem one_execution_per_query_witness:
  "\<not> snd (snd (Create ''q'' (fst (Create ''q'' (NewConsolidator :: unit consolidator))))) \<and>
   executing (results (fst (Create ''q'' (NewConsolidator :: unit consolidator))) 0)"
proof -
  have e: "executing (results (fst (Create ''q'' (NewConsolidator :: unit consolidator))) 0)"
    "rquery (results (fst (Create ''q'' (NewConsolidator :: unit consolidator))) 0) = ''q''"
    by (simp_all add: Create_def NewConsolidator_def)
  then show ?thesis using one_execution_per_query [OF sample_co_run, of 0 0 "''q''" 0] by (auto split: prod.splits)
qed

end
