(* ===== verification/Ccl.thy ===== *)
theory Ccl
  imports Consolidator TxLimiter
begin

text \<open>
  The concurrency controller of \<open>ccl/concurrency_controller.go\<close>: per key a queue that lets a
  bounded number of statements run and parks the others. Queues are objects behind pointers (an
  address and a heap), channels are numbers. A parked caller sends on its channel; a releasing
  caller receives, and finds the channel closed when the parked caller gave up. Receive and send
  meet in one step, and everything between \<open>Lock\<close> and \<open>Unlock\<close> of the mutex is one step.
\<close>

section \<open>State\<close>

record cc_queue =
  qkey :: string
  maxQueueSize :: int
  maxConcurrency :: int
  qsize :: int
  qcount :: int
  qmax :: int
  onTheFlySize :: int
  waitingRequest :: "nat list"

record controller =
  hot :: consolidator_cache
  ccDryRun :: bool
  maxGlobalQueueSize :: int
  waits :: counters_with_single_label
  waitsDryRun :: counters_with_single_label
  queueExceeded :: counters_with_single_label
  queueExceededDryRun :: counters_with_single_label
  globalQueueExceeded :: int
  globalQueueExceededDryRun :: int
  ccQueues :: "(string, nat) gomap"
  currentGlobalSize :: int
  qheap :: "nat \<Rightarrow> cc_queue"
  nextQueue :: nat
  nextChan :: nat
  closedChans :: "nat list"

datatype ccl_error = TooManyGlobal int int | TooManyQueued int int

datatype lock_result = Rejected ccl_error | Admitted | Blocked nat

definition newQueue :: "string \<Rightarrow> int \<Rightarrow> int \<Rightarrow> cc_queue" where
  "newQueue key maxQ maxC = \<lparr>qkey = key, maxQueueSize = maxQ, maxConcurrency = maxC, qsize = 0, qcount = 0,
     qmax = 0, onTheFlySize = 0, waitingRequest = []\<rparr>"

definition ccl_New :: "bool \<Rightarrow> int \<Rightarrow> counters_with_single_label \<Rightarrow> controller" where
  "ccl_New dry maxGlobal c = \<lparr>hot = NewConsolidatorCache 1000, ccDryRun = dry, maxGlobalQueueSize = maxGlobal,
     waits = c, waitsDryRun = c, queueExceeded = c, queueExceededDryRun = c, globalQueueExceeded = 0,
     globalQueueExceededDryRun = 0, ccQueues = [], currentGlobalSize = 0, qheap = (\<lambda>_. newQueue [] 0 0),
     nextQueue = 0, nextChan = 0, closedChans = []\<rparr>"

definition put_queue :: "nat \<Rightarrow> cc_queue \<Rightarrow> controller \<Rightarrow> controller" where
  "put_queue a q txs = txs\<lparr>qheap := (qheap txs)(a := q)\<rparr>"

definition add_all :: "string list \<Rightarrow> counters_with_single_label \<Rightarrow> counters_with_single_label" where
  "add_all tables c = fold (\<lambda>table. counters_Add table 1) tables c"

section \<open>Operations\<close>

text \<open>
  The loop of \<open>resizeQueueLocked\<close>: it wakes \<open>delta\<close> parked callers, dropping the channels that
  were closed. Returns the channels left, the number in flight and the channels woken.
\<close>

fun resize_loop :: "int \<Rightarrow> nat list \<Rightarrow> nat list \<Rightarrow> int \<Rightarrow> nat list \<times> int \<times> nat list" where
  "resize_loop delta closed [] n = ([], n, [])"
| "resize_loop delta closed (ch # chs) n =
     (if delta > 0 then
        (if ch \<in> set closed then resize_loop delta closed chs n
         else let (rest, n', woken) = resize_loop (sub64 delta 1) closed chs (add64 n 1) in (rest, n', ch # woken))
      else (ch # chs, n, []))"

definition resizeQueueLocked :: "nat list \<Rightarrow> int \<Rightarrow> int \<Rightarrow> cc_queue \<Rightarrow> cc_queue \<times> nat list" where
  "resizeQueueLocked closed newMaxQ newMaxC q =
     (let (rest, n, woken) =
        (if newMaxC > maxConcurrency q
         then resize_loop (sub64 newMaxC (maxConcurrency q)) closed (waitingRequest q) (onTheFlySize q)
         else (waitingRequest q, onTheFlySize q, [])) in
      (q\<lparr>maxQueueSize := newMaxQ, waitingRequest := rest, onTheFlySize := n, maxConcurrency := newMaxC\<rparr>, woken))"

definition GetOrCreateQueue :: "string \<Rightarrow> int \<Rightarrow> int \<Rightarrow> controller \<Rightarrow> controller \<times> nat \<times> nat list" where
  "GetOrCreateQueue key maxQ maxC txs =
     (let txs1 = (case map_of (ccQueues txs) key of
                    Some _ \<Rightarrow> txs
                  | None \<Rightarrow> (put_queue (nextQueue txs) (newQueue key maxQ maxC) txs)
                      \<lparr>ccQueues := mput key (nextQueue txs) (ccQueues txs), nextQueue := Suc (nextQueue txs)\<rparr>);
          a = (case map_of (ccQueues txs1) key of Some a \<Rightarrow> a | None \<Rightarrow> 0);
          q = qheap txs1 a in
      if maxQueueSize q \<noteq> maxQ \<or> maxConcurrency q \<noteq> maxC
      then let (q', woken) = resizeQueueLocked (closedChans txs1) maxQ maxC q in (put_queue a q' txs1, a, woken)
      else (txs1, a, []))"

definition DeleteQueue :: "string \<Rightarrow> controller \<Rightarrow> controller" where
  "DeleteQueue key txs = txs\<lparr>ccQueues := mdel key (ccQueues txs)\<rparr>"

text \<open>\<open>lockLocked\<close> up to its \<open>select\<close>: the caller is rejected, admitted, or parked on a new channel.\<close>

definition lockLocked :: "int \<Rightarrow> nat \<Rightarrow> string \<Rightarrow> string list \<Rightarrow> controller \<Rightarrow> (controller \<times> lock_result) outcome" where
  "lockLocked now a key tables txs =
     (let q = qheap txs a; globalFull = (currentGlobalSize txs \<ge> maxGlobalQueueSize txs) in
      if globalFull \<and> \<not> ccDryRun txs
      then Ret (txs\<lparr>globalQueueExceeded := add64 (globalQueueExceeded txs) 1\<rparr>,
        Rejected (TooManyGlobal (currentGlobalSize txs) (maxGlobalQueueSize txs)))
      else
        let txs1 = (if globalFull then txs\<lparr>globalQueueExceededDryRun := add64 (globalQueueExceededDryRun txs) 1\<rparr> else txs);
            full = (qsize q \<ge> maxQueueSize q) in
        if full \<and> \<not> ccDryRun txs1
        then Ret (txs1\<lparr>queueExceeded := add_all tables (queueExceeded txs1)\<rparr>, Rejected (TooManyQueued (qsize q) (maxQueueSize q)))
        else
          let txs2 = (if full then txs1\<lparr>queueExceededDryRun := add_all tables (queueExceededDryRun txs1)\<rparr> else txs1);
              n = add64 (qsize q) 1;
              q1 = q\<lparr>qsize := n, qcount := add64 (qcount q) 1, qmax := (if n > qmax q then n else qmax q)\<rparr>;
              txs3 = put_queue a q1 (txs2\<lparr>currentGlobalSize := add64 (currentGlobalSize txs2) 1\<rparr>) in
          obind (Record now key (hot txs3)) (\<lambda>h.
            let txs4 = txs3\<lparr>hot := h\<rparr> in
            if ccDryRun txs4 then Ret (txs4\<lparr>waitsDryRun := add_all tables (waitsDryRun txs4)\<rparr>, Admitted)
            else if onTheFlySize q1 < maxConcurrency q1
            then Ret (put_queue a (q1\<lparr>onTheFlySize := add64 (onTheFlySize q1) 1\<rparr>) txs4, Admitted)
            else
              let ch = nextChan txs4 in
              Ret ((put_queue a (q1\<lparr>waitingRequest := waitingRequest q1 @ [ch]\<rparr>) txs4)
                \<lparr>nextChan := Suc ch, waits := add_all tables (waits txs4)\<rparr>, Blocked ch)))"

text \<open>The parked caller gives up: it closes its channel, before it has the mutex again.\<close>

definition wait_cancelled :: "nat \<Rightarrow> controller \<Rightarrow> controller" where
  "wait_cancelled ch txs = txs\<lparr>closedChans := ch # closedChans txs\<rparr>"

fun recv_loop :: "nat list \<Rightarrow> nat list \<Rightarrow> nat list \<times> nat option" where
  "recv_loop closed [] = ([], None)"
| "recv_loop closed (ch # chs) = (if ch \<in> set closed then recv_loop closed chs else (chs, Some ch))"

definition unlockLocked :: "nat \<Rightarrow> string \<Rightarrow> bool \<Rightarrow> controller \<Rightarrow> controller \<times> nat option" where
  "unlockLocked a key returnSlot txs0 =
     (let q = (qheap txs0 a)\<lparr>qsize := sub64 (qsize (qheap txs0 a)) 1\<rparr>;
          txs = put_queue a q (txs0\<lparr>currentGlobalSize := sub64 (currentGlobalSize txs0) 1\<rparr>) in
      if qsize q = 0
      then ((put_queue a (q\<lparr>onTheFlySize := sub64 (onTheFlySize q) 1\<rparr>) txs)\<lparr>ccQueues := mdel key (ccQueues txs)\<rparr>, None)
      else if ccDryRun txs then (txs, None)
      else if \<not> returnSlot then (txs, None)
      else if onTheFlySize q > maxConcurrency q
      then (put_queue a (q\<lparr>onTheFlySize := sub64 (onTheFlySize q) 1\<rparr>) txs, None)
      else
        let (rest, woken) = recv_loop (closedChans txs) (waitingRequest q);
            q1 = q\<lparr>waitingRequest := rest\<rparr> in
        (put_queue a (if woken = None then q1\<lparr>onTheFlySize := sub64 (onTheFlySize q1) 1\<rparr> else q1) txs, woken))"

definition unlock :: "nat \<Rightarrow> controller \<Rightarrow> controller \<times> nat option" where
  "unlock a txs = unlockLocked a (qkey (qheap txs a)) True txs"

text \<open>
  \<open>Wait\<close>: the call until it returns or parks, and its return after the caller gave up. The
  flags are \<open>waited\<close> and whether a \<open>done\<close> function is returned.
\<close>

definition Wait_enter :: "int \<Rightarrow> nat \<Rightarrow> string list \<Rightarrow> controller \<Rightarrow> (controller \<times> lock_result) outcome" where
  "Wait_enter now a tables txs = lockLocked now a (qkey (qheap txs a)) tables txs"

definition Wait_failed :: "nat \<Rightarrow> controller \<Rightarrow> controller" where
  "Wait_failed a txs = fst (unlockLocked a (qkey (qheap txs a)) False txs)"

definition Pending :: "string \<Rightarrow> controller \<Rightarrow> int" where
  "Pending key txs = (case map_of (ccQueues txs) key of None \<Rightarrow> 0 | Some a \<Rightarrow> qsize (qheap txs a))"


section \<open>One queue\<close>

text \<open>
  \<open>h\<close> callers hold a slot, \<open>W\<close> are the channels of the parked callers, \<open>C\<close> those of the callers
  that gave up and have not yet left. Channels are numbered in order of arrival.
\<close>

definition q_ok :: "nat set \<Rightarrow> cc_queue \<Rightarrow> nat \<Rightarrow> nat set \<Rightarrow> nat set \<Rightarrow> bool" where
  "q_ok closed q h W C \<longleftrightarrow> qsize q = int (h + card W + card C) \<and> finite W \<and> finite C \<and>
     sorted_wrt (<) (waitingRequest q) \<and> W \<subseteq> set (waitingRequest q) \<and> set (waitingRequest q) \<subseteq> W \<union> closed \<and>
     W \<inter> closed = {} \<and> C \<subseteq> closed"

definition q_live :: "cc_queue \<Rightarrow> nat \<Rightarrow> nat set \<Rightarrow> bool" where
  "q_live q h W \<longleftrightarrow> onTheFlySize q = int h \<and> int h \<le> maxConcurrency q \<and> (W \<noteq> {} \<longrightarrow> int h = maxConcurrency q) \<and>
     qsize q \<le> max 0 (maxQueueSize q)"

lemma recv_loop_cases:
  "recv_loop closed chs = (rest, woken) \<Longrightarrow>
   (woken = None \<and> rest = [] \<and> set chs \<subseteq> set closed) \<or>
   (\<exists>ch pre. woken = Some ch \<and> chs = pre @ ch # rest \<and> set pre \<subseteq> set closed \<and> ch \<notin> set closed)"
proof (induction chs arbitrary: rest woken)
  case (Cons c chs)
  show ?case
  proof (cases "c \<in> set closed")
    case True
    then have "recv_loop closed chs = (rest, woken)" using Cons.prems by simp
    from Cons.IH [OF this] True show ?thesis
      by (metis append_Cons insert_subset list.simps(15))
  next
    case False
    then show ?thesis using Cons.prems by (intro disjI2 exI [of _ c] exI [of _ "[]"]) simp
  qed
qed simp

text \<open>A caller that leaves a slot behind hands it to the caller that is parked longest.\<close>

lemma release_queue:
  assumes ok: "q_ok (set closed) q h W C" and r: "recv_loop closed (waitingRequest q) = (rest, woken)" and h: "0 < h"
  shows "woken = (if W = {} then None else Some (Min W))"
    and "q_ok (set closed) (q\<lparr>qsize := qsize q - 1, waitingRequest := rest\<rparr>)
      (if W = {} then h - 1 else h) (W - set_option woken) C"
proof -
  have sub: "W \<subseteq> set (waitingRequest q)" "set (waitingRequest q) \<subseteq> W \<union> set closed" "W \<inter> set closed = {}"
    and srt: "sorted_wrt (<) (waitingRequest q)" and fin: "finite W" and sz: "qsize q = int (h + card W + card C)"
    using ok by (auto simp: q_ok_def)
  consider (none) "woken = None" "rest = []" "W = {}"
    | (some) ch pre where "woken = Some ch" "waitingRequest q = pre @ ch # rest" "set pre \<subseteq> set closed" "ch \<in> W" "W \<subseteq> insert ch (set rest)"
  proof -
    from recv_loop_cases [OF r] show thesis
    proof
      assume n: "woken = None \<and> rest = [] \<and> set (waitingRequest q) \<subseteq> set closed"
      then have "W = {}" using sub by blast
      with n none show thesis by blast
    next
      assume "\<exists>ch pre. woken = Some ch \<and> waitingRequest q = pre @ ch # rest \<and> set pre \<subseteq> set closed \<and> ch \<notin> set closed"
      then obtain ch pre where p: "woken = Some ch" "waitingRequest q = pre @ ch # rest" "set pre \<subseteq> set closed" "ch \<notin> set closed" by blast
      have "ch \<in> W" using sub(2) p(2,4) by auto
      moreover have "W \<subseteq> insert ch (set rest)" using sub(1,3) p(2,3) by auto
      ultimately show thesis using some p by blast
    qed
  qed
  note cases = this
  show "woken = (if W = {} then None else Some (Min W))"
    using cases
  proof cases
    case some
    have "\<forall>x \<in> set rest. ch < x" using srt some(2) by (simp add: sorted_wrt_append)
    then have "\<forall>x \<in> W. ch \<le> x" using some(5) by (auto intro: less_imp_le)
    then have "Min W = ch" using fin some(4) by (intro Min_eqI) auto
    with some show ?thesis by auto
  qed simp
  show "q_ok (set closed) (q\<lparr>qsize := qsize q - 1, waitingRequest := rest\<rparr>)
      (if W = {} then h - 1 else h) (W - set_option woken) C"
    using cases
  proof cases
    case none
    then show ?thesis using ok h by (auto simp: q_ok_def of_nat_diff)
  next
    case some
    have "sorted_wrt (<) rest" using srt some(2) by (simp add: sorted_wrt_append)
    moreover have "card W = Suc (card (W - {ch}))" using card.remove [OF fin some(4)] .
    moreover have "W - {ch} \<subseteq> set rest" using some(5) by blast
    moreover have "ch \<notin> set rest" using srt some(2) by (auto simp: sorted_wrt_append)
    then have "set rest \<subseteq> (W - {ch}) \<union> set closed" using sub(2) some(2) by auto
    ultimately show ?thesis using ok some(1,4) by (auto simp: q_ok_def)
  qed
qed

section \<open>Runs\<close>

text \<open>
  \<open>ccl_run lim txs hold waiting canc\<close>: callers arrived (they fetch the queue of their key with the
  limits \<open>lim\<close> and enter it), gave up, left after giving up, and released their slot. \<open>hold a\<close>
  callers have a slot of queue \<open>a\<close>.
\<close>

inductive ccl_run :: "(string \<Rightarrow> int \<times> int) \<Rightarrow> controller \<Rightarrow> (nat \<Rightarrow> nat) \<Rightarrow> (nat \<Rightarrow> nat set) \<Rightarrow> (nat \<Rightarrow> nat set) \<Rightarrow> bool"
  for lim where
  start: "ccl_run lim (ccl_New False maxGlobal c) (\<lambda>_. 0) (\<lambda>_. {}) (\<lambda>_. {})"
| rejected: "ccl_run lim txs hold waiting canc \<Longrightarrow> GetOrCreateQueue key (fst (lim key)) (snd (lim key)) txs = (txs1, a, woken) \<Longrightarrow>
    Wait_enter now a tables txs1 = Ret (txs2, Rejected e) \<Longrightarrow> ccl_run lim txs2 hold waiting canc"
| admitted: "ccl_run lim txs hold waiting canc \<Longrightarrow> GetOrCreateQueue key (fst (lim key)) (snd (lim key)) txs = (txs1, a, woken) \<Longrightarrow>
    Wait_enter now a tables txs1 = Ret (txs2, Admitted) \<Longrightarrow> ccl_run lim txs2 (hold(a := Suc (hold a))) waiting canc"
| parked: "ccl_run lim txs hold waiting canc \<Longrightarrow> GetOrCreateQueue key (fst (lim key)) (snd (lim key)) txs = (txs1, a, woken) \<Longrightarrow>
    Wait_enter now a tables txs1 = Ret (txs2, Blocked ch) \<Longrightarrow> ccl_run lim txs2 hold (waiting(a := insert ch (waiting a))) canc"
| gives_up: "ccl_run lim txs hold waiting canc \<Longrightarrow> ch \<in> waiting a \<Longrightarrow>
    ccl_run lim (wait_cancelled ch txs) hold (waiting(a := waiting a - {ch})) (canc(a := insert ch (canc a)))"
| leaves: "ccl_run lim txs hold waiting canc \<Longrightarrow> ch \<in> canc a \<Longrightarrow>
    ccl_run lim (Wait_failed a txs) hold waiting (canc(a := canc a - {ch}))"
| release: "ccl_run lim txs hold waiting canc \<Longrightarrow> 0 < hold a \<Longrightarrow> unlock a txs = (txs', woken) \<Longrightarrow>
    ccl_run lim txs' (hold(a := (if woken = None then hold a - 1 else hold a))) (waiting(a := waiting a - set_option woken)) canc"

definition ccl_inv :: "(string \<Rightarrow> int \<times> int) \<Rightarrow> controller \<Rightarrow> (nat \<Rightarrow> nat) \<Rightarrow> (nat \<Rightarrow> nat set) \<Rightarrow> (nat \<Rightarrow> nat set) \<Rightarrow> bool" where
  "ccl_inv lim txs hold waiting canc \<longleftrightarrow> \<not> ccDryRun txs \<and> unit_inv (hot txs) \<and>
     (\<forall>a. q_ok (set (closedChans txs)) (qheap txs a) (hold a) (waiting a) (canc a)) \<and>
     (\<forall>a ch. ch \<in> set (waitingRequest (qheap txs a)) \<union> set (closedChans txs) \<longrightarrow> ch < nextChan txs) \<and>
     (\<forall>a b. a \<noteq> b \<longrightarrow> waiting a \<inter> waiting b = {}) \<and>
     (\<forall>a \<ge> nextQueue txs. hold a = 0 \<and> waiting a = {} \<and> canc a = {}) \<and>
     (\<forall>a. qsize (qheap txs a) > 0 \<longrightarrow> map_of (ccQueues txs) (qkey (qheap txs a)) = Some a) \<and>
     (\<forall>k a. map_of (ccQueues txs) k = Some a \<longrightarrow> a < nextQueue txs \<and> qkey (qheap txs a) = k \<and>
        (maxQueueSize (qheap txs a), maxConcurrency (qheap txs a)) = lim k \<and> q_live (qheap txs a) (hold a) (waiting a))"

definition lim_ok :: "(string \<Rightarrow> int \<times> int) \<Rightarrow> bool" where
  "lim_ok lim \<longleftrightarrow> (\<forall>k. fst (lim k) \<le> maxInt64 \<and> 0 \<le> snd (lim k) \<and> snd (lim k) \<le> maxInt64)"


lemma ccl_invD:
  assumes "ccl_inv lim txs hold waiting canc"
  shows "\<not> ccDryRun txs" "unit_inv (hot txs)"
    "q_ok (set (closedChans txs)) (qheap txs a) (hold a) (waiting a) (canc a)"
    "ch \<in> set (waitingRequest (qheap txs a)) \<Longrightarrow> ch < nextChan txs" "ch \<in> set (closedChans txs) \<Longrightarrow> ch < nextChan txs"
    "a \<noteq> b \<Longrightarrow> waiting a \<inter> waiting b = {}"
    "nextQueue txs \<le> a \<Longrightarrow> hold a = 0" "nextQueue txs \<le> a \<Longrightarrow> waiting a = {}" "nextQueue txs \<le> a \<Longrightarrow> canc a = {}"
    "qsize (qheap txs a) > 0 \<Longrightarrow> map_of (ccQueues txs) (qkey (qheap txs a)) = Some a"
    "map_of (ccQueues txs) k = Some a \<Longrightarrow> a < nextQueue txs \<and> qkey (qheap txs a) = k \<and>
        (maxQueueSize (qheap txs a), maxConcurrency (qheap txs a)) = lim k \<and> q_live (qheap txs a) (hold a) (waiting a)"
  using assms unfolding ccl_inv_def by blast+

text \<open>Replacing one queue of the map by one that is again consistent.\<close>

lemma ccl_inv_put:
  assumes inv: "ccl_inv lim txs hold waiting canc" and a: "map_of (ccQueues txs) k = Some a"
    and same: "qheap txs' = (qheap txs)(a := q')" "ccQueues txs' = ccQueues txs" "nextQueue txs' = nextQueue txs"
      "ccDryRun txs' = ccDryRun txs" "closedChans txs' = closedChans txs" "nextChan txs \<le> nextChan txs'" "unit_inv (hot txs')"
    and q': "qkey q' = qkey (qheap txs a)" "maxQueueSize q' = maxQueueSize (qheap txs a)"
      "maxConcurrency q' = maxConcurrency (qheap txs a)" "q_ok (set (closedChans txs)) q' h W C" "q_live q' h W"
      "\<And>ch. ch \<in> set (waitingRequest q') \<Longrightarrow> ch < nextChan txs'" "\<And>b. b \<noteq> a \<Longrightarrow> W \<inter> waiting b = {}"
  shows "ccl_inv lim txs' (hold(a := h)) (waiting(a := W)) (canc(a := C))"
  unfolding ccl_inv_def
proof (intro conjI allI impI)
  note D = ccl_invD [OF inv]
  show "\<not> ccDryRun txs'" "unit_inv (hot txs')" using D(1) same by auto
  show "q_ok (set (closedChans txs')) (qheap txs' b) ((hold(a := h)) b) ((waiting(a := W)) b) ((canc(a := C)) b)" for b
    using D(3) [of b] q'(4) same(1,5) by simp
  show "ch < nextChan txs'" if "ch \<in> set (waitingRequest (qheap txs' b)) \<union> set (closedChans txs')" for b ch
    using that D(4,5) q'(6) same(1,5,6) by (cases "b = a") (auto intro: less_le_trans)
  show "(waiting(a := W)) b \<inter> (waiting(a := W)) c = {}" if "b \<noteq> c" for b c
    using D(6) [OF that] q'(7) that by (cases "b = a"; cases "c = a") (auto simp: Int_commute)
  have lt: "a < nextQueue txs" using D(11) [OF a] by blast
  show "(hold(a := h)) b = 0" "(waiting(a := W)) b = {}" "(canc(a := C)) b = {}" if "nextQueue txs' \<le> b" for b
    using D(7,8,9) [of b] that lt same(3) by auto
  show "map_of (ccQueues txs') (qkey (qheap txs' b)) = Some b" if "qsize (qheap txs' b) > 0" for b
    using D(10) [of b] D(11) [OF a] a that same(1,2) q'(1) by (cases "b = a") auto
  show "b < nextQueue txs'" "qkey (qheap txs' b) = l" "(maxQueueSize (qheap txs' b), maxConcurrency (qheap txs' b)) = lim l"
    "q_live (qheap txs' b) ((hold(a := h)) b) ((waiting(a := W)) b)" if "map_of (ccQueues txs') l = Some b" for l b
    using D(11) [of l b] D(11) [OF a] that same(1,2,3) q'(1,2,3,5) by (cases "b = a"; simp)+
qed

text \<open>The last caller of a queue removes it from the map.\<close>

lemma ccl_inv_del:
  assumes inv: "ccl_inv lim txs hold waiting canc" and a: "map_of (ccQueues txs) k = Some a"
    and same: "qheap txs' = (qheap txs)(a := q')" "ccQueues txs' = mdel k (ccQueues txs)" "nextQueue txs' = nextQueue txs"
      "ccDryRun txs' = ccDryRun txs" "closedChans txs' = closedChans txs" "nextChan txs' = nextChan txs" "hot txs' = hot txs"
    and q': "qsize q' = 0" "waitingRequest q' = waitingRequest (qheap txs a)" and W: "waiting a = {}"
  shows "ccl_inv lim txs' (hold(a := 0)) (waiting(a := {})) (canc(a := {}))"
  unfolding ccl_inv_def
proof (intro conjI allI impI)
  note D = ccl_invD [OF inv]
  show "\<not> ccDryRun txs'" "unit_inv (hot txs')" using D(1,2) same by auto
  show "q_ok (set (closedChans txs')) (qheap txs' b) ((hold(a := 0)) b) ((waiting(a := {})) b) ((canc(a := {})) b)" for b
    using D(3) [of b] q' W same(1,5) by (auto simp: q_ok_def)
  show "ch < nextChan txs'" if "ch \<in> set (waitingRequest (qheap txs' b)) \<union> set (closedChans txs')" for b ch
    using that D(4,5) q'(2) same(1,5,6) by (cases "b = a") auto
  show "(waiting(a := {})) b \<inter> (waiting(a := {})) c = {}" if "b \<noteq> c" for b c using D(6) [OF that] by auto
  show "(hold(a := 0)) b = 0" "(waiting(a := {})) b = {}" "(canc(a := {})) b = {}" if "nextQueue txs' \<le> b" for b
    using D(7,8,9) [of b] that same(3) by auto
  show "map_of (ccQueues txs') (qkey (qheap txs' b)) = Some b" if "qsize (qheap txs' b) > 0" for b
    using D(10) [of b] a that same(1,2) q'(1) by (cases "b = a") auto
  show "b < nextQueue txs'" "qkey (qheap txs' b) = l" "(maxQueueSize (qheap txs' b), maxConcurrency (qheap txs' b)) = lim l"
    "q_live (qheap txs' b) ((hold(a := 0)) b) ((waiting(a := {})) b)" if "map_of (ccQueues txs') l = Some b" for l b
    using D(11) [of l b] D(11) [OF a] that same(1,2,3) by (auto split: if_splits)
qed


lemma ccl_inv_cong:
  assumes "ccl_inv lim txs hold waiting canc" "qheap txs' = qheap txs" "ccQueues txs' = ccQueues txs" "nextQueue txs' = nextQueue txs"
    "ccDryRun txs' = ccDryRun txs" "closedChans txs' = closedChans txs" "nextChan txs' = nextChan txs" "hot txs' = hot txs"
  shows "ccl_inv lim txs' hold waiting canc"
  using assms(1) unfolding ccl_inv_def assms(2-) .

lemma Get_inv:
  assumes inv: "ccl_inv lim txs hold waiting canc" and lim: "lim_ok lim"
    and g: "GetOrCreateQueue key (fst (lim key)) (snd (lim key)) txs = (txs1, a, woken)"
  shows "ccl_inv lim txs1 hold waiting canc \<and> map_of (ccQueues txs1) key = Some a"
proof (cases "map_of (ccQueues txs) key")
  case (Some b)
  have "maxQueueSize (qheap txs b) = fst (lim key)" "maxConcurrency (qheap txs b) = snd (lim key)"
    using ccl_invD(11) [OF inv Some] by (metis fst_conv, metis snd_conv)
  then show ?thesis using g Some inv by (simp add: GetOrCreateQueue_def Let_def)
next
  case None
  let ?q = "newQueue key (fst (lim key)) (snd (lim key))" and ?n = "nextQueue txs"
  have txs1: "txs1 = (put_queue ?n ?q txs)\<lparr>ccQueues := mput key ?n (ccQueues txs), nextQueue := Suc ?n\<rparr>" "a = ?n"
    using g None by (auto simp: GetOrCreateQueue_def Let_def put_queue_def newQueue_def)
  note D = ccl_invD [OF inv]
  have fresh: "hold ?n = 0" "waiting ?n = {}" "canc ?n = {}" using D(7,8,9) [of ?n] by auto
  have ok: "q_ok (set (closedChans txs)) ?q 0 {} {}" by (simp add: q_ok_def newQueue_def)
  have live: "q_live ?q 0 {}" using lim by (simp add: q_live_def newQueue_def lim_ok_def)
  have hp: "qheap txs1 b = (if b = ?n then ?q else qheap txs b)" for b by (simp add: txs1 put_queue_def)
  have mp: "map_of (ccQueues txs1) l = (if l = key then Some ?n else map_of (ccQueues txs) l)" for l by (simp add: txs1)
  have same: "ccDryRun txs1 = ccDryRun txs" "hot txs1 = hot txs" "closedChans txs1 = closedChans txs" "nextChan txs1 = nextChan txs"
    "nextQueue txs1 = Suc ?n" by (simp_all add: txs1 put_queue_def)
  have "ccl_inv lim txs1 hold waiting canc" unfolding ccl_inv_def same
  proof (intro conjI allI impI)
    show "\<not> ccDryRun txs" "unit_inv (hot txs)" using D(1,2) by auto
    show "q_ok (set (closedChans txs)) (qheap txs1 b) (hold b) (waiting b) (canc b)" for b
      using D(3) [of b] ok fresh by (cases "b = ?n") (simp_all add: hp)
    show "ch < nextChan txs" if "ch \<in> set (waitingRequest (qheap txs1 b)) \<union> set (closedChans txs)" for b ch
      using that D(4,5) by (cases "b = ?n") (auto simp: hp newQueue_def)
    show "waiting b \<inter> waiting c = {}" if "b \<noteq> c" for b c by (rule D(6) [OF that])
    show "hold b = 0" "waiting b = {}" "canc b = {}" if "Suc ?n \<le> b" for b using D(7,8,9) [of b] that by auto
    show "map_of (ccQueues txs1) (qkey (qheap txs1 b)) = Some b" if "qsize (qheap txs1 b) > 0" for b
      using D(10) [of b] that None by (cases "b = ?n") (auto simp: hp mp newQueue_def)
    show "b < Suc ?n" "qkey (qheap txs1 b) = l" "(maxQueueSize (qheap txs1 b), maxConcurrency (qheap txs1 b)) = lim l"
      "q_live (qheap txs1 b) (hold b) (waiting b)" if "map_of (ccQueues txs1) l = Some b" for l b
    proof -
      have "(l = key \<and> b = ?n) \<or> (l \<noteq> key \<and> map_of (ccQueues txs) l = Some b)" using that by (auto simp: mp split: if_splits)
      then show "b < Suc ?n" "qkey (qheap txs1 b) = l" "(maxQueueSize (qheap txs1 b), maxConcurrency (qheap txs1 b)) = lim l"
        "q_live (qheap txs1 b) (hold b) (waiting b)"
        using D(11) [of l b] live fresh by (auto simp: hp newQueue_def)
    qed
  qed
  then show ?thesis by (simp add: mp txs1(2))
qed

lemma lockLocked_eq:
  assumes "\<not> ccDryRun txs"
  shows "lockLocked now a key tables txs =
    (let q = qheap txs a; n = add64 (qsize q) 1;
       q1 = q\<lparr>qsize := n, qcount := add64 (qcount q) 1, qmax := (if n > qmax q then n else qmax q)\<rparr> in
     if currentGlobalSize txs \<ge> maxGlobalQueueSize txs
     then Ret (txs\<lparr>globalQueueExceeded := add64 (globalQueueExceeded txs) 1\<rparr>,
        Rejected (TooManyGlobal (currentGlobalSize txs) (maxGlobalQueueSize txs)))
     else if qsize q \<ge> maxQueueSize q
     then Ret (txs\<lparr>queueExceeded := add_all tables (queueExceeded txs)\<rparr>, Rejected (TooManyQueued (qsize q) (maxQueueSize q)))
     else obind (Record now key (hot txs)) (\<lambda>h.
       let txs4 = (put_queue a q1 (txs\<lparr>currentGlobalSize := add64 (currentGlobalSize txs) 1\<rparr>))\<lparr>hot := h\<rparr> in
       if onTheFlySize q < maxConcurrency q
       then Ret (put_queue a (q1\<lparr>onTheFlySize := add64 (onTheFlySize q) 1\<rparr>) txs4, Admitted)
       else Ret ((put_queue a (q1\<lparr>waitingRequest := waitingRequest q @ [nextChan txs]\<rparr>) txs4)
         \<lparr>nextChan := Suc (nextChan txs), waits := add_all tables (waits txs)\<rparr>, Blocked (nextChan txs))))"
  using assms by (simp add: lockLocked_def Let_def put_queue_def cong: if_cong)

lemma Enter_cases:
  assumes inv: "ccl_inv lim txs hold waiting canc" and lim: "lim_ok lim" and a: "map_of (ccQueues txs) k = Some a"
  shows "\<exists>txs' res. Wait_enter now a tables txs = Ret (txs', res) \<and>
    (case res of Rejected e \<Rightarrow> ccl_inv lim txs' hold waiting canc
     | Admitted \<Rightarrow> ccl_inv lim txs' (hold(a := Suc (hold a))) waiting canc
     | Blocked ch \<Rightarrow> ccl_inv lim txs' hold (waiting(a := insert ch (waiting a))) canc)"
proof -
  note D = ccl_invD [OF inv]
  let ?q = "qheap txs a"
  have Da: "qkey ?q = k" "(maxQueueSize ?q, maxConcurrency ?q) = lim k" "q_live ?q (hold a) (waiting a)" using D(11) [OF a] by auto
  then have mq: "maxQueueSize ?q \<le> maxInt64" "maxConcurrency ?q \<le> maxInt64"
    using lim unfolding lim_ok_def by (metis fst_conv, metis snd_conv)
  have ok: "q_ok (set (closedChans txs)) ?q (hold a) (waiting a) (canc a)" by (rule D(3))
  show ?thesis
  proof (cases "currentGlobalSize txs \<ge> maxGlobalQueueSize txs \<or> qsize ?q \<ge> maxQueueSize ?q")
    case True
    then show ?thesis using D(1) ccl_inv_cong [OF inv]
      by (auto simp: Wait_enter_def lockLocked_eq Let_def)
  next
    case False
    obtain h where h: "Record now k (hot txs) = Ret h" "unit_inv h" using Record_returns [OF D(2)] by blast
    have sz: "0 \<le> qsize ?q" using ok by (simp add: q_ok_def)
    then have n: "add64 (qsize ?q) 1 = qsize ?q + 1" using False mq(1) by (intro add64_id) (auto simp: maxInt64_def)
    define q1 where "q1 = ?q\<lparr>qsize := qsize ?q + 1, qcount := add64 (qcount ?q) 1, qmax := (if qsize ?q + 1 > qmax ?q then qsize ?q + 1 else qmax ?q)\<rparr>"
    define txs4 where "txs4 = (put_queue a q1 (txs\<lparr>currentGlobalSize := add64 (currentGlobalSize txs) 1\<rparr>))\<lparr>hot := h\<rparr>"
    have live: "onTheFlySize ?q = int (hold a)" "int (hold a) \<le> maxConcurrency ?q" "waiting a \<noteq> {} \<longrightarrow> int (hold a) = maxConcurrency ?q"
      using Da(3) by (auto simp: q_live_def)
    show ?thesis
    proof (cases "onTheFlySize ?q < maxConcurrency ?q")
      case True
      let ?q' = "q1\<lparr>onTheFlySize := int (Suc (hold a))\<rparr>"
      have o: "add64 (onTheFlySize ?q) 1 = int (Suc (hold a))"
        using live True mq(2) by (subst add64_id) (auto simp: maxInt64_def)
      have e: "Wait_enter now a tables txs = Ret (put_queue a ?q' txs4, Admitted)"
        using False True D(1) h(1) Da(1) n o by (simp add: Wait_enter_def lockLocked_eq Let_def q1_def txs4_def)
      have "waiting a = {}" using live True by auto
      then have "ccl_inv lim (put_queue a ?q' txs4) (hold(a := Suc (hold a))) (waiting(a := waiting a)) (canc(a := canc a))"
        using ok live True False h(2) D(4) D(6)
        by (intro ccl_inv_put [OF inv a, where q' = ?q']) (auto simp: put_queue_def txs4_def q1_def q_ok_def q_live_def)
      with e show ?thesis by simp
    next
      case ge: False
      let ?ch = "nextChan txs"
      let ?q' = "q1\<lparr>waitingRequest := waitingRequest ?q @ [?ch]\<rparr>"
      let ?t = "(put_queue a ?q' txs4)\<lparr>nextChan := Suc ?ch, waits := add_all tables (waits txs)\<rparr>"
      have e: "Wait_enter now a tables txs = Ret (?t, Blocked ?ch)"
        using False ge D(1) h(1) Da(1) n by (simp add: Wait_enter_def lockLocked_eq Let_def q1_def txs4_def)
      have new: "?ch \<notin> set (waitingRequest (qheap txs b))" "?ch \<notin> set (closedChans txs)" "?ch \<notin> waiting b" for b
        using D(4) [of ?ch] D(5) [of ?ch] D(3) [of b] by (auto simp: q_ok_def)
      have "q_ok (set (closedChans txs)) ?q' (hold a) (insert ?ch (waiting a)) (canc a)"
        using ok new D(4) by (auto simp: q_ok_def q1_def sorted_wrt_append)
      moreover have "q_live ?q' (hold a) (insert ?ch (waiting a))" using live ge False by (auto simp: q_live_def q1_def)
      moreover have "insert ?ch (waiting a) \<inter> waiting b = {}" if "b \<noteq> a" for b using D(6) [of a b] that new(3) [of b] by auto
      moreover have "ch < Suc ?ch" if "ch \<in> set (waitingRequest ?q')" for ch using that D(4) [of ch a] by auto
      ultimately have "ccl_inv lim ?t (hold(a := hold a)) (waiting(a := insert ?ch (waiting a))) (canc(a := canc a))"
        using h(2) by (intro ccl_inv_put [OF inv a, where q' = ?q']) (simp_all add: put_queue_def txs4_def q1_def)
      with e show ?thesis by simp
    qed
  qed
qed


lemma gives_up_inv:
  assumes inv: "ccl_inv lim txs hold waiting canc" and ch: "ch \<in> waiting a"
  shows "ccl_inv lim (wait_cancelled ch txs) hold (waiting(a := waiting a - {ch})) (canc(a := insert ch (canc a)))"
proof -
  have same: "ccDryRun (wait_cancelled ch txs) = ccDryRun txs" "hot (wait_cancelled ch txs) = hot txs" "nextChan (wait_cancelled ch txs) = nextChan txs"
    "qheap (wait_cancelled ch txs) = qheap txs" "ccQueues (wait_cancelled ch txs) = ccQueues txs" "nextQueue (wait_cancelled ch txs) = nextQueue txs"
    "set (closedChans (wait_cancelled ch txs)) = insert ch (set (closedChans txs))" by (simp_all add: wait_cancelled_def)
  show ?thesis unfolding ccl_inv_def same
proof (intro conjI allI impI)
  note D = ccl_invD [OF inv]
  have ok: "q_ok (set (closedChans txs)) (qheap txs a) (hold a) (waiting a) (canc a)" by (rule D(3))
  have new: "ch \<notin> set (closedChans txs)" "ch \<notin> canc a" using ok ch by (auto simp: q_ok_def)
  have other: "ch \<notin> waiting b" if "b \<noteq> a" for b using D(6) [OF that] ch by blast
  show "\<not> ccDryRun txs" "unit_inv (hot txs)" using D(1,2) by auto
  show "q_ok (insert ch (set (closedChans txs))) (qheap txs b) (hold b) ((waiting(a := waiting a - {ch})) b) ((canc(a := insert ch (canc a))) b)" for b
  proof (cases "b = a")
    case True
    have "finite (waiting a)" "finite (canc a)" using ok by (simp_all add: q_ok_def)
    then have "card (waiting a) = Suc (card (waiting a - {ch}))" "card (insert ch (canc a)) = Suc (card (canc a))"
      using card.remove [OF _ ch] new(2) by simp_all
    with True ok show ?thesis by (auto simp: q_ok_def)
  next
    case False
    with D(3) [of b] other [OF False] show ?thesis by (auto simp: q_ok_def)
  qed
  have lt: "ch < nextChan txs" using ok ch D(4) [of ch a] by (auto simp: q_ok_def)
  show "c < nextChan txs" if "c \<in> set (waitingRequest (qheap txs b)) \<union> insert ch (set (closedChans txs))" for b c
    using that lt D(4) [of c b] D(5) [of c] by blast
  show "(waiting(a := waiting a - {ch})) b \<inter> (waiting(a := waiting a - {ch})) c = {}" if "b \<noteq> c" for b c
    using D(6) [OF that] by auto
  show "hold b = 0" "(waiting(a := waiting a - {ch})) b = {}" "(canc(a := insert ch (canc a))) b = {}" if "nextQueue txs \<le> b" for b
    using D(7,8,9) [of b] that ch by auto
  show "map_of (ccQueues txs) (qkey (qheap txs b)) = Some b" if "0 < qsize (qheap txs b)" for b using D(10) that by blast
  show "b < nextQueue txs" "qkey (qheap txs b) = l" "(maxQueueSize (qheap txs b), maxConcurrency (qheap txs b)) = lim l"
    "q_live (qheap txs b) (hold b) ((waiting(a := waiting a - {ch})) b)" if "map_of (ccQueues txs) l = Some b" for l b
    using D(11) [OF that] by (auto simp: q_live_def)
qed
qed

text \<open>A caller counted by a queue keeps the queue in the map.\<close>

lemma counted_in_map:
  assumes inv: "ccl_inv lim txs hold waiting canc" and c: "0 < hold a \<or> canc a \<noteq> {} \<or> waiting a \<noteq> {}"
  shows "0 < qsize (qheap txs a)" and "map_of (ccQueues txs) (qkey (qheap txs a)) = Some a"
proof -
  have "q_ok (set (closedChans txs)) (qheap txs a) (hold a) (waiting a) (canc a)" by (rule ccl_invD(3) [OF inv])
  then have "qsize (qheap txs a) = int (hold a + card (waiting a) + card (canc a))" "finite (waiting a)" "finite (canc a)" by (simp_all add: q_ok_def)
  moreover have "0 < hold a \<or> 0 < card (canc a) \<or> 0 < card (waiting a)" using c calculation(2,3) by (simp add: card_gt_0_iff)
  ultimately show "0 < qsize (qheap txs a)" by linarith
  then show "map_of (ccQueues txs) (qkey (qheap txs a)) = Some a" by (rule ccl_invD(10) [OF inv])
qed

lemma sub64_pos: "0 < n \<Longrightarrow> n \<le> maxInt64 \<Longrightarrow> sub64 n 1 = n - 1"
  by (intro sub64_id) (auto simp: maxInt64_def)

lemma live_size:
  assumes inv: "ccl_inv lim txs hold waiting canc" and lim: "lim_ok lim" and a: "map_of (ccQueues txs) k = Some a"
  shows "qsize (qheap txs a) \<le> maxInt64" and "int (hold a) \<le> maxInt64"
proof -
  have *: "(maxQueueSize (qheap txs a), maxConcurrency (qheap txs a)) = lim k" "q_live (qheap txs a) (hold a) (waiting a)"
    using ccl_invD(11) [OF inv a] by auto
  then have "maxQueueSize (qheap txs a) \<le> maxInt64" "maxConcurrency (qheap txs a) \<le> maxInt64"
    using lim unfolding lim_ok_def by (metis fst_conv, metis snd_conv)
  with *(2) show "qsize (qheap txs a) \<le> maxInt64" "int (hold a) \<le> maxInt64" by (auto simp: q_live_def maxInt64_def)
qed

lemma leaves_inv:
  assumes inv: "ccl_inv lim txs hold waiting canc" and lim: "lim_ok lim" and ch: "ch \<in> canc a"
  shows "ccl_inv lim (Wait_failed a txs) hold waiting (canc(a := canc a - {ch}))"
proof -
  note D = ccl_invD [OF inv]
  let ?q = "qheap txs a"
  have pos: "0 < qsize ?q" and a: "map_of (ccQueues txs) (qkey ?q) = Some a" using counted_in_map [OF inv, of a] ch by auto
  have s: "sub64 (qsize ?q) 1 = qsize ?q - 1" using sub64_pos [OF pos live_size(1) [OF inv lim a]] .
  have ok: "q_ok (set (closedChans txs)) ?q (hold a) (waiting a) (canc a)" and live: "q_live ?q (hold a) (waiting a)"
    using D(3) D(11) [OF a] by auto
  have fin: "finite (waiting a)" "finite (canc a)" using ok by (auto simp: q_ok_def)
  have card: "card (canc a) = Suc (card (canc a - {ch}))" using card.remove [OF fin(2) ch] .
  let ?q1 = "?q\<lparr>qsize := qsize ?q - 1\<rparr>"
  show ?thesis
  proof (cases "qsize ?q - 1 = 0")
    case True
    moreover have "qsize ?q = int (hold a + card (waiting a) + card (canc a))" using ok by (simp add: q_ok_def)
    ultimately have "hold a + card (waiting a) + card (canc a - {ch}) = 0" using card by linarith
    then have z: "hold a = 0" "waiting a = {}" "canc a - {ch} = {}" using fin by auto
    have "ccl_inv lim (Wait_failed a txs) (hold(a := 0)) (waiting(a := {})) (canc(a := {}))"
      by (rule ccl_inv_del [OF inv a, where q' = "?q1\<lparr>onTheFlySize := sub64 (onTheFlySize ?q) 1\<rparr>"])
        (use True s z(2) in \<open>simp_all add: Wait_failed_def unlockLocked_def Let_def put_queue_def\<close>)
    moreover have "hold(a := 0) = hold" "waiting(a := {}) = waiting" using z by (auto simp: fun_eq_iff)
    ultimately show ?thesis by (simp only: z(3))
  next
    case False
    have "ccl_inv lim (Wait_failed a txs) (hold(a := hold a)) (waiting(a := waiting a)) (canc(a := canc a - {ch}))"
    proof (rule ccl_inv_put [OF inv a, where q' = ?q1])
      show "q_ok (set (closedChans txs)) ?q1 (hold a) (waiting a) (canc a - {ch})" using ok card by (auto simp: q_ok_def)
      show "q_live ?q1 (hold a) (waiting a)" using live by (auto simp: q_live_def)
      show "waiting a \<inter> waiting b = {}" if "b \<noteq> a" for b using D(6) [of a b] that by blast
    qed (use False s D(2,4) in \<open>auto simp: Wait_failed_def unlockLocked_def Let_def put_queue_def\<close>)
    then show ?thesis by simp
  qed
qed

lemma release_inv:
  assumes inv: "ccl_inv lim txs hold waiting canc" and lim: "lim_ok lim" and h: "0 < hold a" and u: "unlock a txs = (txs', woken)"
  shows "woken = (if waiting a = {} then None else Some (Min (waiting a)))"
    and "ccl_inv lim txs' (hold(a := (if woken = None then hold a - 1 else hold a))) (waiting(a := waiting a - set_option woken)) canc"
proof -
  note D = ccl_invD [OF inv]
  let ?q = "qheap txs a"
  have pos: "0 < qsize ?q" and a: "map_of (ccQueues txs) (qkey ?q) = Some a" using counted_in_map [OF inv, of a] h by auto
  have s: "sub64 (qsize ?q) 1 = qsize ?q - 1" using sub64_pos [OF pos live_size(1) [OF inv lim a]] .
  have ok: "q_ok (set (closedChans txs)) ?q (hold a) (waiting a) (canc a)" and live: "q_live ?q (hold a) (waiting a)"
    using D(3) D(11) [OF a] by auto
  have fly: "onTheFlySize ?q = int (hold a)" "int (hold a) \<le> maxConcurrency ?q" using live by (auto simp: q_live_def)
  have f: "sub64 (int (hold a)) 1 = int (hold a - 1)"
    using sub64_pos [of "int (hold a)"] live_size(2) [OF inv lim a] h by (simp add: of_nat_diff)
  have fin: "finite (waiting a)" "finite (canc a)" using ok by (auto simp: q_ok_def)
  let ?q1 = "?q\<lparr>qsize := qsize ?q - 1\<rparr>"
  have "woken = (if waiting a = {} then None else Some (Min (waiting a))) \<and>
    ccl_inv lim txs' (hold(a := (if woken = None then hold a - 1 else hold a))) (waiting(a := waiting a - set_option woken)) (canc(a := canc a))"  (is "?w \<and> ?i")
  proof (cases "qsize ?q - 1 = 0")
    case True
    then have "hold a + card (waiting a) + card (canc a) = 1" using ok by (auto simp: q_ok_def)
    then have "hold a = 1" "card (waiting a) = 0" "card (canc a) = 0" using h by linarith+
    then have z: "hold a = 1" "waiting a = {}" "canc a = {}" using fin by simp_all
    have w: "woken = None" using u True s by (simp add: unlock_def unlockLocked_def Let_def)
    have "ccl_inv lim txs' (hold(a := 0)) (waiting(a := {})) (canc(a := {}))"
      by (rule ccl_inv_del [OF inv a, where q' = "?q1\<lparr>onTheFlySize := sub64 (onTheFlySize ?q) 1\<rparr>"])
        (use u True s z(2) in \<open>auto simp: unlock_def unlockLocked_def Let_def put_queue_def\<close>)
    then show ?thesis using w z by simp
  next
    case False
    obtain rest w where r: "recv_loop (closedChans txs) (waitingRequest ?q) = (rest, w)" by fastforce
    let ?q2 = "?q1\<lparr>waitingRequest := rest\<rparr>"
    let ?q' = "if w = None then ?q2\<lparr>onTheFlySize := int (hold a - 1)\<rparr> else ?q2"
    have uw: "woken = w" and t: "txs' = put_queue a ?q' (put_queue a ?q1 (txs\<lparr>currentGlobalSize := sub64 (currentGlobalSize txs) 1\<rparr>))"
      using u False s D(1) fly f r by (auto simp: unlock_def unlockLocked_def Let_def put_queue_def split: if_splits)
    note rel = release_queue [OF ok r h]
    have sub: "set rest \<subseteq> set (waitingRequest ?q)" using recv_loop_cases [OF r] by auto
    have "ccl_inv lim txs' (hold(a := (if w = None then hold a - 1 else hold a))) (waiting(a := waiting a - set_option w)) (canc(a := canc a))"
    proof (rule ccl_inv_put [OF inv a, where q' = ?q'])
      show "q_ok (set (closedChans txs)) ?q' (if w = None then hold a - 1 else hold a) (waiting a - set_option w) (canc a)"
        using rel by (cases "waiting a = {}") (simp_all add: q_ok_def)
      show "q_live ?q' (if w = None then hold a - 1 else hold a) (waiting a - set_option w)"
        using live rel(1) by (auto simp: q_live_def)
      show "(waiting a - set_option w) \<inter> waiting b = {}" if "b \<noteq> a" for b using D(6) [of a b] that by blast
      show "ch < nextChan txs'" if "ch \<in> set (waitingRequest ?q')" for ch
        using that sub D(4) [of ch a] by (auto simp: t put_queue_def split: if_splits)
    qed (simp_all add: t put_queue_def D(2))
    then show ?thesis using rel(1) uw by simp
  qed
  then show "woken = (if waiting a = {} then None else Some (Min (waiting a)))"
    and "ccl_inv lim txs' (hold(a := (if woken = None then hold a - 1 else hold a))) (waiting(a := waiting a - set_option woken)) canc"
    unfolding fun_upd_triv by blast+
qed


lemma ccl_New_inv: "ccl_inv lim (ccl_New False maxGlobal c) (\<lambda>_. 0) (\<lambda>_. {}) (\<lambda>_. {})"
  by (simp add: ccl_inv_def ccl_New_def q_ok_def newQueue_def unit_inv_def NewConsolidatorCache_def NewLRUCache_inv maxInt64_def)
    (simp add: NewLRUCache_def)

lemma ccl_run_inv:
  assumes "ccl_run lim txs hold waiting canc" and lim: "lim_ok lim"
  shows "ccl_inv lim txs hold waiting canc"
  using assms(1)
proof induction
  case (start maxGlobal c) show ?case by (rule ccl_New_inv)
next
  case (rejected txs hold waiting canc key txs1 a woken now tables txs2 e)
  then show ?case using Enter_cases [of lim txs1 hold waiting canc key a now tables] Get_inv [OF rejected.IH lim rejected.hyps(2)] lim by auto
next
  case (admitted txs hold waiting canc key txs1 a woken now tables txs2)
  then show ?case using Enter_cases [of lim txs1 hold waiting canc key a now tables] Get_inv [OF admitted.IH lim admitted.hyps(2)] lim by (auto simp: fun_upd_def)
next
  case (parked txs hold waiting canc key txs1 a woken now tables txs2 ch)
  then show ?case using Enter_cases [of lim txs1 hold waiting canc key a now tables] Get_inv [OF parked.IH lim parked.hyps(2)] lim by (auto simp: fun_upd_def)
next
  case (gives_up txs hold waiting canc ch a)
  then show ?case by (intro gives_up_inv)
next
  case (leaves txs hold waiting canc ch a)
  then show ?case using lim by (intro leaves_inv)
next
  case (release txs hold waiting canc a txs' woken)
  then show ?case using lim by (intro release_inv(2))
qed


section \<open>What the controller promises\<close>




text \<open>Three callers of one key with one slot: the second and the third are parked.\<close>

definition sample_call :: "controller \<Rightarrow> controller \<times> nat \<times> lock_result option" where
  "sample_call txs = (case GetOrCreateQueue ''k'' 3 1 txs of (txs1, a, woken) \<Rightarrow>
     (case Wait_enter 0 a [] txs1 of Ret (txs2, res) \<Rightarrow> (txs2, a, Some res) | Panic \<Rightarrow> (txs1, a, None)))"

definition sample_controller :: "nat \<Rightarrow> controller" where
  "sample_controller n = ((fst \<circ> sample_call) ^^ n) (ccl_New False 10 \<lparr>counts = [], labelCombined = False\<rparr>)"

definition sample_queue :: "int \<Rightarrow> int \<Rightarrow> nat list \<Rightarrow> cc_queue" where
  "sample_queue n fly chs = (newQueue ''k'' 3 1)\<lparr>qsize := n, qcount := n, qmax := n, onTheFlySize := fly, waitingRequest := chs\<rparr>"

definition sample_at :: "controller \<Rightarrow> int \<Rightarrow> cc_queue \<Rightarrow> nat \<Rightarrow> bool" where
  "sample_at txs n q ch \<longleftrightarrow> unit_inv (hot txs) \<and> \<not> ccDryRun txs \<and> currentGlobalSize txs = n \<and> maxGlobalQueueSize txs = 10 \<and>
     ccQueues txs = [(''k'', 0)] \<and> qheap txs 0 = q \<and> nextChan txs = ch"

lemma sample_call_next:
  assumes "sample_at txs n (sample_queue n fly chs) ch" "0 \<le> n" "n < 3" "0 \<le> fly" "fly \<le> 1"
  shows "sample_at (fst (sample_call txs)) (n + 1)
      (if fly < 1 then sample_queue (n + 1) (fly + 1) chs else sample_queue (n + 1) fly (chs @ [ch])) (if fly < 1 then ch else Suc ch)"
    and "snd (sample_call txs) = (0, Some (if fly < 1 then Admitted else Blocked ch))"
proof -
  obtain h where h: "Record 0 ''k'' (hot txs) = Ret h" "unit_inv h" using Record_returns [of "hot txs"] assms(1) unfolding sample_at_def by blast
  have a: "add64 n 1 = n + 1" "add64 fly 1 = fly + 1" using assms by (simp_all add: add64_id maxInt64_def)
  have g: "GetOrCreateQueue ''k'' 3 1 txs = (txs, 0, [])"
    using assms(1) by (simp add: GetOrCreateQueue_def sample_at_def sample_queue_def newQueue_def)
  show "sample_at (fst (sample_call txs)) (n + 1)
      (if fly < 1 then sample_queue (n + 1) (fly + 1) chs else sample_queue (n + 1) fly (chs @ [ch])) (if fly < 1 then ch else Suc ch)"
    "snd (sample_call txs) = (0, Some (if fly < 1 then Admitted else Blocked ch))"
    using assms h a by (simp_all add: sample_call_def g Wait_enter_def lockLocked_eq Let_def sample_at_def sample_queue_def newQueue_def put_queue_def)
qed

lemma sample_first_call:
  "sample_at (sample_controller 1) 1 (sample_queue 1 1 []) 0" "snd (sample_call (sample_controller 0)) = (0, Some Admitted)"
proof -
  have u: "unit_inv (NewConsolidatorCache 1000)" using ccl_New_inv [of "\<lambda>_. (0, 0)"] ccl_invD(2) by (fastforce simp: ccl_New_def)
  obtain h where h: "Record 0 ''k'' (NewConsolidatorCache 1000) = Ret h" "unit_inv h" using Record_returns [OF u] by blast
  have a: "add64 0 1 = 1" by (simp add: add64_id maxInt64_def)
  show "sample_at (sample_controller 1) 1 (sample_queue 1 1 []) 0" "snd (sample_call (sample_controller 0)) = (0, Some Admitted)"
    using h a by (simp_all add: sample_controller_def sample_call_def ccl_New_def GetOrCreateQueue_def Wait_enter_def lockLocked_eq Let_def
      sample_at_def sample_queue_def newQueue_def put_queue_def)
qed

lemma sample_next: "fst (sample_call (sample_controller n)) = sample_controller (Suc n)"
  by (simp add: sample_controller_def)

lemma sample_calls:
  "snd (sample_call (sample_controller 0)) = (0, Some Admitted)" "snd (sample_call (sample_controller 1)) = (0, Some (Blocked 0))"
  "snd (sample_call (sample_controller 2)) = (0, Some (Blocked 1))" "map_of (ccQueues (sample_controller 3)) ''k'' = Some 0"
proof -
  note c1 = sample_call_next [OF sample_first_call(1), simplified sample_next, simplified]
  have s2: "sample_at (sample_controller 2) 2 (sample_queue 2 1 [0]) 1" using c1(1) by (simp add: numeral_2_eq_2)
  note c2 = sample_call_next [OF s2, simplified sample_next, simplified]
  show "snd (sample_call (sample_controller 0)) = (0, Some Admitted)" by (rule sample_first_call)
  show "snd (sample_call (sample_controller 1)) = (0, Some (Blocked 0))" using c1(2) by simp
  show "snd (sample_call (sample_controller 2)) = (0, Some (Blocked 1))" using c2(2) by simp
  show "map_of (ccQueues (sample_controller 3)) ''k'' = Some 0" using c2(1) by (simp add: sample_at_def numeral_3_eq_3 numeral_2_eq_2)
qed

lemma sample_call_steps:
  assumes "ccl_run (\<lambda>_. (3, 1)) txs hold waiting canc"
  shows "snd (sample_call txs) = (a, Some Admitted) \<Longrightarrow> ccl_run (\<lambda>_. (3, 1)) (fst (sample_call txs)) (hold(a := Suc (hold a))) waiting canc"
    and "snd (sample_call txs) = (a, Some (Blocked ch)) \<Longrightarrow> ccl_run (\<lambda>_. (3, 1)) (fst (sample_call txs)) hold (waiting(a := insert ch (waiting a))) canc"
proof -
  obtain txs1 b woken where g: "GetOrCreateQueue ''k'' 3 1 txs = (txs1, b, woken)" by (metis prod_cases3)
  note step = ccl_run.admitted [OF assms, of "''k''" txs1 b woken 0 "[]"] ccl_run.parked [OF assms, of "''k''" txs1 b woken 0 "[]"]
  show "snd (sample_call txs) = (a, Some Admitted) \<Longrightarrow> ccl_run (\<lambda>_. (3, 1)) (fst (sample_call txs)) (hold(a := Suc (hold a))) waiting canc"
    using g step(1) by (auto simp: sample_call_def split: outcome.splits)
  show "snd (sample_call txs) = (a, Some (Blocked ch)) \<Longrightarrow> ccl_run (\<lambda>_. (3, 1)) (fst (sample_call txs)) hold (waiting(a := insert ch (waiting a))) canc"
    using g step(2) by (auto simp: sample_call_def split: outcome.splits)
qed

lemma sample_run:
  "ccl_run (\<lambda>_. (3, 1)) (sample_controller 3) ((\<lambda>_. 0)(0 := Suc 0)) ((\<lambda>_. {})(0 := {1, 0})) (\<lambda>_. {})"
proof -
  have r0: "ccl_run (\<lambda>_. (3, 1)) (sample_controller 0) (\<lambda>_. 0) (\<lambda>_. {}) (\<lambda>_. {})"
    by (simp add: sample_controller_def ccl_run.start)
  from sample_call_steps(1) [OF r0 sample_calls(1)]
  have r1: "ccl_run (\<lambda>_. (3, 1)) (sample_controller 1) ((\<lambda>_. 0)(0 := Suc 0)) (\<lambda>_. {}) (\<lambda>_. {})" by (simp add: sample_next)
  from sample_call_steps(2) [OF r1 sample_calls(2)]
  have r2: "ccl_run (\<lambda>_. (3, 1)) (sample_controller 2) ((\<lambda>_. 0)(0 := Suc 0)) ((\<lambda>_. {})(0 := {0})) (\<lambda>_. {})"
    by (simp add: sample_next numeral_2_eq_2)
  from sample_call_steps(2) [OF r2 sample_calls(3)] show ?thesis by (simp add: sample_next numeral_3_eq_3 numeral_2_eq_2)
qed

lemma sample_lim: "lim_ok (\<lambda>_. (3, 1))"
  by (simp add: lim_ok_def maxInt64_def)




section \<open>Where limits change or the queue is dropped\<close>

text \<open>
  Lowering the limit and raising it again admits more callers than any limit that was ever
  configured: the loop wakes the difference of the two limits, whatever is in flight.
\<close>

lemma resize_overshoots:
  "let q = (newQueue ''k'' 9 3)\<lparr>qsize := 4, onTheFlySize := 3, waitingRequest := [0]\<rparr>;
       (q1, w1) = resizeQueueLocked [] 9 1 q; (q2, w2) = resizeQueueLocked [] 9 2 q1 in
   w1 = [] \<and> w2 = [0] \<and> onTheFlySize q2 = 4 \<and> maxConcurrency q2 = 2"
  by code_simp

text \<open>
  A queue whose last caller gave up while parked is left with \<open>onTheFlySize\<close> one too small, so a
  caller that still holds the pointer is not counted when it is admitted.
\<close>

lemma last_leaver_undercounts:
  assumes "qsize (qheap txs a) = 1" "onTheFlySize (qheap txs a) = 0"
  shows "onTheFlySize (qheap (Wait_failed a txs) a) = - 1"
  using assms by (simp add: Wait_failed_def unlockLocked_def Let_def put_queue_def sub64_def wrap64_def)

end
