(* ===== verification/TxSerializer.thy ===== *)
theory TxSerializer
  imports Consolidator TxLimiter
begin

text \<open>
  Hot row protection, \<open>txserializer/tx_serializer.go\<close>: transactions on the same row range queue up
  and only a few of them run at a time. A queue is an object behind a pointer; its buffered channel
  \<open>availableSlots\<close> is the number of elements in it (\<open>None\<close> before it is made). \<open>Wait\<close> gives up the
  mutex while it waits for room in the channel, so it is several steps; everything else is one.
\<close>

section \<open>State\<close>

record ser_queue =
  sqSize :: int
  sqCount :: int
  sqMax :: int
  availableSlots :: "int option"

record serializer =
  serHot :: consolidator_cache
  serDryRun :: bool
  serMaxQueueSize :: int
  serMaxGlobalQueueSize :: int
  concurrentTransactions :: int
  serWaits :: counters_with_single_label
  serWaitsDryRun :: counters_with_single_label
  serQueueExceeded :: counters_with_single_label
  serQueueExceededDryRun :: counters_with_single_label
  serGlobalExceeded :: int
  serGlobalExceededDryRun :: int
  serQueues :: "(string, nat) gomap"
  globalSize :: int
  serHeap :: "nat \<Rightarrow> ser_queue"
  serNext :: nat

datatype ser_result = SerRejected int int | SerFirst nat | SerPasses nat | SerQueued nat | SerStuck

definition newQueueForFirstTransaction :: ser_queue where
  "newQueueForFirstTransaction = \<lparr>sqSize = 1, sqCount = 1, sqMax = 1, availableSlots = None\<rparr>"

definition ser_New :: "bool \<Rightarrow> int \<Rightarrow> int \<Rightarrow> int \<Rightarrow> counters_with_single_label \<Rightarrow> serializer" where
  "ser_New dry maxQ maxG conc c = \<lparr>serHot = NewConsolidatorCache 1000, serDryRun = dry, serMaxQueueSize = maxQ, serMaxGlobalQueueSize = maxG,
     concurrentTransactions = conc, serWaits = c, serWaitsDryRun = c, serQueueExceeded = c, serQueueExceededDryRun = c, serGlobalExceeded = 0,
     serGlobalExceededDryRun = 0, serQueues = [], globalSize = 0, serHeap = (\<lambda>_. newQueueForFirstTransaction), serNext = 0\<rparr>"

definition put_ser :: "nat \<Rightarrow> ser_queue \<Rightarrow> serializer \<Rightarrow> serializer" where
  "put_ser a q txs = txs\<lparr>serHeap := (serHeap txs)(a := q)\<rparr>"

section \<open>Operations\<close>

text \<open>
  The channel is made when a second transaction arrives, with one element for the first one. A
  channel without room for that element blocks the caller, which holds the mutex; a negative
  capacity panics.
\<close>

definition make_slots :: "int \<Rightarrow> string \<Rightarrow> nat \<Rightarrow> serializer \<Rightarrow> serializer option outcome" where
  "make_slots now key a txs =
     (case availableSlots (serHeap txs a) of
        Some n \<Rightarrow> Ret (Some txs)
      | None \<Rightarrow>
          if concurrentTransactions txs < 0 then Panic
          else if concurrentTransactions txs = 0 then Ret None
          else obind (Record now key (serHot txs)) (\<lambda>h.
            Ret (Some ((put_ser a ((serHeap txs a)\<lparr>availableSlots := Some 1\<rparr>) txs)\<lparr>serHot := h\<rparr>))))"

text \<open>\<open>lockLocked\<close> up to the attempts to get a slot.\<close>

definition ser_lockLocked :: "int \<Rightarrow> string \<Rightarrow> string \<Rightarrow> serializer \<Rightarrow> (serializer \<times> ser_result) outcome" where
  "ser_lockLocked now key tab txs =
     (case map_of (serQueues txs) key of
        None \<Rightarrow>
          let a = serNext txs in
          Ret ((put_ser a newQueueForFirstTransaction txs)
            \<lparr>serQueues := mput key a (serQueues txs), globalSize := add64 (globalSize txs) 1, serNext := Suc a\<rparr>, SerFirst a)
      | Some a \<Rightarrow>
          let globalFull = (globalSize txs \<ge> serMaxGlobalQueueSize txs) in
          if globalFull \<and> \<not> serDryRun txs
          then Ret (txs\<lparr>serGlobalExceeded := add64 (serGlobalExceeded txs) 1\<rparr>, SerRejected (globalSize txs) (serMaxGlobalQueueSize txs))
          else
            let txs1 = (if globalFull then txs\<lparr>serGlobalExceededDryRun := add64 (serGlobalExceededDryRun txs) 1\<rparr> else txs);
                full = (sqSize (serHeap txs1 a) \<ge> serMaxQueueSize txs1) in
            if full \<and> \<not> serDryRun txs1
            then Ret (txs1\<lparr>serQueueExceeded := counters_Add tab 1 (serQueueExceeded txs1)\<rparr>,
              SerRejected (sqSize (serHeap txs1 a)) (serMaxQueueSize txs1))
            else
              let txs2 = (if full then txs1\<lparr>serQueueExceededDryRun := counters_Add tab 1 (serQueueExceededDryRun txs1)\<rparr> else txs1) in
              obind (make_slots now key a txs2) (\<lambda>made. case made of
                  None \<Rightarrow> Ret (txs2, SerStuck)
                | Some txs3 \<Rightarrow>
                    let q = serHeap txs3 a; n = add64 (sqSize q) 1;
                        q1 = q\<lparr>sqSize := n, sqCount := add64 (sqCount q) 1, sqMax := (if n > sqMax q then n else sqMax q)\<rparr>;
                        txs4 = put_ser a q1 (txs3\<lparr>globalSize := add64 (globalSize txs3) 1\<rparr>) in
                    obind (Record now key (serHot txs4)) (\<lambda>h.
                      let txs5 = txs4\<lparr>serHot := h\<rparr> in
                      if serDryRun txs5 then Ret (txs5\<lparr>serWaitsDryRun := counters_Add tab 1 (serWaitsDryRun txs5)\<rparr>, SerPasses a)
                      else Ret (txs5, SerQueued a))))"

text \<open>Sending on the channel, possible when it has room; the first attempt that fails counts a wait.\<close>

definition send_slot :: "nat \<Rightarrow> serializer \<Rightarrow> serializer option" where
  "send_slot a txs =
     (case availableSlots (serHeap txs a) of
        Some n \<Rightarrow> if n < concurrentTransactions txs then Some (put_ser a ((serHeap txs a)\<lparr>availableSlots := Some (n + 1)\<rparr>) txs) else None
      | None \<Rightarrow> None)"

definition count_wait :: "string \<Rightarrow> serializer \<Rightarrow> serializer" where
  "count_wait tab txs = txs\<lparr>serWaits := counters_Add tab 1 (serWaits txs)\<rparr>"

text \<open>\<open>unlockLocked\<close>; \<open>None\<close> when receiving from the channel would block.\<close>

definition ser_unlockLocked :: "string \<Rightarrow> bool \<Rightarrow> serializer \<Rightarrow> serializer option outcome" where
  "ser_unlockLocked key returnSlot txs0 =
     (case map_of (serQueues txs0) key of
        None \<Rightarrow> Panic
      | Some a \<Rightarrow>
          let q = (serHeap txs0 a)\<lparr>sqSize := sub64 (sqSize (serHeap txs0 a)) 1\<rparr>;
              txs = put_ser a q (txs0\<lparr>globalSize := sub64 (globalSize txs0) 1\<rparr>) in
          if sqSize q = 0 then Ret (Some (txs\<lparr>serQueues := mdel key (serQueues txs)\<rparr>))
          else if serDryRun txs then Ret (Some txs)
          else if \<not> returnSlot then Ret (Some txs)
          else (case availableSlots q of
              Some n \<Rightarrow> if 0 < n then Ret (Some (put_ser a (q\<lparr>availableSlots := Some (n - 1)\<rparr>) txs)) else Ret None
            | None \<Rightarrow> Ret None))"

definition ser_Pending :: "string \<Rightarrow> serializer \<Rightarrow> int" where
  "ser_Pending key txs = (case map_of (serQueues txs) key of None \<Rightarrow> 0 | Some a \<Rightarrow> sqSize (serHeap txs a))"


section \<open>Runs\<close>

text \<open>
  \<open>ser_run txs key hold pend canc\<close>: transactions arrived, were queued, got a slot, gave up, left
  and finished. For the queue at address \<open>a\<close>, made for \<open>key a\<close>, \<open>hold a\<close> transactions run, \<open>pend a\<close> try to
  get a slot, and \<open>canc a\<close> gave up and have not left.
\<close>

inductive ser_run :: "serializer \<Rightarrow> (nat \<Rightarrow> string) \<Rightarrow> (nat \<Rightarrow> nat) \<Rightarrow> (nat \<Rightarrow> nat) \<Rightarrow> (nat \<Rightarrow> nat) \<Rightarrow> bool" where
  start: "ser_run (ser_New False maxQ maxG conc c) (\<lambda>_. []) (\<lambda>_. 0) (\<lambda>_. 0) (\<lambda>_. 0)" if "1 \<le> conc" "conc \<le> maxInt64" "maxQ \<le> maxInt64"
| rejected: "ser_run txs keyOf hold pend canc \<Longrightarrow> ser_lockLocked now key tab txs = Ret (txs', SerRejected n m) \<Longrightarrow> ser_run txs' keyOf hold pend canc"
| first: "ser_run txs keyOf hold pend canc \<Longrightarrow> ser_lockLocked now key tab txs = Ret (txs', SerFirst a) \<Longrightarrow>
    ser_run txs' (keyOf(a := key)) (hold(a := 1)) pend canc"
| queued: "ser_run txs keyOf hold pend canc \<Longrightarrow> ser_lockLocked now key tab txs = Ret (txs', SerQueued a) \<Longrightarrow>
    ser_run txs' keyOf hold (pend(a := Suc (pend a))) canc"
| waits: "ser_run txs keyOf hold pend canc \<Longrightarrow> ser_run (count_wait tab txs) keyOf hold pend canc"
| slot: "ser_run txs keyOf hold pend canc \<Longrightarrow> 0 < pend a \<Longrightarrow> send_slot a txs = Some txs' \<Longrightarrow>
    ser_run txs' keyOf (hold(a := Suc (hold a))) (pend(a := pend a - 1)) canc"
| gives_up: "ser_run txs keyOf hold pend canc \<Longrightarrow> 0 < pend a \<Longrightarrow> ser_run txs keyOf hold (pend(a := pend a - 1)) (canc(a := Suc (canc a)))"
| leaves: "ser_run txs keyOf hold pend canc \<Longrightarrow> 0 < canc a \<Longrightarrow> ser_unlockLocked (keyOf a) False txs = Ret (Some txs') \<Longrightarrow>
    ser_run txs' keyOf hold pend (canc(a := canc a - 1))"
| finishes: "ser_run txs keyOf hold pend canc \<Longrightarrow> 0 < hold a \<Longrightarrow> ser_unlockLocked (keyOf a) True txs = Ret (Some txs') \<Longrightarrow>
    ser_run txs' keyOf (hold(a := hold a - 1)) pend canc"

definition slots_ok :: "int \<Rightarrow> int \<Rightarrow> ser_queue \<Rightarrow> nat \<Rightarrow> nat \<Rightarrow> nat \<Rightarrow> bool" where
  "slots_ok conc maxQ q h p c \<longleftrightarrow> 0 < h + p + c \<and> sqSize q = int (h + p + c) \<and> sqSize q \<le> max 1 maxQ \<and>
     (case availableSlots q of None \<Rightarrow> h = 1 \<and> p = 0 \<and> c = 0 | Some n \<Rightarrow> n = int h \<and> int h \<le> conc)"

definition ser_inv :: "serializer \<Rightarrow> (nat \<Rightarrow> string) \<Rightarrow> (nat \<Rightarrow> nat) \<Rightarrow> (nat \<Rightarrow> nat) \<Rightarrow> (nat \<Rightarrow> nat) \<Rightarrow> bool" where
  "ser_inv txs keyOf hold pend canc \<longleftrightarrow> \<not> serDryRun txs \<and> 1 \<le> concurrentTransactions txs \<and> concurrentTransactions txs \<le> maxInt64 \<and>
     serMaxQueueSize txs \<le> maxInt64 \<and> unit_inv (serHot txs) \<and>
     (\<forall>a. 0 < hold a + pend a + canc a \<longrightarrow> map_of (serQueues txs) (keyOf a) = Some a) \<and>
     (\<forall>k a. map_of (serQueues txs) k = Some a \<longrightarrow> a < serNext txs \<and> keyOf a = k \<and>
        slots_ok (concurrentTransactions txs) (serMaxQueueSize txs) (serHeap txs a) (hold a) (pend a) (canc a))"

lemma ser_invD:
  assumes "ser_inv txs keyOf hold pend canc"
  shows "\<not> serDryRun txs" "1 \<le> concurrentTransactions txs" "concurrentTransactions txs \<le> maxInt64" "serMaxQueueSize txs \<le> maxInt64" "unit_inv (serHot txs)"
    "0 < hold a + pend a + canc a \<Longrightarrow> map_of (serQueues txs) (keyOf a) = Some a"
    "map_of (serQueues txs) k = Some a \<Longrightarrow> a < serNext txs \<and> keyOf a = k \<and>
        slots_ok (concurrentTransactions txs) (serMaxQueueSize txs) (serHeap txs a) (hold a) (pend a) (canc a)"
proof -
  have A: "\<forall>a. 0 < hold a + pend a + canc a \<longrightarrow> map_of (serQueues txs) (keyOf a) = Some a"
    and B: "\<forall>k a. map_of (serQueues txs) k = Some a \<longrightarrow> a < serNext txs \<and> keyOf a = k \<and>
        slots_ok (concurrentTransactions txs) (serMaxQueueSize txs) (serHeap txs a) (hold a) (pend a) (canc a)"
    using assms by (simp_all add: ser_inv_def)
  show "0 < hold a + pend a + canc a \<Longrightarrow> map_of (serQueues txs) (keyOf a) = Some a" by (rule A [rule_format])
  show "map_of (serQueues txs) k = Some a \<Longrightarrow> a < serNext txs \<and> keyOf a = k \<and>
        slots_ok (concurrentTransactions txs) (serMaxQueueSize txs) (serHeap txs a) (hold a) (pend a) (canc a)"
    using B by blast
qed (use assms in \<open>simp_all add: ser_inv_def\<close>)

lemma ser_inv_put:
  assumes inv: "ser_inv txs keyOf hold pend canc" and a: "map_of (serQueues txs) k = Some a"
    and same: "serHeap txs' = (serHeap txs)(a := q')" "serQueues txs' = serQueues txs" "serNext txs' = serNext txs" "serDryRun txs' = serDryRun txs"
      "concurrentTransactions txs' = concurrentTransactions txs" "serMaxQueueSize txs' = serMaxQueueSize txs" "unit_inv (serHot txs')"
    and q': "slots_ok (concurrentTransactions txs) (serMaxQueueSize txs) q' h p c"
  shows "ser_inv txs' keyOf (hold(a := h)) (pend(a := p)) (canc(a := c))"
  unfolding ser_inv_def same(2-6)
proof (intro conjI allI impI)
  note D = ser_invD [OF inv]
  show "\<not> serDryRun txs" "1 \<le> concurrentTransactions txs" "concurrentTransactions txs \<le> maxInt64" "serMaxQueueSize txs \<le> maxInt64" "unit_inv (serHot txs')"
    using D(1-4) same(7) by auto
  show "map_of (serQueues txs) (keyOf b) = Some b" if "0 < (hold(a := h)) b + (pend(a := p)) b + (canc(a := c)) b" for b
    using D(6) [of b] D(7) [OF a] a that by (cases "b = a") auto
  show "b < serNext txs" "keyOf b = l" "slots_ok (concurrentTransactions txs) (serMaxQueueSize txs) (serHeap txs' b) ((hold(a := h)) b) ((pend(a := p)) b) ((canc(a := c)) b)"
    if "map_of (serQueues txs) l = Some b" for l b
    using D(7) [OF that] q' by (simp_all add: same(1))
qed

lemma ser_inv_del:
  assumes inv: "ser_inv txs keyOf hold pend canc" and a: "map_of (serQueues txs) k = Some a"
    and same: "\<And>b. b \<noteq> a \<Longrightarrow> serHeap txs' b = serHeap txs b" "serQueues txs' = mdel k (serQueues txs)" "serNext txs' = serNext txs" "serDryRun txs' = serDryRun txs"
      "concurrentTransactions txs' = concurrentTransactions txs" "serMaxQueueSize txs' = serMaxQueueSize txs" "serHot txs' = serHot txs"
  shows "ser_inv txs' keyOf (hold(a := 0)) (pend(a := 0)) (canc(a := 0))"
  unfolding ser_inv_def same(2-7)
proof (intro conjI allI impI)
  note D = ser_invD [OF inv]
  show "\<not> serDryRun txs" "1 \<le> concurrentTransactions txs" "concurrentTransactions txs \<le> maxInt64" "serMaxQueueSize txs \<le> maxInt64" "unit_inv (serHot txs)"
    using D(1-5) by auto
  have k: "keyOf a = k" using D(7) [OF a] by blast
  show "map_of (mdel k (serQueues txs)) (keyOf b) = Some b" if "0 < (hold(a := 0)) b + (pend(a := 0)) b + (canc(a := 0)) b" for b
  proof -
    have ne: "b \<noteq> a" using that by auto
    then have "map_of (serQueues txs) (keyOf b) = Some b" using that D(6) [of b] by simp
    moreover from this have "keyOf b \<noteq> k" using a ne by auto
    ultimately show ?thesis by simp
  qed
  show "b < serNext txs" "keyOf b = l" "slots_ok (concurrentTransactions txs) (serMaxQueueSize txs) (serHeap txs' b) ((hold(a := 0)) b) ((pend(a := 0)) b) ((canc(a := 0)) b)"
    if m: "map_of (mdel k (serQueues txs)) l = Some b" for l b
  proof -
    have l: "l \<noteq> k" "map_of (serQueues txs) l = Some b" using m by (auto split: if_splits)
    have "b \<noteq> a" using D(7) [OF l(2)] k l(1) by auto
    then show "b < serNext txs" "keyOf b = l" "slots_ok (concurrentTransactions txs) (serMaxQueueSize txs) (serHeap txs' b) ((hold(a := 0)) b) ((pend(a := 0)) b) ((canc(a := 0)) b)"
      using D(7) [OF l(2)] same(1) by simp_all
  qed
qed

lemma ser_inv_new:
  assumes inv: "ser_inv txs keyOf hold pend canc" and none: "map_of (serQueues txs) k = None"
    and same: "serHeap txs' = (serHeap txs)(serNext txs := newQueueForFirstTransaction)" "serQueues txs' = mput k (serNext txs) (serQueues txs)"
      "serNext txs' = Suc (serNext txs)" "serDryRun txs' = serDryRun txs"
      "concurrentTransactions txs' = concurrentTransactions txs" "serMaxQueueSize txs' = serMaxQueueSize txs" "serHot txs' = serHot txs"
  shows "ser_inv txs' (keyOf(serNext txs := k)) (hold(serNext txs := 1)) pend canc"
  unfolding ser_inv_def same(2-7)
proof (intro conjI allI impI)
  note D = ser_invD [OF inv]
  let ?a = "serNext txs"
  show "\<not> serDryRun txs" "1 \<le> concurrentTransactions txs" "concurrentTransactions txs \<le> maxInt64" "serMaxQueueSize txs \<le> maxInt64" "unit_inv (serHot txs)"
    using D(1-5) by auto
  have z: "hold ?a = 0 \<and> pend ?a = 0 \<and> canc ?a = 0" using D(6) [of ?a] D(7) by (metis add_is_0 less_irrefl neq0_conv)
  show "map_of (mput k ?a (serQueues txs)) ((keyOf(?a := k)) b) = Some b" if "0 < (hold(?a := 1)) b + pend b + canc b" for b
    using that D(6) [of b] none by (cases "b = ?a") auto
  show "b < Suc ?a" "(keyOf(?a := k)) b = l" "slots_ok (concurrentTransactions txs) (serMaxQueueSize txs) (serHeap txs' b) ((hold(?a := 1)) b) (pend b) (canc b)"
    if m: "map_of (mput k ?a (serQueues txs)) l = Some b" for l b
  proof -
    have "(l = k \<and> b = ?a) \<or> (b \<noteq> ?a \<and> map_of (serQueues txs) l = Some b)" using m D(7) [of l b] by (auto split: if_splits)
    then show "b < Suc ?a" "(keyOf(?a := k)) b = l" "slots_ok (concurrentTransactions txs) (serMaxQueueSize txs) (serHeap txs' b) ((hold(?a := 1)) b) (pend b) (canc b)"
      using D(7) [of l b] z by (auto simp: same(1) slots_ok_def newQueueForFirstTransaction_def)
  qed
qed

lemma ser_inv_cong:
  assumes "ser_inv txs keyOf hold pend canc" "serHeap txs' = serHeap txs" "serQueues txs' = serQueues txs" "serNext txs' = serNext txs"
    "serDryRun txs' = serDryRun txs" "concurrentTransactions txs' = concurrentTransactions txs" "serMaxQueueSize txs' = serMaxQueueSize txs" "serHot txs' = serHot txs"
  shows "ser_inv txs' keyOf hold pend canc"
  using assms(1) unfolding ser_inv_def assms(2-) .


section \<open>Every step keeps the invariant\<close>

lemma lock_cases:
  assumes inv: "ser_inv txs keyOf hold pend canc"
  shows "\<exists>txs' res. ser_lockLocked now key tab txs = Ret (txs', res) \<and>
    (case res of SerRejected n m \<Rightarrow> ser_inv txs' keyOf hold pend canc
     | SerFirst a \<Rightarrow> ser_inv txs' (keyOf(a := key)) (hold(a := 1)) pend canc
     | SerQueued a \<Rightarrow> ser_inv txs' keyOf hold (pend(a := Suc (pend a))) canc
     | _ \<Rightarrow> False)"
proof (cases "map_of (serQueues txs) key")
  case None
  let ?a = "serNext txs"
  let ?t = "(put_ser ?a newQueueForFirstTransaction txs)
    \<lparr>serQueues := mput key ?a (serQueues txs), globalSize := add64 (globalSize txs) 1, serNext := Suc ?a\<rparr>"
  have "ser_lockLocked now key tab txs = Ret (?t, SerFirst ?a)" using None by (simp add: ser_lockLocked_def Let_def)
  moreover have "ser_inv ?t (keyOf(?a := key)) (hold(?a := 1)) pend canc" by (rule ser_inv_new [OF inv None]) (simp_all add: put_ser_def)
  ultimately show ?thesis by simp
next
  case (Some a)
  note D = ser_invD [OF inv]
  let ?q = "serHeap txs a"
  show ?thesis
  proof (cases "globalSize txs \<ge> serMaxGlobalQueueSize txs \<or> sqSize ?q \<ge> serMaxQueueSize txs")
    case True
    then show ?thesis using Some D(1) ser_inv_cong [OF inv] by (auto simp: ser_lockLocked_def Let_def)
  next
    case False
    have ok: "slots_ok (concurrentTransactions txs) (serMaxQueueSize txs) ?q (hold a) (pend a) (canc a)" using D(7) [OF Some] by blast
    have n: "add64 (sqSize ?q) 1 = sqSize ?q + 1"
      using False D(4) ok by (intro add64_id) (auto simp: slots_ok_def maxInt64_def)
    obtain txs3 m where made: "make_slots now key a txs = Ret (Some txs3)" "serHeap txs3 = (serHeap txs)(a := ?q\<lparr>availableSlots := Some (int (hold a))\<rparr>)"
      "serQueues txs3 = serQueues txs" "serNext txs3 = serNext txs" "serDryRun txs3 = serDryRun txs" "globalSize txs3 = m"
      "concurrentTransactions txs3 = concurrentTransactions txs" "serMaxQueueSize txs3 = serMaxQueueSize txs" "unit_inv (serHot txs3)"
    proof (cases "availableSlots ?q")
      case None
      obtain h where h: "Record now key (serHot txs) = Ret h" "unit_inv h" using Record_returns [OF D(5)] by blast
      have "hold a = 1" using ok None by (simp add: slots_ok_def)
      then show thesis using that [of "(put_ser a (?q\<lparr>availableSlots := Some 1\<rparr>) txs)\<lparr>serHot := h\<rparr>"] None h D(2) by (simp add: make_slots_def put_ser_def)
    next
      case (Some n)
      then have "?q\<lparr>availableSlots := Some (int (hold a))\<rparr> = ?q" using ok by (simp add: slots_ok_def)
      then show thesis using that [of txs] Some D(5) by (simp add: make_slots_def)
    qed
    obtain h where h: "Record now key (serHot txs3) = Ret h" "unit_inv h" using Record_returns [OF made(9)] by blast
    have q3: "serHeap txs3 a = ?q\<lparr>availableSlots := Some (int (hold a))\<rparr>" by (simp add: made(2))
    define q1 where "q1 = ?q\<lparr>availableSlots := Some (int (hold a)), sqSize := sqSize ?q + 1, sqCount := add64 (sqCount ?q) 1,
      sqMax := (if sqSize ?q + 1 > sqMax ?q then sqSize ?q + 1 else sqMax ?q)\<rparr>"
    define t where "t = (put_ser a q1 (txs3\<lparr>globalSize := add64 m 1\<rparr>))\<lparr>serHot := h\<rparr>"
    have e: "ser_lockLocked now key tab txs = Ret (t, SerQueued a)"
      using Some False D(1) made(1,5,6) h(1) n by (simp add: ser_lockLocked_def Let_def q3 q1_def t_def put_ser_def)
    have le: "int (hold a) \<le> concurrentTransactions txs" using ok D(2) by (auto simp: slots_ok_def split: option.splits)
    have "slots_ok (concurrentTransactions txs) (serMaxQueueSize txs) q1 (hold a) (Suc (pend a)) (canc a)"
      using ok le False by (auto simp: slots_ok_def q1_def)
    then have "ser_inv t keyOf (hold(a := hold a)) (pend(a := Suc (pend a))) (canc(a := canc a))"
      using made h(2) by (intro ser_inv_put [OF inv Some, where q' = q1]) (simp_all add: t_def put_ser_def)
    then show ?thesis using e by simp
  qed
qed

lemma send_inv:
  assumes inv: "ser_inv txs keyOf hold pend canc" and p: "0 < pend a"
  shows "send_slot a txs = None \<longleftrightarrow> int (hold a) = concurrentTransactions txs"
    and "send_slot a txs = Some txs' \<Longrightarrow> ser_inv txs' keyOf (hold(a := Suc (hold a))) (pend(a := pend a - 1)) canc"
proof -
  note D = ser_invD [OF inv]
  let ?q = "serHeap txs a"
  have a: "map_of (serQueues txs) (keyOf a) = Some a" using D(6) [of a] p by simp
  have ok: "slots_ok (concurrentTransactions txs) (serMaxQueueSize txs) ?q (hold a) (pend a) (canc a)" using D(7) [OF a] by blast
  then have s: "availableSlots ?q = Some (int (hold a))" "int (hold a) \<le> concurrentTransactions txs"
    using p by (auto simp: slots_ok_def split: option.splits)
  show "send_slot a txs = None \<longleftrightarrow> int (hold a) = concurrentTransactions txs" using s by (auto simp: send_slot_def)
  assume "send_slot a txs = Some txs'"
  then have t: "txs' = put_ser a (?q\<lparr>availableSlots := Some (int (hold a) + 1)\<rparr>) txs" "int (hold a) < concurrentTransactions txs"
    using s by (auto simp: send_slot_def split: if_splits)
  have "slots_ok (concurrentTransactions txs) (serMaxQueueSize txs) (?q\<lparr>availableSlots := Some (int (hold a) + 1)\<rparr>) (Suc (hold a)) (pend a - 1) (canc a)"
    using ok p t(2) by (auto simp: slots_ok_def)
  then have "ser_inv txs' keyOf (hold(a := Suc (hold a))) (pend(a := pend a - 1)) (canc(a := canc a))"
    by (intro ser_inv_put [OF inv a]) (simp_all add: t put_ser_def D(5))
  then show "ser_inv txs' keyOf (hold(a := Suc (hold a))) (pend(a := pend a - 1)) canc" by simp
qed

text \<open>A transaction that leaves, with or without a slot, neither panics nor blocks.\<close>

lemma unlock_inv:
  assumes inv: "ser_inv txs keyOf hold pend canc" and r: "if returnSlot then 0 < hold a else 0 < canc a"
  shows "\<exists>txs'. ser_unlockLocked (keyOf a) returnSlot txs = Ret (Some txs') \<and>
    ser_inv txs' keyOf (hold(a := (if returnSlot then hold a - 1 else hold a))) pend (canc(a := (if returnSlot then canc a else canc a - 1)))"
proof -
  note D = ser_invD [OF inv]
  define q h c where "q = serHeap txs a" and "h = (if returnSlot then hold a - 1 else hold a)" and "c = (if returnSlot then canc a else canc a - 1)"
  have slot: "returnSlot \<Longrightarrow> int (hold a) - 1 = int h \<and> 0 < int (hold a)" "\<not> returnSlot \<Longrightarrow> hold a = h" using r by (auto simp: h_def)
  have a: "map_of (serQueues txs) (keyOf a) = Some a" using D(6) [of a] r by (simp split: if_splits)
  have ok: "slots_ok (concurrentTransactions txs) (serMaxQueueSize txs) q (hold a) (pend a) (canc a)" using D(7) [OF a] by (simp add: q_def)
  have one: "hold a + pend a + canc a = Suc (h + pend a + c)" "h \<le> hold a" using r by (auto simp: h_def c_def)
  have size: "sqSize q = int (Suc (h + pend a + c))" "sqSize q \<le> max 1 (serMaxQueueSize txs)" using ok one by (simp_all add: slots_ok_def)
  then have s: "sub64 (sqSize q) 1 = int (h + pend a + c)" using D(4) by (subst sub64_id) (auto simp: maxInt64_def)
  define q1 where "q1 = q\<lparr>sqSize := int (h + pend a + c)\<rparr>"
  define t where "t = put_ser a q1 (txs\<lparr>globalSize := sub64 (globalSize txs) 1\<rparr>)"
  have t_simps: "serHeap t = (serHeap txs)(a := q1)" "serQueues t = serQueues txs" "serNext t = serNext txs" "serDryRun t = serDryRun txs" "serHot t = serHot txs"
    "concurrentTransactions t = concurrentTransactions txs" "serMaxQueueSize t = serMaxQueueSize txs" by (simp_all add: t_def put_ser_def)
  have eq: "ser_unlockLocked (keyOf a) returnSlot txs =
      (if h + pend a + c = 0 then Ret (Some (t\<lparr>serQueues := mdel (keyOf a) (serQueues txs)\<rparr>))
       else if \<not> returnSlot then Ret (Some t)
       else case availableSlots q of Some n \<Rightarrow> if 0 < n then Ret (Some (put_ser a (q1\<lparr>availableSlots := Some (n - 1)\<rparr>) t)) else Ret None | None \<Rightarrow> Ret None)"
  proof -
    have q1: "(serHeap txs a)\<lparr>sqSize := sub64 (sqSize (serHeap txs a)) 1\<rparr> = q1" unfolding q1_def q_def [symmetric] s ..
    have z: "sqSize q1 = 0 \<longleftrightarrow> h + pend a + c = 0" "availableSlots q1 = availableSlots q" by (simp_all add: q1_def del: of_nat_add)
    show ?thesis unfolding ser_unlockLocked_def a option.case Let_def q1 t_def [symmetric] z t_simps(2,4) using D(1) by simp
  qed
  have "\<exists>txs'. ser_unlockLocked (keyOf a) returnSlot txs = Ret (Some txs') \<and> ser_inv txs' keyOf (hold(a := h)) (pend(a := pend a)) (canc(a := c))"
  proof (cases "h + pend a + c = 0")
    case True
    let ?t = "t\<lparr>serQueues := mdel (keyOf a) (serQueues txs)\<rparr>"
    have "ser_inv ?t keyOf (hold(a := 0)) (pend(a := 0)) (canc(a := 0))" by (rule ser_inv_del [OF inv a]) (simp_all add: t_simps)
    moreover have "h = 0" "c = 0" "pend a = 0" using True by auto
    ultimately show ?thesis using eq by simp
  next
    case False
    have sl: "availableSlots q = Some (int (hold a))" "int (hold a) \<le> concurrentTransactions txs"
      using ok one False by (auto simp: slots_ok_def split: option.splits)
    define q2 where "q2 = q1\<lparr>availableSlots := Some (int h)\<rparr>"
    have ok2: "slots_ok (concurrentTransactions txs) (serMaxQueueSize txs) q2 h (pend a) c"
      using size one(2) False sl(2) by (simp add: slots_ok_def q2_def q1_def)
    show ?thesis
    proof (cases returnSlot)
      case True
      have "ser_unlockLocked (keyOf a) returnSlot txs = Ret (Some (put_ser a q2 t))" unfolding eq if_not_P [OF False] using True sl(1) slot(1) by (simp add: q2_def)
      moreover have "ser_inv (put_ser a q2 t) keyOf (hold(a := h)) (pend(a := pend a)) (canc(a := c))"
        by (rule ser_inv_put [OF inv a _ _ _ _ _ _ _ ok2]) (simp_all add: put_ser_def t_simps D(5))
      ultimately show ?thesis by blast
    next
      case no: False
      have "q2 = q1" using sl(1) slot(2) [OF no] by (simp add: q2_def q1_def)
      then have "ser_inv t keyOf (hold(a := h)) (pend(a := pend a)) (canc(a := c))"
        using ok2 by (intro ser_inv_put [OF inv a, where q' = q1]) (simp_all add: t_simps D(5))
      then show ?thesis unfolding eq if_not_P [OF False] using no by simp
    qed
  qed
  then show ?thesis unfolding fun_upd_triv h_def c_def .
qed

lemma gives_up_ser_inv:
  assumes inv: "ser_inv txs keyOf hold pend canc" and p: "0 < pend a"
  shows "ser_inv txs keyOf hold (pend(a := pend a - 1)) (canc(a := Suc (canc a)))"
proof -
  note D = ser_invD [OF inv]
  have a: "map_of (serQueues txs) (keyOf a) = Some a" using D(6) [of a] p by simp
  have "slots_ok (concurrentTransactions txs) (serMaxQueueSize txs) (serHeap txs a) (hold a) (pend a) (canc a)" using D(7) [OF a] by blast
  then have "slots_ok (concurrentTransactions txs) (serMaxQueueSize txs) (serHeap txs a) (hold a) (pend a - 1) (Suc (canc a))"
    using p by (auto simp: slots_ok_def split: option.splits)
  then have "ser_inv txs keyOf (hold(a := hold a)) (pend(a := pend a - 1)) (canc(a := Suc (canc a)))"
    by (intro ser_inv_put [OF inv a, where q' = "serHeap txs a"]) (simp_all add: D(5))
  then show ?thesis by simp
qed

lemma ser_New_inv:
  assumes "1 \<le> conc" "conc \<le> maxInt64" "maxQ \<le> maxInt64"
  shows "ser_inv (ser_New False maxQ maxG conc c) (\<lambda>_. []) (\<lambda>_. 0) (\<lambda>_. 0) (\<lambda>_. 0)"
proof -
  have "unit_inv (NewConsolidatorCache 1000)"
    by (simp add: unit_inv_def NewConsolidatorCache_def NewLRUCache_inv maxInt64_def) (simp add: NewLRUCache_def)
  then show ?thesis using assms by (simp add: ser_inv_def ser_New_def)
qed

lemma ser_run_inv: "ser_run txs keyOf hold pend canc \<Longrightarrow> ser_inv txs keyOf hold pend canc"
proof (induction rule: ser_run.induct)
  case (start conc maxQ maxG c)
  then show ?case by (intro ser_New_inv)
next
  case (rejected txs keyOf hold pend canc now key tab txs' n m)
  then show ?case using lock_cases [OF rejected.IH, of now key tab] by auto
next
  case (first txs keyOf hold pend canc now key tab txs' a)
  show ?case using lock_cases [OF first.IH, of now key tab] first.hyps(2) by (auto simp: fun_upd_def)
next
  case (queued txs keyOf hold pend canc now key tab txs' a)
  show ?case using lock_cases [OF queued.IH, of now key tab] queued.hyps(2) by (auto simp: fun_upd_def)
next
  case (waits txs keyOf hold pend canc tab)
  show ?case by (rule ser_inv_cong [OF waits.IH]) (simp_all add: count_wait_def)
next
  case (slot txs keyOf hold pend canc a txs')
  then show ?case by (intro send_inv(2))
next
  case (gives_up txs keyOf hold pend canc a)
  then show ?case by (intro gives_up_ser_inv)
next
  case (leaves txs keyOf hold pend canc a txs')
  then show ?case using unlock_inv [OF leaves.IH, of False a] by (simp add: fun_upd_def)
next
  case (finishes txs keyOf hold pend canc a txs')
  then show ?case using unlock_inv [OF finishes.IH, of True a] by (simp add: fun_upd_def)
qed


section \<open>What the serializer promises\<close>

text \<open>
  C7. In every run at most \<open>concurrentTransactions\<close> transactions of a row range run at a time,
  \<open>Pending\<close> counts exactly those that run, wait or are about to leave and stays within the queue
  limit, a waiting transaction can take a slot exactly when one is free, and a transaction that
  finishes or leaves neither panics nor blocks.
\<close>

theorem hot_row_serialized:
  assumes run: "ser_run txs keyOf hold pend canc"
  shows "int (hold a) \<le> concurrentTransactions txs \<and>
    (case map_of (serQueues txs) key of
       Some b \<Rightarrow> keyOf b = key \<and> ser_Pending key txs = int (hold b + pend b + canc b) \<and> ser_Pending key txs \<le> max 1 (serMaxQueueSize txs)
     | None \<Rightarrow> \<forall>b. keyOf b = key \<longrightarrow> hold b + pend b + canc b = 0) \<and>
    (0 < pend a \<longrightarrow> (send_slot a txs \<noteq> None \<longleftrightarrow> int (hold a) < concurrentTransactions txs)) \<and>
    (0 < hold a \<longrightarrow> (\<exists>txs'. ser_unlockLocked (keyOf a) True txs = Ret (Some txs'))) \<and>
    (0 < canc a \<longrightarrow> (\<exists>txs'. ser_unlockLocked (keyOf a) False txs = Ret (Some txs')))"
proof (intro conjI impI)
  have inv: "ser_inv txs keyOf hold pend canc" by (rule ser_run_inv [OF run])
  note D = ser_invD [OF inv]
  show le: "int (hold a) \<le> concurrentTransactions txs"
  proof (cases "hold a = 0")
    case False
    then have "map_of (serQueues txs) (keyOf a) = Some a" using D(6) [of a] by simp
    then have "slots_ok (concurrentTransactions txs) (serMaxQueueSize txs) (serHeap txs a) (hold a) (pend a) (canc a)" using D(7) by blast
    then show ?thesis using D(2) by (auto simp: slots_ok_def split: option.splits)
  qed (use D(2) in simp)
  show "case map_of (serQueues txs) key of
       Some b \<Rightarrow> keyOf b = key \<and> ser_Pending key txs = int (hold b + pend b + canc b) \<and> ser_Pending key txs \<le> max 1 (serMaxQueueSize txs)
     | None \<Rightarrow> \<forall>b. keyOf b = key \<longrightarrow> hold b + pend b + canc b = 0"
  proof (cases "map_of (serQueues txs) key")
    case None
    have "hold b + pend b + canc b = 0" if "keyOf b = key" for b using D(6) [of b] None that by (cases "hold b + pend b + canc b") auto
    then show ?thesis using None by simp
  next
    case (Some b)
    then show ?thesis using D(7) [OF Some] by (simp add: ser_Pending_def slots_ok_def)
  qed
  show "send_slot a txs \<noteq> None \<longleftrightarrow> int (hold a) < concurrentTransactions txs" if "0 < pend a" using send_inv(1) [OF inv that] le by auto
  show "\<exists>txs'. ser_unlockLocked (keyOf a) True txs = Ret (Some txs')" if "0 < hold a" using unlock_inv [OF inv, of True a] that by auto
  show "\<exists>txs'. ser_unlockLocked (keyOf a) False txs = Ret (Some txs')" if "0 < canc a" using unlock_inv [OF inv, of False a] that by auto
qed

text \<open>One transaction alone on its row range.\<close>

definition sample_serializer :: serializer where
  "sample_serializer = fst (case ser_lockLocked 0 ''t where id = 1'' ''t'' (ser_New False 20 1000 5 \<lparr>counts = [], labelCombined = False\<rparr>) of
     Ret r \<Rightarrow> r | Panic \<Rightarrow> (ser_New False 20 1000 5 \<lparr>counts = [], labelCombined = False\<rparr>, SerStuck))"

lemma sample_ser_run: "ser_run sample_serializer ((\<lambda>_. [])(0 := ''t where id = 1'')) ((\<lambda>_. 0)(0 := 1)) (\<lambda>_. 0) (\<lambda>_. 0)"
proof -
  have "ser_run (ser_New False 20 1000 5 \<lparr>counts = [], labelCombined = False\<rparr>) (\<lambda>_. []) (\<lambda>_. 0) (\<lambda>_. 0) (\<lambda>_. 0)"
    by (rule ser_run.start) (simp_all add: maxInt64_def)
  moreover have "ser_lockLocked 0 ''t where id = 1'' ''t'' (ser_New False 20 1000 5 \<lparr>counts = [], labelCombined = False\<rparr>) = Ret (sample_serializer, SerFirst 0)"
    by (simp add: sample_serializer_def ser_lockLocked_def ser_New_def)
  ultimately show ?thesis by (rule ser_run.first)
qed

theorem hot_row_serialized_witness: "\<exists>txs'. ser_unlockLocked ''t where id = 1'' True sample_serializer = Ret (Some txs')"
  using hot_row_serialized [OF sample_ser_run, of 0 "[]"] by simp

text \<open>A capacity of zero, which the check of the configuration excludes, would block with the mutex held.\<close>

lemma zero_concurrency_deadlocks:
  assumes "map_of (serQueues txs) key = Some a" "availableSlots (serHeap txs a) = None" "concurrentTransactions txs = 0" "\<not> serDryRun txs"
    and "globalSize txs < serMaxGlobalQueueSize txs" "sqSize (serHeap txs a) < serMaxQueueSize txs"
  shows "ser_lockLocked now key tab txs = Ret (txs, SerStuck)"
  using assms by (simp add: ser_lockLocked_def make_slots_def Let_def)

end
