(* ===== verification/TxPreparedPool.thy ===== *)
theory TxPreparedPool
  imports Prelude
begin

text \<open>
  The pool of prepared transactions of two-phase commit (\<open>tx_prep_pool.go\<close>) and the calls that use it
  (\<open>Prepare\<close>, \<open>CommitPrepared\<close> and \<open>RollbackPrepared\<close> of \<open>tx_executor.go\<close>). Connections are numbers.
  Whether a step against the database succeeds is an argument, and what a call does to a connection
  is an action it returns. The methods of the pool hold its mutex and are atomic; runs interleave them.
\<close>

section \<open>The pool\<close>

datatype prep_state = errPrepCommitting | errPrepFailed

datatype put_error = DuplicateDtid string | LimitExceeded int

record prepared_pool =
  ppConns :: "(string, nat) gomap"
  ppReserved :: "(string, prep_state) gomap"
  ppCapacity :: int

definition NewTxPreparedPool :: "int \<Rightarrow> prepared_pool" where
  "NewTxPreparedPool capacity = \<lparr>ppConns = [], ppReserved = [], ppCapacity = (if capacity < 0 then 0 else capacity)\<rparr>"

definition pp_Put :: "prepared_pool \<Rightarrow> nat \<Rightarrow> string \<Rightarrow> prepared_pool \<times> put_error option" where
  "pp_Put pp c dtid =
     (if map_of (ppReserved pp) dtid \<noteq> None then (pp, Some (DuplicateDtid dtid))
      else if map_of (ppConns pp) dtid \<noteq> None then (pp, Some (DuplicateDtid dtid))
      else if int (length (ppConns pp)) \<ge> ppCapacity pp then (pp, Some (LimitExceeded (ppCapacity pp)))
      else (pp\<lparr>ppConns := mput dtid c (ppConns pp)\<rparr>, None))"

definition FetchForRollback :: "prepared_pool \<Rightarrow> string \<Rightarrow> prepared_pool \<times> nat option" where
  "FetchForRollback pp dtid =
     (if map_of (ppReserved pp) dtid \<noteq> None then (pp\<lparr>ppReserved := mdel dtid (ppReserved pp)\<rparr>, None)
      else (pp\<lparr>ppConns := mdel dtid (ppConns pp)\<rparr>, map_of (ppConns pp) dtid))"

definition FetchForCommit :: "prepared_pool \<Rightarrow> string \<Rightarrow> prepared_pool \<times> (prep_state + nat option)" where
  "FetchForCommit pp dtid = (case map_of (ppReserved pp) dtid of
       Some e \<Rightarrow> (pp, Inl e)
     | None \<Rightarrow> (case map_of (ppConns pp) dtid of
         Some c \<Rightarrow> (pp\<lparr>ppConns := mdel dtid (ppConns pp), ppReserved := mput dtid errPrepCommitting (ppReserved pp)\<rparr>, Inr (Some c))
       | None \<Rightarrow> (pp, Inr None)))"

definition SetFailed :: "prepared_pool \<Rightarrow> string \<Rightarrow> prepared_pool" where
  "SetFailed pp dtid = pp\<lparr>ppReserved := mput dtid errPrepFailed (ppReserved pp)\<rparr>"

definition Forget :: "prepared_pool \<Rightarrow> string \<Rightarrow> prepared_pool" where
  "Forget pp dtid = pp\<lparr>ppReserved := mdel dtid (ppReserved pp)\<rparr>"

definition FetchAll :: "prepared_pool \<Rightarrow> prepared_pool \<times> nat list" where
  "FetchAll pp = (pp\<lparr>ppConns := [], ppReserved := []\<rparr>, map snd (ppConns pp))"

section \<open>The calls\<close>

datatype prep_error = NotEnabled | LockFailed | PrepareFailed put_error | RedoFailed | CannotCommit string prep_state | CommitFailed

datatype conn_action = Released nat | RolledBack nat | Committed nat | RolledBackTx int

definition Prepare :: "bool \<Rightarrow> nat option \<Rightarrow> bool \<Rightarrow> bool \<Rightarrow> prepared_pool \<Rightarrow> string \<Rightarrow>
    prepared_pool \<times> prep_error option \<times> conn_action list" where
  "Prepare twopcEnabled conn noQueries redoSaved pp dtid =
     (if \<not> twopcEnabled then (pp, Some NotEnabled, [])
      else (case conn of
          None \<Rightarrow> (pp, Some LockFailed, [])
        | Some c \<Rightarrow>
            if noQueries then (pp, None, [Released c])
            else (case pp_Put pp c dtid of
                (pp, Some e) \<Rightarrow> (pp, Some (PrepareFailed e), [RolledBack c])
              | (pp, None) \<Rightarrow> (pp, if redoSaved then None else Some RedoFailed, []))))"

text \<open>A failed commit is marked in the pool; the redo log is updated beside it and is not modelled.\<close>

definition CommitPrepared :: "bool \<Rightarrow> bool \<Rightarrow> bool \<Rightarrow> prepared_pool \<Rightarrow> string \<Rightarrow>
    prepared_pool \<times> prep_error option \<times> conn_action list" where
  "CommitPrepared twopcEnabled redoDeleted commitOk pp dtid =
     (if \<not> twopcEnabled then (pp, Some NotEnabled, [])
      else (case FetchForCommit pp dtid of
          (pp, Inl e) \<Rightarrow> (pp, Some (CannotCommit dtid e), [])
        | (pp, Inr None) \<Rightarrow> (pp, None, [])
        | (pp, Inr (Some c)) \<Rightarrow>
            if \<not> redoDeleted then (SetFailed pp dtid, Some RedoFailed, [RolledBack c])
            else if \<not> commitOk then (SetFailed pp dtid, Some CommitFailed, [RolledBack c])
            else (Forget pp dtid, None, [Committed c])))"

definition RollbackPrepared :: "bool \<Rightarrow> bool \<Rightarrow> prepared_pool \<Rightarrow> string \<Rightarrow> int \<Rightarrow>
    prepared_pool \<times> prep_error option \<times> conn_action list" where
  "RollbackPrepared twopcEnabled redoDeleted pp dtid originalID =
     (if \<not> twopcEnabled then (pp, Some NotEnabled, [])
      else (case FetchForRollback pp dtid of
          (pp, c) \<Rightarrow> (pp, if redoDeleted then None else Some RedoFailed,
            (case c of None \<Rightarrow> [] | Some c \<Rightarrow> [RolledBack c]) @ (if originalID \<noteq> 0 then [RolledBackTx originalID] else []))))"

section \<open>Runs\<close>

text \<open>
  Any interleaving of the pool's methods. Ghost: the connections ever put, in order, and those handed
  out, with who took them. A connection is put at most once.
\<close>

datatype taker = ToCommit string | ToRollback string | ToShutdown

inductive pool_run :: "int \<Rightarrow> prepared_pool \<Rightarrow> nat list \<Rightarrow> (nat \<times> taker) list \<Rightarrow> bool" for cap where
  init: "pool_run cap (NewTxPreparedPool cap) [] []"
| put: "pool_run cap pp prepared handed \<Longrightarrow> c \<notin> set prepared \<Longrightarrow> pp_Put pp c dtid = (pp', None) \<Longrightarrow>
    pool_run cap pp' (prepared @ [c]) handed"
| put_refused: "pool_run cap pp prepared handed \<Longrightarrow> pp_Put pp c dtid = (pp', Some e) \<Longrightarrow> pool_run cap pp' prepared handed"
| commit: "pool_run cap pp prepared handed \<Longrightarrow> FetchForCommit pp dtid = (pp', Inr (Some c)) \<Longrightarrow>
    pool_run cap pp' prepared (handed @ [(c, ToCommit dtid)])"
| commit_absent: "pool_run cap pp prepared handed \<Longrightarrow> FetchForCommit pp dtid = (pp', Inr None) \<Longrightarrow> pool_run cap pp' prepared handed"
| commit_refused: "pool_run cap pp prepared handed \<Longrightarrow> FetchForCommit pp dtid = (pp', Inl e) \<Longrightarrow> pool_run cap pp' prepared handed"
| committed: "pool_run cap pp prepared handed \<Longrightarrow> pool_run cap (Forget pp dtid) prepared handed"
| commit_failed: "pool_run cap pp prepared handed \<Longrightarrow> pool_run cap (SetFailed pp dtid) prepared handed"
| rollback: "pool_run cap pp prepared handed \<Longrightarrow> FetchForRollback pp dtid = (pp', Some c) \<Longrightarrow>
    pool_run cap pp' prepared (handed @ [(c, ToRollback dtid)])"
| rollback_absent: "pool_run cap pp prepared handed \<Longrightarrow> FetchForRollback pp dtid = (pp', None) \<Longrightarrow> pool_run cap pp' prepared handed"
| shutdown: "pool_run cap pp prepared handed \<Longrightarrow> FetchAll pp = (pp', cs) \<Longrightarrow>
    pool_run cap pp' prepared (handed @ map (\<lambda>c. (c, ToShutdown)) cs)"

section \<open>The accounting\<close>

lemma mset_mput_new: "map_of m k = None \<Longrightarrow> mset (mput k v m) = add_mset (k, v) (mset m)"
  by (induction k v m rule: mput.induct) (auto split: if_splits)

lemma mdel_absent: "map_of m k = None \<Longrightarrow> mdel k m = m"
  by (induction k m rule: mdel.induct) (auto split: if_splits)

lemma mset_mdel_present: "wf_map m \<Longrightarrow> map_of m k = Some v \<Longrightarrow> mset m = add_mset (k, v) (mset (mdel k m))"
proof (induction k m rule: mdel.induct)
  case (2 k k' v' m)
  note w = "2.prems"(1) [unfolded wf_map_Cons]
  show ?case
  proof (cases "k = k'")
    case True
    with w have "mdel k m = m" by (intro mdel_absent) simp
    with True "2.prems"(2) show ?thesis by simp
  next
    case False
    then have "map_of m k = Some v" using "2.prems"(2) by simp
    from "2.IH"(2) [OF False _ this] w have "mset m = add_mset (k, v) (mset (mdel k m))" by blast
    with False show ?thesis by (simp add: add_mset_commute)
  qed
qed simp

lemma length_mput_new: "map_of m k = None \<Longrightarrow> length (mput k v m) = Suc (length m)"
  using mset_mput_new [of m k v] by (metis size_mset size_add_mset)

lemma length_mdel_le: "length (mdel k m) \<le> length m"
  by (induction k m rule: mdel.induct) auto

definition accounted :: "int \<Rightarrow> prepared_pool \<Rightarrow> nat list \<Rightarrow> (nat \<times> taker) list \<Rightarrow> bool" where
  "accounted cap pp prepared handed \<longleftrightarrow>
     wf_map (ppConns pp) \<and> distinct prepared \<and> ppCapacity pp = max 0 cap \<and>
     int (length (ppConns pp)) \<le> max 0 cap \<and>
     image_mset fst (mset handed) + image_mset snd (mset (ppConns pp)) = mset prepared"

lemma pool_run_accounted: "pool_run cap pp prepared handed \<Longrightarrow> accounted cap pp prepared handed"
proof (induction rule: pool_run.induct)
  case init
  show ?case by (simp add: accounted_def NewTxPreparedPool_def max_def)
next
  case (put pp prepared handed c dtid pp')
  then have "map_of (ppConns pp) dtid = None" "int (length (ppConns pp)) < ppCapacity pp"
    "pp' = pp\<lparr>ppConns := mput dtid c (ppConns pp)\<rparr>"
    by (auto simp: pp_Put_def split: if_splits)
  with put show ?case by (simp add: accounted_def mset_mput_new length_mput_new)
next
  case (put_refused pp prepared handed c dtid pp' e)
  then have "pp' = pp" by (auto simp: pp_Put_def split: if_splits)
  with put_refused show ?case by simp
next
  case (commit pp prepared handed dtid pp' c)
  then have c: "map_of (ppConns pp) dtid = Some c" "ppConns pp' = mdel dtid (ppConns pp)" "ppCapacity pp' = ppCapacity pp"
    by (auto simp: FetchForCommit_def split: option.splits)
  with commit mset_mdel_present [of "ppConns pp" dtid c] length_mdel_le [of dtid "ppConns pp"] show ?case
    by (simp add: accounted_def)
next
  case (commit_absent pp prepared handed dtid pp')
  then have "pp' = pp" by (auto simp: FetchForCommit_def split: option.splits)
  with commit_absent show ?case by simp
next
  case (commit_refused pp prepared handed dtid pp' e)
  then have "pp' = pp" by (auto simp: FetchForCommit_def split: option.splits)
  with commit_refused show ?case by simp
next
  case (committed pp prepared handed dtid)
  then show ?case by (simp add: accounted_def Forget_def)
next
  case (commit_failed pp prepared handed dtid)
  then show ?case by (simp add: accounted_def SetFailed_def)
next
  case (rollback pp prepared handed dtid pp' c)
  then have c: "map_of (ppConns pp) dtid = Some c" "ppConns pp' = mdel dtid (ppConns pp)" "ppCapacity pp' = ppCapacity pp"
    by (auto simp: FetchForRollback_def split: if_splits)
  with rollback mset_mdel_present [of "ppConns pp" dtid c] length_mdel_le [of dtid "ppConns pp"] show ?case
    by (simp add: accounted_def)
next
  case (rollback_absent pp prepared handed dtid pp')
  then have "ppConns pp' = ppConns pp" "ppCapacity pp' = ppCapacity pp"
    by (auto simp: FetchForRollback_def mdel_absent split: if_splits)
  with rollback_absent show ?case by (simp add: accounted_def)
next
  case (shutdown pp prepared handed pp' cs)
  then have "cs = map snd (ppConns pp)" "ppConns pp' = []" "ppCapacity pp' = ppCapacity pp"
    by (auto simp: FetchAll_def)
  with shutdown show ?case by (simp add: accounted_def multiset.map_comp comp_def)
qed

section \<open>Properties\<close>

text \<open>
  C10. Through any interleaving of the pool's methods every prepared connection is in the pool or has
  been taken out exactly once: no two of a commit, a rollback and a shutdown ever get the same
  connection, none is lost, and the pool never holds more than its capacity.
\<close>

theorem prepared_connection_taken_once:
  assumes "pool_run cap pp prepared handed"
  shows "distinct (map fst handed) \<and> distinct (map snd (ppConns pp)) \<and>
    set (map fst handed) \<inter> set (map snd (ppConns pp)) = {} \<and>
    set (map fst handed) \<union> set (map snd (ppConns pp)) = set prepared \<and>
    int (length (ppConns pp)) \<le> max 0 cap"
proof -
  note a = pool_run_accounted [OF assms, unfolded accounted_def]
  have m: "mset (map fst handed @ map snd (ppConns pp)) = mset prepared" using a by simp
  have "distinct (map fst handed @ map snd (ppConns pp))" using a mset_eq_imp_distinct_iff [OF m] by simp
  moreover have "set (map fst handed @ map snd (ppConns pp)) = set prepared" by (rule mset_eq_setD [OF m])
  ultimately show ?thesis using a by simp
qed

theorem prepared_connection_taken_once_witness:
  "\<exists>pp. pool_run 2 pp [7, 8] [(7, ToCommit ''a''), (8, ToRollback ''b'')] \<and> distinct (map fst [(7 :: nat, ToCommit ''a''), (8, ToRollback ''b'')])"
proof -
  let ?p0 = "NewTxPreparedPool 2"
  let ?p1 = "fst (pp_Put ?p0 7 ''a'')"
  let ?p2 = "fst (pp_Put ?p1 8 ''b'')"
  let ?p3 = "fst (FetchForCommit ?p2 ''a'')"
  let ?p4 = "fst (FetchForRollback ?p3 ''b'')"
  note e = NewTxPreparedPool_def pp_Put_def FetchForCommit_def FetchForRollback_def
  have "pool_run 2 ?p1 [7] []" using pool_run.put [OF pool_run.init, of 7 2 "''a''"] by (simp add: e)
  then have "pool_run 2 ?p2 [7, 8] []" using pool_run.put [of 2 ?p1 "[7]" "[]" 8 "''b''"] by (simp add: e)
  then have "pool_run 2 ?p3 [7, 8] [(7, ToCommit ''a'')]"
    using pool_run.commit [of 2 ?p2 "[7, 8]" "[]" "''a''" _ 7] by (simp add: e)
  then have r: "pool_run 2 ?p4 [7, 8] [(7, ToCommit ''a''), (8, ToRollback ''b'')]"
    using pool_run.rollback [of 2 ?p3 "[7, 8]" "[(7, ToCommit ''a'')]" "''b''" _ 8] by (simp add: e)
  from prepared_connection_taken_once [OF r] r show ?thesis by blast
qed

text \<open>
  Between taking a connection and the end of the commit the dtid is refused: another commit gets
  the state, and a prepare of the same dtid is a duplicate. A rollback in between lifts that: it
  finds the entry of a commit in flight and removes it as if the commit had failed.
\<close>

lemma dtid_reserved_while_committing:
  assumes "FetchForCommit pp dtid = (pp', Inr (Some c))"
  shows "FetchForCommit pp' dtid = (pp', Inl errPrepCommitting)" "pp_Put pp' c' dtid = (pp', Some (DuplicateDtid dtid))"
    "FetchForCommit (SetFailed pp' dtid) dtid = (SetFailed pp' dtid, Inl errPrepFailed)"
    "FetchForCommit (Forget pp' dtid) dtid = (Forget pp' dtid, Inr None)"
  using assms by (auto simp: FetchForCommit_def pp_Put_def SetFailed_def Forget_def split: option.splits)

lemma rollback_lifts_reservation:
  assumes "FetchForCommit pp dtid = (pp', Inr (Some c))"
  shows "FetchForRollback pp' dtid = (Forget pp' dtid, None)"
    "int (length (ppConns pp')) < ppCapacity pp' \<Longrightarrow> snd (pp_Put (Forget pp' dtid) c' dtid) = None"
  using assms by (auto simp: FetchForCommit_def FetchForRollback_def pp_Put_def Forget_def split: option.splits)

text \<open>A commit that ended is not repeated: after a success it is a no-op, after a failure it is refused.\<close>

lemma CommitPrepared_repeated:
  assumes "CommitPrepared True redoDeleted commitOk pp dtid = (pp', e, acts)" "acts \<noteq> []"
  shows "e = None \<Longrightarrow> CommitPrepared True r o' pp' dtid = (pp', None, [])"
    "e \<noteq> None \<Longrightarrow> CommitPrepared True r o' pp' dtid = (pp', Some (CannotCommit dtid errPrepFailed), [])"
  using assms by (auto simp: CommitPrepared_def FetchForCommit_def SetFailed_def Forget_def split: option.splits if_splits)

end
