(* ===== verification/BucketPool.thy ===== *)
theory BucketPool
  imports Prelude "HOL-Library.Word"
begin

unbundle bit_operations_syntax

text \<open>
  The pool of byte buffers behind packets (\<open>go/bucketpool/bucketpool.go\<close>): buckets whose sizes double,
  the last one capped. A buffer is its capacity. What \<open>sync.Pool\<close> returns, a buffer put there before
  or a new one, is a choice of the run. Slicing a buffer beyond its capacity is a panic.
\<close>

section \<open>Model\<close>

text \<open>The loop of \<open>New\<close>, which doubles a size that may be zero and then never ends.\<close>

partial_function (option) bucket_sizes :: "nat \<Rightarrow> nat \<Rightarrow> nat list \<Rightarrow> nat list option" where
  "bucket_sizes curSize maxSize pools =
     (if curSize < maxSize then bucket_sizes (curSize * 2) maxSize (pools @ [curSize])
      else Some (pools @ [maxSize]))"

record bucket_pool =
  bpMin :: nat
  bpMax :: nat
  bpSizes :: "nat list"

definition bp_New :: "nat \<Rightarrow> nat \<Rightarrow> bucket_pool outcome option" where
  "bp_New minSize maxSize =
     (if maxSize < minSize then Some Panic
      else (case bucket_sizes minSize maxSize [] of
          None \<Rightarrow> None
        | Some pools \<Rightarrow> Some (Ret \<lparr>bpMin = minSize, bpMax = maxSize, bpSizes = pools\<rparr>)))"

text \<open>\<open>bits.Len64\<close>.\<close>

fun Len64 :: "nat \<Rightarrow> nat" where
  "Len64 n = (if n = 0 then 0 else Suc (Len64 (n div 2)))"

declare Len64.simps [simp del]

text \<open>The index of the bucket; the division by a zero minimum and an index out of range panic.\<close>

definition findPool :: "bucket_pool \<Rightarrow> nat \<Rightarrow> nat option outcome" where
  "findPool p n =
     (if n > bpMax p then Ret None
      else if bpMin p = 0 then Panic
      else (let d = n div bpMin p; rem = n mod bpMin p; idx = Len64 d;
                idx = (if rem = 0 \<and> d \<noteq> 0 \<and> d AND (d - 1) = 0 then idx - 1 else idx) in
        if idx < length (bpSizes p) then Ret (Some idx) else Panic))"

text \<open>
  \<open>Get\<close>: the capacity of the buffer, which has length n. The argument is the capacity of the buffer
  \<open>sync.Pool\<close> returns from the bucket, None for a new one.
\<close>

definition bp_Get :: "bucket_pool \<Rightarrow> nat option \<Rightarrow> nat \<Rightarrow> nat outcome" where
  "bp_Get p reused n =
     obind (findPool p n) (\<lambda>sp. case sp of
         None \<Rightarrow> Ret n
       | Some idx \<Rightarrow>
           (let c = (case reused of None \<Rightarrow> bpSizes p ! idx | Some c \<Rightarrow> c) in
            if n \<le> c then Ret c else Panic))"

text \<open>\<open>Put\<close>: the bucket the buffer goes to, if any.\<close>

definition bp_Put :: "bucket_pool \<Rightarrow> nat \<Rightarrow> nat option outcome" where
  "bp_Put p c = findPool p c"

text \<open>Runs: the buffers in the buckets and those in use; only buffers of the pool are put back.\<close>

inductive bucket_run :: "bucket_pool \<Rightarrow> (nat \<times> nat) set \<Rightarrow> nat set \<Rightarrow> bool" for p where
  init: "bucket_run p {} {}"
| get_new: "bucket_run p free used \<Longrightarrow> bp_Get p None n = Ret c \<Longrightarrow> bucket_run p free (insert c used)"
| get_reused: "bucket_run p free used \<Longrightarrow> findPool p n = Ret (Some idx) \<Longrightarrow> (idx, r) \<in> free \<Longrightarrow>
    bp_Get p (Some r) n = Ret c \<Longrightarrow> bucket_run p free (insert c used)"
| put: "bucket_run p free used \<Longrightarrow> c \<in> used \<Longrightarrow> bp_Put p c = Ret (Some idx) \<Longrightarrow> bucket_run p (insert (idx, c) free) used"
| drop: "bucket_run p free used \<Longrightarrow> c \<in> used \<Longrightarrow> bp_Put p c = Ret None \<Longrightarrow> bucket_run p free used"

section \<open>Sizes and indices\<close>

lemma bucket_sizes_form:
  assumes "0 < cur"
  shows "\<exists>k. bucket_sizes cur mx pools = Some (pools @ map (\<lambda>i. cur * 2 ^ i) [0..<k] @ [mx]) \<and>
    (\<forall>i<k. cur * 2 ^ i < mx) \<and> mx \<le> cur * 2 ^ k"
  using assms
proof (induction "mx - cur" arbitrary: cur pools rule: less_induct)
  case less
  show ?case
  proof (cases "cur < mx")
    case False
    then show ?thesis by (intro exI [of _ 0]) (subst bucket_sizes.simps, simp)
  next
    case True
    have "mx - cur * 2 < mx - cur" "0 < cur * 2" using True less.prems by auto
    from less.hyps [OF this, of "pools @ [cur]"]
    obtain k where k: "bucket_sizes (cur * 2) mx (pools @ [cur]) =
          Some ((pools @ [cur]) @ map (\<lambda>i. cur * 2 * 2 ^ i) [0..<k] @ [mx])"
        "\<forall>i<k. cur * 2 * 2 ^ i < mx" "mx \<le> cur * 2 * 2 ^ k"
      by blast
    have "[0..<Suc k] = 0 # map Suc [0..<k]" by (simp add: map_Suc_upt upt_conv_Cons)
    then have "map (\<lambda>i. cur * 2 ^ i) [0..<Suc k] = cur # map (\<lambda>i. cur * 2 * 2 ^ i) [0..<k]" by (simp add: mult.assoc)
    with k True have "bucket_sizes cur mx pools = Some (pools @ map (\<lambda>i. cur * 2 ^ i) [0..<Suc k] @ [mx])"
      by (subst bucket_sizes.simps) simp
    moreover have "\<forall>i<Suc k. cur * 2 ^ i < mx" using k(2) True by (auto simp: less_Suc_eq_0_disj mult.assoc)
    moreover have "mx \<le> cur * 2 ^ Suc k" using k(3) by (simp add: mult.assoc)
    ultimately show ?thesis by blast
  qed
qed

lemma Len64_bounds: "n < 2 ^ Len64 n" "0 < n \<Longrightarrow> 2 ^ (Len64 n - 1) \<le> n"
proof (induction n rule: Len64.induct)
  case (1 n)
  {
    case 1
    show ?case using "1.IH"(1) by (cases "n = 0") (auto simp: Len64.simps [of n])
  next
    case 2
    show ?case
    proof (cases "n div 2 = 0")
      case True
      with 2 show ?thesis by (simp add: Len64.simps [of n] Len64.simps [of 0])
    next
      case False
      then have "Len64 (n div 2) = Suc (Len64 (n div 2) - 1)" by (simp add: Len64.simps [of "n div 2"])
      then have "(2::nat) ^ Len64 (n div 2) = 2 * 2 ^ (Len64 (n div 2) - 1)" by (metis power_Suc)
      with "1.IH"(2) False 2 show ?thesis by (simp add: Len64.simps [of n])
    qed
  }
qed

lemma power_test: "0 < (d :: nat) \<Longrightarrow> d AND (d - 1) = 0 \<longleftrightarrow> (\<exists>j. d = 2 ^ j)"
proof (induction d rule: less_induct)
  case (less d)
  show ?case
  proof (cases "even d")
    case True
    then obtain e where e: "d = 2 * e" "0 < e" "e < d" using less.prems by (auto elim!: evenE)
    have "(d - 1) div 2 = e - 1" "odd (d - 1)" using e by auto
    then have "d AND (d - 1) = 2 * (e AND (e - 1))" using e by (subst and_rec) simp
    moreover have "(\<exists>j. d = 2 ^ j) \<longleftrightarrow> (\<exists>j. e = 2 ^ j)"
    proof
      assume "\<exists>j. d = 2 ^ j"
      then obtain j where "d = 2 ^ j" by blast
      with True less.prems e show "\<exists>j. e = 2 ^ j" by (cases j) auto
    next
      assume "\<exists>j. e = 2 ^ j"
      then show "\<exists>j. d = 2 ^ j" using e by (metis power_Suc)
    qed
    ultimately show ?thesis using less.IH [OF e(3,2)] by simp
  next
    case False
    then obtain e where e: "d = 2 * e + 1" by (auto elim: oddE)
    then have "d AND (d - 1) = 2 * e" by (subst and_rec) simp
    moreover have "(\<exists>j. d = 2 ^ j) \<longleftrightarrow> e = 0"
    proof
      assume "\<exists>j. d = 2 ^ j"
      then obtain j where "d = 2 ^ j" by blast
      with False have "j = 0" by (cases j) auto
      with \<open>d = 2 ^ j\<close> e show "e = 0" by simp
    qed (auto simp: e intro: exI [of _ 0])
    ultimately show ?thesis by simp
  qed
qed

definition well_sized :: "bucket_pool \<Rightarrow> nat \<Rightarrow> bool" where
  "well_sized p k \<longleftrightarrow> 0 < bpMin p \<and> bpSizes p = map (\<lambda>i. bpMin p * 2 ^ i) [0..<k] @ [bpMax p] \<and>
     (\<forall>i<k. bpMin p * 2 ^ i < bpMax p) \<and> bpMax p \<le> bpMin p * 2 ^ k"

lemma bp_New_well_sized:
  assumes "0 < mn" "mn \<le> mx" shows "\<exists>p k. bp_New mn mx = Some (Ret p) \<and> bpMin p = mn \<and> bpMax p = mx \<and> well_sized p k"
proof -
  obtain k where "bucket_sizes mn mx [] = Some ([] @ map (\<lambda>i. mn * 2 ^ i) [0..<k] @ [mx])"
    "\<forall>i<k. mn * 2 ^ i < mx" "mx \<le> mn * 2 ^ k"
    using bucket_sizes_form [OF assms(1), of mx "[]"] by blast
  then show ?thesis
    using assms by (intro exI [of _ "\<lparr>bpMin = mn, bpMax = mx, bpSizes = map (\<lambda>i. mn * 2 ^ i) [0..<k] @ [mx]\<rparr>"] exI [of _ k])
      (simp add: bp_New_def well_sized_def)
qed

text \<open>The computed index is the least exponent with which the minimum covers n.\<close>

lemma index_bounds:
  assumes "0 < mn" "d = n div mn" "idx = (if n mod mn = 0 \<and> d \<noteq> 0 \<and> d AND (d - 1) = 0 then Len64 d - 1 else Len64 d)"
  shows "n \<le> mn * 2 ^ idx" "idx = 0 \<or> mn * 2 ^ (idx - 1) < n"
proof -
  have n: "n = mn * d + n mod mn" using assms(2) by simp
  show "n \<le> mn * 2 ^ idx" "idx = 0 \<or> mn * 2 ^ (idx - 1) < n"
  proof (atomize (full), cases "n mod mn = 0 \<and> d \<noteq> 0 \<and> d AND (d - 1) = 0")
    case True
    then obtain j where j: "d = 2 ^ j" using power_test [of d] by auto
    have "(2::nat) ^ (Len64 d - 1) \<le> 2 ^ j" "(2::nat) ^ j < 2 ^ Len64 d" using Len64_bounds [of d] j True by auto
    then have "Len64 d - 1 \<le> j" "j < Len64 d" by simp_all
    then have "idx = j" using assms(3) True by simp
    moreover have "n = mn * 2 ^ j" using n True j by simp
    ultimately show "n \<le> mn * 2 ^ idx \<and> (idx = 0 \<or> mn * 2 ^ (idx - 1) < n)"
      using assms(1) by (cases j) simp_all
  next
    case False
    then have i: "idx = Len64 d" using assms(3) by (simp only: if_False)
    have "n < mn * (d + 1)" using n assms(1) by (metis add_strict_left_mono distrib_left mod_less_divisor mult.right_neutral)
    also have "\<dots> \<le> mn * 2 ^ Len64 d" using Len64_bounds(1) [of d] by (intro mult_left_mono) simp_all
    finally have up: "n \<le> mn * 2 ^ idx" using i by simp
    have "mn * 2 ^ (idx - 1) < n" if "idx \<noteq> 0"
    proof -
      have d: "0 < d" using that i by (cases "d = 0") (simp_all add: Len64.simps [of 0])
      then have le: "2 ^ (idx - 1) \<le> d" using Len64_bounds(2) i by simp
      then have "mn * 2 ^ (idx - 1) \<le> mn * d" by (intro mult_left_mono) simp_all
      moreover have "mn * 2 ^ (idx - 1) \<noteq> n"
      proof
        assume eq: "mn * 2 ^ (idx - 1) = n"
        then have "d = 2 ^ (idx - 1)" "n mod mn = 0" using assms(1,2) by auto
        with False d power_test [of d] show False by auto
      qed
      ultimately show ?thesis using n by linarith
    qed
    with up show "n \<le> mn * 2 ^ idx \<and> (idx = 0 \<or> mn * 2 ^ (idx - 1) < n)" by blast
  qed
qed

lemma well_sized_nth:
  assumes "well_sized p k" "i \<le> k" shows "bpSizes p ! i = (if i < k then bpMin p * 2 ^ i else bpMax p)"
  using assms by (simp add: well_sized_def nth_append)

lemma well_sized_mono:
  assumes "well_sized p k" "i \<le> j" "j \<le> k" shows "bpSizes p ! i \<le> bpSizes p ! j"
proof (cases "j < k")
  case True
  then show ?thesis using assms by (simp add: well_sized_nth)
next
  case False
  then show ?thesis using assms by (auto simp: well_sized_nth) (auto simp: well_sized_def less_imp_le)
qed

lemma findPool_least:
  assumes w: "well_sized p k" and n: "n \<le> bpMax p"
  shows "\<exists>idx\<le>k. findPool p n = Ret (Some idx) \<and> n \<le> bpSizes p ! idx \<and> (\<forall>j<idx. bpSizes p ! j < n)"
proof -
  have mn: "0 < bpMin p" and mx: "bpMax p \<le> bpMin p * 2 ^ k" and len: "length (bpSizes p) = Suc k"
    using w by (simp_all add: well_sized_def)
  define d where "d = n div bpMin p"
  define idx where "idx = (if n mod bpMin p = 0 \<and> d \<noteq> 0 \<and> d AND (d - 1) = 0 then Len64 d - 1 else Len64 d)"
  note b = index_bounds [OF mn d_def idx_def]
  have le: "idx \<le> k"
  proof (rule ccontr)
    assume "\<not> idx \<le> k"
    then have "idx \<noteq> 0" "k \<le> idx - 1" by auto
    then have "bpMin p * 2 ^ k \<le> bpMin p * 2 ^ (idx - 1)" by (intro mult_left_mono power_increasing) simp_all
    with b(2) \<open>idx \<noteq> 0\<close> mx n show False by linarith
  qed
  have "findPool p n = Ret (Some idx)"
    using n mn le len unfolding findPool_def Let_def d_def [symmetric] idx_def [symmetric] by simp
  moreover have "n \<le> bpSizes p ! idx" using b(1) n le w by (simp add: well_sized_nth)
  moreover have "bpSizes p ! j < n" if "j < idx" for j
  proof -
    have "bpSizes p ! j = bpMin p * 2 ^ j" using that le w by (simp add: well_sized_nth)
    also have "\<dots> \<le> bpMin p * 2 ^ (idx - 1)" using that by (intro mult_left_mono power_increasing) simp_all
    also have "\<dots> < n" using b(2) that by simp
    finally show ?thesis .
  qed
  ultimately show ?thesis using le by blast
qed

lemma bucket_run_sizes:
  assumes w: "well_sized p k"
  shows "bucket_run p free used \<Longrightarrow> (\<forall>(i, c)\<in>free. i \<le> k \<and> c = bpSizes p ! i) \<and>
    (\<forall>c\<in>used. bpMax p < c \<or> (\<exists>i\<le>k. c = bpSizes p ! i))"
proof (induction rule: bucket_run.induct)
  case init
  show ?case by simp
next
  case (get_new free used n c)
  have "bpMax p < c \<or> (\<exists>i\<le>k. c = bpSizes p ! i)"
  proof (cases "n \<le> bpMax p")
    case True
    then show ?thesis using findPool_least [OF w True] get_new(2) by (auto simp: bp_Get_def Let_def split: if_splits)
  next
    case False
    then show ?thesis using get_new(2) by (auto simp: bp_Get_def findPool_def)
  qed
  with get_new show ?case by auto
next
  case (get_reused free used n idx r c)
  then have "c = r" "idx \<le> k" "r = bpSizes p ! idx" by (auto simp: bp_Get_def Let_def split: if_splits)
  with get_reused show ?case by auto
next
  case (put free used c idx)
  have le: "c \<le> bpMax p" using put(3) by (auto simp: bp_Put_def findPool_def split: if_splits)
  then obtain i where i: "i \<le> k" "c = bpSizes p ! i" using put by fastforce
  have f: "idx \<le> k" "c \<le> bpSizes p ! idx" "\<forall>j<idx. bpSizes p ! j < c"
    using findPool_least [OF w le] put(3) by (auto simp: bp_Put_def)
  have "idx \<le> i" using f(3) i by (metis less_irrefl not_le)
  then have "bpSizes p ! idx \<le> c" using well_sized_mono [OF w _ i(1)] i(2) by blast
  with f put show ?case by auto
next
  case (drop free used c)
  then show ?case by blast
qed

section \<open>Properties\<close>



end
