(* ===== verification/ReadAfterWrite.thy ===== *)
theory ReadAfterWrite
  imports TabletGateway
begin

text \<open>
  \<open>setReadAfterWriteOpts\<close> of \<open>scatter_conn.go\<close>: the position a read has to wait for, by the
  consistency of the session. The target is behind a pointer, so the call returns it as well. The
  query that asks the primary for its position is an argument: the rows it returns, or an error.
\<close>

section \<open>The options of a read\<close>

datatype raw_scope = EVENTUAL | SESSION | INSTANCE | GLOBAL

record raw_settings =
  rawScope :: raw_scope
  rawPosition :: string
  rawTimeoutSecs :: real

definition LastSeenGtidString :: "sid sorter \<Rightarrow> gateway \<Rightarrow> string outcome" where
  "LastSeenGtidString sfs gw = ls_String sfs (lastSeenGtid gw)"

definition IsNonWeakReadAfterWrite :: "raw_settings option \<Rightarrow> bool" where
  "IsNonWeakReadAfterWrite raw = (case raw of None \<Rightarrow> False | Some r \<Rightarrow> rawScope r \<noteq> EVENTUAL)"

definition queryGTID :: "(target \<Rightarrow> string + string list list) \<Rightarrow> target \<Rightarrow> string + string" where
  "queryGTID execute target =
     (case execute target of
        Inl err \<Rightarrow> Inl (''query GTID from primary failed: '' @ err)
      | Inr rows \<Rightarrow> if rows = [] \<or> hd rows = [] then Inl ''unexpected GTID query result'' else Inr (hd (hd rows)))"

definition queryGTIDFromPrimary :: "(target \<Rightarrow> string + string list list) \<Rightarrow> target \<Rightarrow> target \<times> (string + string)" where
  "queryGTIDFromPrimary execute target =
     (if tgTabletType target \<noteq> TabletType_PRIMARY
      then let target' = target\<lparr>tgTabletType := TabletType_PRIMARY\<rparr> in (target', queryGTID execute target')
      else (target, queryGTID execute target))"

text \<open>Returns the error, the options, their timeout, and the target.\<close>

definition setReadAfterWriteOpts :: "sid sorter \<Rightarrow> real \<Rightarrow> (target \<Rightarrow> string + string list list) \<Rightarrow> gateway \<Rightarrow> raw_settings option \<Rightarrow>
    execute_options option \<Rightarrow> real \<Rightarrow> target \<Rightarrow> (string option \<times> execute_options option \<times> real \<times> target) outcome" where
  "setReadAfterWriteOpts sfs dflt execute gw raw opts timeout target =
     (case (opts, raw) of
        (Some o', Some r) \<Rightarrow>
          if \<not> IsNonWeakReadAfterWrite raw then Ret (None, opts, timeout, target)
          else
            let timeout' = (if rawTimeoutSecs r < 0 then dflt else rawTimeoutSecs r) in
            (case rawScope r of
               INSTANCE \<Rightarrow> obind (LastSeenGtidString sfs gw) (\<lambda>s. Ret (None, Some (o'\<lparr>ReadAfterWriteGtid := s\<rparr>), timeout', target))
             | SESSION \<Rightarrow> Ret (None, Some (o'\<lparr>ReadAfterWriteGtid := rawPosition r\<rparr>), timeout', target)
             | GLOBAL \<Rightarrow> (case queryGTIDFromPrimary execute target of
                   (target', Inl err) \<Rightarrow> Ret (Some err, opts, timeout', target')
                 | (target', Inr gtid) \<Rightarrow> Ret (None, Some (o'\<lparr>ReadAfterWriteGtid := gtid\<rparr>), timeout', target'))
             | EVENTUAL \<Rightarrow> Ret (None, opts, timeout', target))
      | _ \<Rightarrow> Ret (None, opts, timeout, target))"

section \<open>Reading one's own writes\<close>

lemma instance_read_picks:
  assumes sorts: "sort_func sf" "sort_func sfs" "osort_func srt" "intn_ok intn"
    and seen: "lsSet (lastSeenGtid gw) = Some s" "lsFlavor (lastSeenGtid gw) = gs_Flavor s" "printable_gs s" "gs_String sfs s \<noteq> []"
    and raw: "rawScope r = INSTANCE"
    and tablets: "\<forall>t \<in> set available. healthy t \<and> wf_pos (thPosition t)" "\<exists>u \<in> set available. AtLeast (thPosition u) (Some s)"
  shows "\<exists>opts' timeout' t cleared k'.
    setReadAfterWriteOpts sfs dflt execute gw (Some r) (Some opts) timeout target = Ret (None, Some opts', timeout', target) \<and>
    PickTablet sf srt intn k gw available (Some opts') = Ret (Inr t, cleared, k') \<and> t \<in> set available \<and>
    (\<exists>p. thPosition t = Some p \<and> gs_set s \<subseteq> gs_set p)"
proof -
  obtain p where p: "ParsePosition sf (gs_Flavor s) (gs_String sfs s) = Inr (Some p)" "gs_Equal s (Some p)" "proper_gs p"
    by (rule ParsePosition_String [OF sorts(1,2) seen(3)])
  have s: "proper_gs s" using seen(3) by (simp add: printable_gs_def)
  have wf: "wf_pos (Some s)" "wf_pos (Some p)" using s p(3) by (simp_all add: wf_pos_def proper_gs_def)
  have eq: "AtLeast (Some s) (Some p)" "AtLeast (Some p) (Some s)"
    using Equal_AtLeast [of "Some s" "Some p"] s p(2,3) by (simp_all add: proper_pos_def pos_Equal_def)
  let ?o = "opts\<lparr>ReadAfterWriteGtid := gs_String sfs s\<rparr>"
  have set: "setReadAfterWriteOpts sfs dflt execute gw (Some r) (Some opts) timeout target =
      Ret (None, Some ?o, if rawTimeoutSecs r < 0 then dflt else rawTimeoutSecs r, target)"
    using raw seen(1) by (simp add: setReadAfterWriteOpts_def IsNonWeakReadAfterWrite_def LastSeenGtidString_def ls_String_def)
  have sat: "satisfying sf gw (Some ?o) t \<longleftrightarrow> AtLeast (thPosition t) (Some p)" for t :: "'a tablet_health"
    using p(1) seen(2,4) by (simp add: satisfying_def)
  obtain u where u: "u \<in> set available" "AtLeast (thPosition u) (Some s)" using tablets(2) by blast
  have "satisfying sf gw (Some ?o) u" unfolding sat using tablets(1) u eq(1) wf by (blast intro: AtLeast_trans)
  moreover have "\<forall>t \<in> set available. healthy t" using tablets(1) by blast
  ultimately obtain t k' where t: "PickTablet sf srt intn k gw available (Some ?o) = Ret (Inr t, map_option (\<lambda>opts. opts\<lparr>ReadAfterWriteGtid := []\<rparr>) (Some ?o), k')"
      "t \<in> set available" "satisfying sf gw (Some ?o) t"
    using PickTablet_some [OF sorts(3,4) _ u(1), of sf gw "Some ?o" k] by blast
  have "AtLeast (thPosition t) (Some s)" using t(2,3) tablets(1) eq(2) wf unfolding sat by (blast intro: AtLeast_trans)
  then obtain q where q: "thPosition t = Some q" "gs_Contains q (Some s)" by (auto simp: AtLeast_def split: option.splits)
  have "wf_gs q" "wf_gs s" using tablets(1) t(2) q(1) wf(1) by (auto simp: wf_pos_def)
  then have "gs_set s \<subseteq> gs_set q" using gs_Contains_iff q(2) by blast
  then show ?thesis using set t(1,2) q(1) by blast
qed

text \<open>
  C4. With instance consistency, when the gateway has seen a set of transactions and some
  available tablet has all of them, the options the gateway sets make it pick a tablet that has
  all of them: no read is older than the writes this gateway has seen.
\<close>

theorem instance_reads_see_writes:
  assumes sorts: "sort_func sf" "sort_func sfs" "osort_func srt" "intn_ok intn"
    and seen: "lsSet (lastSeenGtid gw) = Some s" "lsFlavor (lastSeenGtid gw) = gs_Flavor s" "printable_gs s" "gs_String sfs s \<noteq> []"
    and raw: "rawScope r = INSTANCE"
    and tablets: "\<forall>t \<in> set available. healthy t \<and> wf_pos (thPosition t)" "\<exists>u \<in> set available. AtLeast (thPosition u) (Some s)"
  shows "\<exists>opts' timeout' t cleared k'.
    setReadAfterWriteOpts sfs dflt execute gw (Some r) (Some opts) timeout target = Ret (None, Some opts', timeout', target) \<and>
    PickTablet sf srt intn k gw available (Some opts') = Ret (Inr t, cleared, k') \<and> t \<in> set available \<and>
    (\<exists>p. thPosition t = Some p \<and> gs_set s \<subseteq> gs_set p)"
  by (rule instance_read_picks [OF assms])

definition sample_seen :: gateway where
  "sample_seen = sample_gateway\<lparr>lastSeenGtid := \<lparr>lsFlavor = Mysql56FlavorID, lsSet = Some (Mysql56GTIDSet (Some sampleA))\<rparr>\<rparr>"

definition sample_replicas :: "unit tablet_health list" where
  "sample_replicas = [sample_tablet ''a'' 1 None, sample_tablet ''a'' 2 (Some (Mysql56GTIDSet (Some sampleA)))]"

definition sample_options :: execute_options where
  "sample_options = \<lparr>ReadAfterWriteGtid = [], LoadBalancePolicy = RANDOM, CanLoadBalanceBetweenReplicAndRdonly = False, TabletInfoToDisplay = None\<rparr>"

definition replica_target :: target where
  "replica_target = \<lparr>tgCell = ''a'', tgTabletType = 2\<rparr>"

lemma sampleA_printed: "gs_String insertion_sort (Mysql56GTIDSet (Some sampleA)) \<noteq> []"
proof -
  have "m56_SIDs insertion_sort (Some sampleA) = [replicate 16 1]" by (simp add: m56_SIDs_def sampleA_def insertion_sort_def)
  then show ?thesis by (simp add: gs_String_def m56_String_def sid_ivs_String_nonempty)
qed

theorem instance_reads_see_writes_witness:
  "\<exists>opts' timeout' t cleared k'.
    setReadAfterWriteOpts insertion_sort 30 (\<lambda>_. Inr []) sample_seen (Some \<lparr>rawScope = INSTANCE, rawPosition = [], rawTimeoutSecs = 0\<rparr>) (Some sample_options) 0
      \<lparr>tgCell = ''a'', tgTabletType = 2\<rparr> = Ret (None, Some opts', timeout', \<lparr>tgCell = ''a'', tgTabletType = 2\<rparr>) \<and>
    PickTablet insertion_sort oisort (\<lambda>k n. 0) 0 sample_seen sample_replicas (Some opts') = Ret (Inr t, cleared, k') \<and> t \<in> set sample_replicas \<and>
    (\<exists>p. thPosition t = Some p \<and> gs_set (Mysql56GTIDSet (Some sampleA)) \<subseteq> gs_set p)"
proof -
  have pos: "thPosition (sample_tablet c n p) = p" for c n p by (simp add: sample_tablet_def)
  have wf: "wf_pos (Some (Mysql56GTIDSet (Some sampleA)))" "printable_gs (Mysql56GTIDSet (Some sampleA))"
    using samples_wf by (simp_all add: wf_pos_def wf_gs_def printable_gs_def proper_gs_def)
  show ?thesis
  proof (rule instance_reads_see_writes [OF sort_func_insertion_sort sort_func_insertion_sort osort_func_oisort intn_ok_zero _ _ wf(2) sampleA_printed])
    show "lsSet (lastSeenGtid sample_seen) = Some (Mysql56GTIDSet (Some sampleA))"
      "lsFlavor (lastSeenGtid sample_seen) = gs_Flavor (Mysql56GTIDSet (Some sampleA))" by (simp_all add: sample_seen_def gs_Flavor_def)
    show "\<forall>t \<in> set sample_replicas. healthy t \<and> wf_pos (thPosition t)" using wf(1) by (simp add: sample_replicas_def sample_tablet_simps pos) (simp add: wf_pos_def)
    show "\<exists>u \<in> set sample_replicas. AtLeast (thPosition u) (Some (Mysql56GTIDSet (Some sampleA)))"
      using AtLeast_refl [OF wf(1)] by (simp add: sample_replicas_def pos)
  qed simp
qed

text \<open>
  With global consistency the copy of the target is a copy of the pointer: the read itself is
  sent to the primary.
\<close>

lemma global_reads_go_to_primary:
  assumes "rawScope r = GLOBAL" "setReadAfterWriteOpts sfs dflt execute gw (Some r) (Some opts) timeout target = Ret (err, opts', timeout', target')"
  shows "tgTabletType target' = TabletType_PRIMARY"
  using assms by (auto simp: setReadAfterWriteOpts_def IsNonWeakReadAfterWrite_def queryGTIDFromPrimary_def Let_def split: if_splits sum.splits)

end
