(* ===== verification/ReadWriteSplit.thy ===== *)
theory ReadWriteSplit
  imports LoadBalance
begin

text \<open>
  Read/write splitting: the policy names of \<open>schema/read_write_splitting_policy.go\<close>, the decision of
  \<open>vtgate/read_write_splitter.go\<close>, and \<open>GetSuggestedTabletType\<close> of \<open>plan_execute.go\<close>. The SQL parser and
  its predicates are an argument (\<open>sql_env\<close>), the random draw is an argument, and \<open>f32\<close> rounds to
  \<open>float32\<close>. Policy names and schema names are ASCII.
\<close>

section \<open>Policies\<close>

definition lower_char :: "char \<Rightarrow> char" where
  "lower_char c = (if 65 \<le> (of_char c :: nat) \<and> (of_char c :: nat) \<le> 90 then char_of ((of_char c :: nat) + 32) else c)"

definition ToLower :: "string \<Rightarrow> string" where
  "ToLower s = map lower_char s"

definition EqualFold :: "string \<Rightarrow> string \<Rightarrow> bool" where
  "EqualFold s t \<longleftrightarrow> ToLower s = ToLower t"

definition NewReadWriteSplittingPolicy :: "string \<Rightarrow> string" where
  "NewReadWriteSplittingPolicy s = ToLower s"

definition IsRandom :: "string \<Rightarrow> bool" where
  "IsRandom s \<longleftrightarrow> s = ''random''"

definition IsDisable :: "string \<Rightarrow> bool" where
  "IsDisable s \<longleftrightarrow> s = ''disable'' \<or> s = []"

definition policy_names :: "(string \<times> load_balance_policy) list" where
  "policy_names = [(''random'', RANDOM), (''least_global_qps'', LEAST_GLOBAL_QPS), (''least_qps'', LEAST_QPS), (''least_rt'', LEAST_RT),
     (''least_behind_primary'', LEAST_BEHIND_PRIMARY), (''least_mysql_connected_connections'', LEAST_MYSQL_CONNECTED_CONNECTIONS),
     (''least_mysql_running_connections'', LEAST_MYSQL_RUNNING_CONNECTIONS), (''least_tablet_inuse_connections'', LEAST_TABLET_INUSE_CONNECTIONS)]"

definition ToLoadBalancePolicy :: "string \<Rightarrow> load_balance_policy" where
  "ToLoadBalancePolicy s = (case map_of policy_names (NewReadWriteSplittingPolicy s) of Some p \<Rightarrow> p | None \<Rightarrow> RANDOM)"

record policy_setting =
  psStrategy :: string
  psOptions :: string

text \<open>
  The regular expression \<open>^([\S]+)\s+(.*)$\<close>: a first word, white space, and the rest, which has no
  line break.
\<close>

definition reSpace :: "char \<Rightarrow> bool" where
  "reSpace c \<longleftrightarrow> (of_char c :: nat) \<in> {9, 10, 12, 13, 32}"

definition policy_submatch :: "string \<Rightarrow> (string \<times> string) option" where
  "policy_submatch s =
     (let name = takeWhile (\<lambda>c. \<not> reSpace c) s; rest = dropWhile (\<lambda>c. \<not> reSpace c) s; opts = dropWhile reSpace rest in
      if name \<noteq> [] \<and> rest \<noteq> [] \<and> (\<forall>c \<in> set opts. (of_char c :: nat) \<noteq> 10) then Some (name, opts) else None)"

definition ParseReadWriteSplittingPolicySetting :: "string \<Rightarrow> string + policy_setting" where
  "ParseReadWriteSplittingPolicySetting strategyVariable =
     (let (strategyName, options) = (case policy_submatch strategyVariable of Some m \<Rightarrow> m | None \<Rightarrow> (strategyVariable, []));
          strategy = NewReadWriteSplittingPolicy strategyName in
      if strategy = [] then Inr \<lparr>psStrategy = ''disable'', psOptions = options\<rparr>
      else if strategy = ''disable'' \<or> map_of policy_names strategy \<noteq> None then Inr \<lparr>psStrategy = strategy, psOptions = options\<rparr>
      else Inl (''Unknown ReadWriteSplittingPolicy: '' @ strategy))"

definition CheckReadWriteSplittingRateRange :: "int \<Rightarrow> bool" where
  "CheckReadWriteSplittingRateRange ratio \<longleftrightarrow> \<not> (ratio < 0 \<or> ratio > 100)"

definition CheckReadWriteSplittingRate :: "int \<Rightarrow> string \<Rightarrow> bool" where
  "CheckReadWriteSplittingRate ratio strategy \<longleftrightarrow> NewReadWriteSplittingPolicy strategy \<noteq> ''disable'' \<and> CheckReadWriteSplittingRateRange ratio"

section \<open>The decision\<close>

record 'stmt sql_env =
  Parse2 :: "string \<Rightarrow> string + 'stmt"
  ContainsLastInsertIDStatement :: "'stmt \<Rightarrow> bool"
  ContainsLockStatement :: "'stmt \<Rightarrow> bool"
  CollectTables :: "'stmt \<Rightarrow> string list"
  IsPureSelectStatement :: "'stmt \<Rightarrow> bool"

definition SystemSchema :: "string \<Rightarrow> bool" where
  "SystemSchema schema \<longleftrightarrow> EqualFold schema ''information_schema'' \<or> EqualFold schema ''performance_schema'' \<or> EqualFold schema ''sys'' \<or>
     EqualFold schema ''mysql'' \<or> EqualFold schema ''dbms_consensus'' \<or> EqualFold schema ''dbms_admin'' \<or> EqualFold schema ''dbms_ccl''"

definition hasSystemTable :: "'stmt sql_env \<Rightarrow> 'stmt \<Rightarrow> bool" where
  "hasSystemTable env sel = list_ex SystemSchema (CollectTables env sel)"

definition isSQLSupportReadWriteSplit :: "'stmt sql_env \<Rightarrow> string \<Rightarrow> string + bool" where
  "isSQLSupportReadWriteSplit env query =
     (case Parse2 env query of
        Inl err \<Rightarrow> Inl err
      | Inr s \<Rightarrow>
          if ContainsLastInsertIDStatement env s then Inr False
          else if ContainsLockStatement env s then Inr False
          else if hasSystemTable env s then Inr False
          else if IsPureSelectStatement env s then Inr True
          else Inr False)"

definition TabletType_REPLICA :: int where
  "TabletType_REPLICA = 2"

definition randomPickTabletType :: "(real \<Rightarrow> real) \<Rightarrow> int \<Rightarrow> int \<Rightarrow> real \<Rightarrow> int" where
  "randomPickTabletType f32 dflt ratio draw =
     (if ratio = 0 then dflt
      else let percentage = f32 (f32 (real_of_int ratio) / 100) in
        if draw > percentage then dflt else TabletType_REPLICA)"

definition suggestTabletType :: "(real \<Rightarrow> real) \<Rightarrow> 'stmt sql_env \<Rightarrow> int \<Rightarrow> string \<Rightarrow> bool \<Rightarrow> bool \<Rightarrow> bool \<Rightarrow> int \<Rightarrow> string \<Rightarrow> bool \<Rightarrow> bool \<Rightarrow> real \<Rightarrow>
    int \<times> string option" where
  "suggestTabletType f32 env dflt policy inTransaction hasCreatedTempTables hasAdvisoryLock ratio sql enableReadOnlyTransaction isReadOnlyTx draw =
     (if IsDisable (NewReadWriteSplittingPolicy policy) then (dflt, None)
      else if hasCreatedTempTables \<or> hasAdvisoryLock then (dflt, None)
      else if inTransaction \<and> (\<not> isReadOnlyTx \<or> \<not> enableReadOnlyTransaction) then (dflt, None)
      else if isReadOnlyTx \<and> enableReadOnlyTransaction then (TabletType_REPLICA, None)
      else case isSQLSupportReadWriteSplit env sql of
          Inl err \<Rightarrow> (dflt, Some err)
        | Inr support \<Rightarrow> if \<not> support then (dflt, None) else (randomPickTabletType f32 dflt ratio draw, None))"

text \<open>The fields of the session \<open>GetSuggestedTabletType\<close> reads and writes.\<close>

record rw_session =
  rwInTransaction :: bool
  rwReadOnly :: bool
  rwPolicy :: string
  rwRatio :: int
  rwTempTables :: bool
  rwAdvisoryLocks :: nat
  EnableReadWriteSplitForReadOnlyTxn :: bool
  ReadWriteSplitForReadOnlyTxnUserInput :: bool

definition GetSuggestedTabletType :: "(real \<Rightarrow> real) \<Rightarrow> 'stmt sql_env \<Rightarrow> int \<Rightarrow> rw_session \<Rightarrow> string \<Rightarrow> real \<Rightarrow> rw_session \<times> (string + int)" where
  "GetSuggestedTabletType f32 env dflt s sql draw =
     (let isReadOnlyTx = (rwInTransaction s \<and> rwReadOnly s);
          s1 = (if \<not> isReadOnlyTx then s\<lparr>EnableReadWriteSplitForReadOnlyTxn := ReadWriteSplitForReadOnlyTxnUserInput s\<rparr> else s) in
      case suggestTabletType f32 env dflt (rwPolicy s1) (rwInTransaction s1) (rwTempTables s1) (rwAdvisoryLocks s1 \<noteq> 0) (rwRatio s1) sql
          (EnableReadWriteSplitForReadOnlyTxn s1) isReadOnlyTx draw of
        (t, Some err) \<Rightarrow> (s1, Inl err)
      | (t, None) \<Rightarrow> (s1, Inr t))"

section \<open>What is routed to a replica\<close>

text \<open>The rounding of a \<open>float32\<close> operation keeps the order and the small integers.\<close>

definition rounds32 :: "(real \<Rightarrow> real) \<Rightarrow> bool" where
  "rounds32 f32 \<longleftrightarrow> mono f32 \<and> (\<forall>n. \<bar>n\<bar> \<le> 2 ^ 24 \<longrightarrow> f32 (real_of_int n) = real_of_int n)"

definition safe_read :: "'stmt sql_env \<Rightarrow> string \<Rightarrow> bool" where
  "safe_read env sql \<longleftrightarrow> (\<exists>s. Parse2 env sql = Inr s \<and> IsPureSelectStatement env s \<and> \<not> ContainsLastInsertIDStatement env s \<and>
     \<not> ContainsLockStatement env s \<and> (\<forall>t \<in> set (CollectTables env s). \<not> SystemSchema t))"

lemma isSQLSupport_iff: "isSQLSupportReadWriteSplit env sql = Inr True \<longleftrightarrow> safe_read env sql"
  by (auto simp: isSQLSupportReadWriteSplit_def safe_read_def hasSystemTable_def list_ex_iff split: sum.splits)

lemma ratio_draws:
  assumes "rounds32 f32" "0 \<le> draw" "draw < 1" "dflt \<noteq> TabletType_REPLICA" "\<bar>ratio\<bar> \<le> 2 ^ 24"
  shows "ratio \<le> 0 \<Longrightarrow> randomPickTabletType f32 dflt ratio draw = dflt \<or> draw = 0"
    and "100 \<le> ratio \<Longrightarrow> randomPickTabletType f32 dflt ratio draw = TabletType_REPLICA"
proof -
  have m: "mono f32" and i: "\<And>n. \<bar>n\<bar> \<le> 2 ^ 24 \<Longrightarrow> f32 (real_of_int n) = real_of_int n" using assms(1) by (auto simp: rounds32_def)
  have r: "f32 (real_of_int ratio) = real_of_int ratio" by (rule i) (rule assms(5))
  have f0: "f32 0 = 0" and f1: "f32 1 = 1" using i [of 0] i [of 1] by simp_all
  show "randomPickTabletType f32 dflt ratio draw = dflt \<or> draw = 0" if "ratio \<le> 0"
  proof -
    have "f32 (real_of_int ratio / 100) \<le> f32 0" using that by (intro monoD [OF m]) simp
    then show ?thesis using assms(2) f0 by (auto simp: randomPickTabletType_def r Let_def)
  qed
  show "randomPickTabletType f32 dflt ratio draw = TabletType_REPLICA" if "100 \<le> ratio"
  proof -
    have "f32 1 \<le> f32 (real_of_int ratio / 100)" using that by (intro monoD [OF m]) simp
    then show ?thesis using assms(3) f1 that by (simp add: randomPickTabletType_def r)
  qed
qed



definition sample_rw :: rw_session where
  "sample_rw = \<lparr>rwInTransaction = False, rwReadOnly = False, rwPolicy = ''Least_QPS'', rwRatio = 100, rwTempTables = False, rwAdvisoryLocks = 0,
     EnableReadWriteSplitForReadOnlyTxn = False, ReadWriteSplitForReadOnlyTxnUserInput = False\<rparr>"

definition sample_sql :: "unit sql_env" where
  "sample_sql = \<lparr>Parse2 = (\<lambda>_. Inr ()), ContainsLastInsertIDStatement = (\<lambda>_. False), ContainsLockStatement = (\<lambda>_. False),
     CollectTables = (\<lambda>_. []), IsPureSelectStatement = (\<lambda>_. True)\<rparr>"


text \<open>A setting that parses names one of the policies, which is the balancer \<open>loadBalance\<close> uses.\<close>

lemma parsed_policy_known:
  assumes "ParseReadWriteSplittingPolicySetting v = Inr p"
  shows "psStrategy p = ''disable'' \<or> map_of policy_names (psStrategy p) \<noteq> None"
  using assms by (auto simp: ParseReadWriteSplittingPolicySetting_def Let_def split: option.splits prod.splits if_splits)

text \<open>The check of the ratio takes the empty policy for an enabled one.\<close>

lemma rate_check_accepts_unset_policy: "CheckReadWriteSplittingRate 50 [] \<and> IsDisable (NewReadWriteSplittingPolicy [])"
  by (simp add: CheckReadWriteSplittingRate_def CheckReadWriteSplittingRateRange_def IsDisable_def NewReadWriteSplittingPolicy_def ToLower_def)

end
