(* ===== verification/Spec2Isabelle.thy ===== *)
theory Spec2Isabelle
  imports LastSeenGtid ResponsePackets AuthScramble Vindexes TopoProto ReplicationLag IdPool Numbered TxLimiter SessionRuns SessionSettings Ccl TxSerializer TxPreparedPool BucketPool ReadAfterWrite ReadWriteSplit
begin

text \<open>
  A verification library for WeScale, a proxy for MySQL clusters (sources under \<open>src/go\<close>).

  \<^bold>\<open>The program.\<close> Clients talk to a gate process (\<open>vt/vtgate\<close>), which keeps a session per
  client, routes statements to the shards of a keyspace (\<open>vt/key\<close>) and balances reads over the
  replicas. Replicas follow the primary by replication positions, which are sets of global
  transaction identifiers (\<open>mysql/*gtid*.go\<close>); read-after-write consistency compares the
  positions a session has seen with those the replicas report (\<open>vt/vtgate/last_seen_gtid.go\<close>).
  The gateway decides whether a statement may read from a replica (\<open>read_write_splitter.go\<close>),
  picks one of the healthy tablets that has caught up (\<open>tabletgateway_lb.go\<close>) and retries on
  another one when a call fails (\<open>tabletgateway.go\<close>). Each tablet process (\<open>vt/vttablet\<close>) runs
  transactions, which it numbers, registers and limits per user (\<open>pools\<close>, \<open>txlimiter\<close>); it shares
  the execution of equal queries (\<open>sync2/consolidator.go\<close>), limits the statements of a rule that
  run at a time (\<open>ccl\<close>) and serializes transactions on hot rows (\<open>txserializer\<close>); transactions of a
  two-phase commit wait in a pool (\<open>tx_prep_pool.go\<close>) until they are resolved. Clients and servers authenticate with
  scrambled passwords (\<open>mysql/auth_server.go\<close>) and exchange packets (\<open>mysql/conn.go\<close>), in buffers from a pool (\<open>bucketpool\<close>), whose values are
  in the length-encoded formats of the MySQL protocol (\<open>mysql/encoding.go\<close>); the OK packet brings the
  GTID of a write back. The values of sharding columns become keyspace ids (\<open>vt/vtgate/vindexes\<close>),
  sessions name their target as text (\<open>vt/topo/topoproto\<close>), and replicas that fall behind are no longer
  offered (\<open>vt/discovery/replicationlag.go\<close>).

  \<^bold>\<open>Conventions.\<close> A Go map is an association list with distinct keys, a nil map, pointer or
  interface is \<open>None\<close>, a run-time panic is the value \<open>Panic\<close> of type \<open>outcome\<close>, an error is a
  value of a sum type, an \<open>int64\<close> is an integer with its wrap-around written out
  (\<open>add64\<close>, \<open>sub64\<close>), unsigned integers are words. A method guarded by a mutex is one atomic
  step. Map iteration follows list order; where the code returns from inside a range loop the
  entry it visits first is a parameter. Third-party code is a parameter:
  \<open>slices.SortFunc\<close> is any function with the documented contract \<open>sort_func\<close> (\<open>osort_func\<close>
  where the comparison may panic). Wall-clock times, random choices and floating-point products
  are arguments; a finite floating-point number that is only compared is a real. What goroutines do
  concurrently is an inductive relation over their atomic steps, with ghost arguments that count
  the callers in each phase.

  \<^bold>\<open>Theories.\<close>
  \<^item> \<open>Prelude\<close>: outcomes, 64-bit integers, maps (locale \<open>go_map\<close>, interpreted on association
    lists), sorting (locale \<open>sorting\<close>, interpreted on insertion sort).
  \<^item> \<open>GoStrings\<close>, \<open>Bytes\<close>: the functions of \<open>strings\<close>, \<open>strconv\<close>, \<open>hex\<close>, \<open>bytes\<close> and
    \<open>binary\<close> the sources call, with their round trips and orders.
  \<^item> \<open>Intervals\<close>, \<open>GtidTypes\<close>, \<open>Gtid56\<close>, \<open>Gtid56Text\<close>, \<open>Gtid56Order\<close>: the sets of
    \<open>mysql56_gtid_set.go\<close> as lists of intervals per server; the interval loops, the set
    operations against the sets of transactions they stand for, parsing, printing and the binary
    block.
  \<^item> \<open>GtidMariadb\<close>, \<open>GtidFilePos\<close>: the two other flavours. \<open>GtidSpec\<close> states the contract all
    flavours share as locales (\<open>gtid_order\<close>, \<open>gtid_add\<close>, \<open>gtid_meet\<close>), each interpreted on the
    flavours that meet it.
  \<^item> \<open>Position\<close>: \<open>replication_position.go\<close> and the dispatch over flavours. \<open>LastSeenGtid\<close>: the
    positions a session has seen and their compression.
  \<^item> \<open>Encoding\<close>: every reader and writer of \<open>encoding.go\<close> on byte slices with explicit bounds.
    \<open>Packets\<close>: payloads cut into packets and reassembled, over a connection that is a stream of
    incoming bytes with an end and a writer that may fail. \<open>ResponsePackets\<close>: OK, EOF and error
    packets laid out in recycled buffers, and their parsers; writers and readers compose by the
    layouts they produce and consume. \<open>AuthScramble\<close>: the native and SHA-2 password exchanges over
    any hash function with the digest's length. \<open>BucketPool\<close>: the pool of buffers of
    \<open>bucketpool.go\<close>, where what \<open>sync.Pool\<close> gives back is a choice of the run.
  \<^item> \<open>KeyRange\<close>, \<open>Destination\<close>: the ranges of \<open>key.go\<close>, and every destination of
    \<open>destination.go\<close> resolved against the shards of a keyspace. \<open>Vindexes\<close>: the functional vindexes,
    with the conversion of a column value to a number. \<open>TopoProto\<close>: the text forms of targets,
    aliases, tablet types and distributed transaction ids.
  \<^item> \<open>IdPool\<close>, \<open>LruCache\<close>, \<open>Numbered\<close>: \<open>id_pool.go\<close>, \<open>lru_cache.go\<close> and \<open>numbered.go\<close>. What
    \<open>Numbered\<close> needs of the cache is the locale \<open>recency_cache\<close>, interpreted on the cache with
    unit costs.
  \<^item> \<open>TxLimiter\<close>: \<open>tx_limiter.go\<close> with the accessors and counters it calls.
  \<^item> \<open>Consolidator\<close>: the shared executions and the counting cache of \<open>consolidator.go\<close>, on top of
    \<open>LruCache\<close>. \<open>Ccl\<close>: the queues of \<open>concurrency_controller.go\<close>. \<open>TxSerializer\<close>: the queues of
    \<open>tx_serializer.go\<close>. Both use the counting cache of \<open>Consolidator\<close> and the counters of
    \<open>TxLimiter\<close>; a channel is a number (\<open>Ccl\<close>) or the count of its elements (\<open>TxSerializer\<close>).
    \<open>TxPreparedPool\<close>: \<open>tx_prep_pool.go\<close>, and the methods of \<open>tx_executor.go\<close> that use it.
  \<^item> \<open>LoadBalance\<close>: \<open>PickTablet\<close>, the balancers and the shuffle, on top of \<open>Position\<close> and
    \<open>LastSeenGtid\<close>. \<open>TabletGateway\<close>: \<open>withRetry\<close>, where the health check, the failover buffer, the
    keyspace watcher and the statement itself are functions of the attempt (\<open>retry_env\<close>).
    \<open>ReadAfterWrite\<close>: the position a read waits for (\<open>setReadAfterWriteOpts\<close> of
    \<open>scatter_conn.go\<close>), composed with \<open>PickTablet\<close>. \<open>ReplicationLag\<close>: the filter of lagging tablets
    in front of the gateway. \<open>ReadWriteSplit\<close>: the splitting policies and
    \<open>GetSuggestedTabletType\<close>.
  \<^item> \<open>SysVars\<close>, \<open>SafeSession\<close>, \<open>SessionRuns\<close>, \<open>SessionSettings\<close>: the catalogue of system
    variables, the methods of the client session, what holds of every sequence of calls, and the
    query that restores the settings.
  \<^item> This theory: the path from the OK packet of a write over \<open>record_state_changes\<close> (\<open>scatter_conn.go\<close>)
    and the gateway's \<open>AddGtid\<close> to the tablet a later read is sent to.

  \<^bold>\<open>What is shown.\<close> GTID sets: every operation of the MySQL flavour computes the set-theoretic
  operation on well-formed sets, comparisons decide inclusion and equality, text and binary forms
  round-trip; positions are preordered and grow with every appended transaction; compressing what
  a session has seen changes for no replica whether it has caught up. Key ranges: intersection,
  overlap and inclusion are those of the sets of keyspace ids, a sharding specification
  partitions all ids, and destinations resolve to exactly the shards they mean. Encodings: round
  trips, and the exact inputs on which a reader leaves its buffer. Packets: what is written is read,
  for every length of payload and at every sequence number, and damage is an error; OK, EOF and error
  packets arrive as they were sent, whatever a recycled buffer held; passwords are accepted with the
  right scramble and only with a preimage of the stored hash. Vindexes: numbers and keyspace ids
  correspond, in both directions. Targets: parsed to what they name. Pools, cache, registry and
  limiter: invariants by rule induction over all runs of their clients, with the properties that
  follow for every run (identifiers unique, resources locked by one caller, slots counted, no
  wake-up lost), and the cache as a refinement of the list of its items in order of use. Queues:
  for runs of the concurrency controller with fixed limits and for all runs of hot row protection
  the limits hold; slots are handed on in order of arrival and nobody is parked while one is free
  (\<open>Ccl\<close>), a waiting transaction can take every free slot and releasing never blocks
  (\<open>TxSerializer\<close>); at most one execution of a query is in flight.
  Prepared transactions: through all interleavings each connection is in the pool or was handed out
  exactly once. Buffers: every buffer handed out has room for what was asked. Gateway: the picked tablet has reached the requested position whenever an available one
  has, so that with instance consistency the first choice for a read is never older than the
  writes the gateway has seen; the shuffle puts local tablets first, retries go to distinct
  tablets, and only safe reads are routed to replicas; the lag filter offers what its thresholds
  promise. The end-to-end theorem of this theory joins packets, GTIDs, session and gateway: a write the
  server acknowledges is seen by a later read with instance consistency. Lemmas beside these theorems show where the
  code falls short of its intent: a retry loses the requested position, global consistency reads
  from the primary, resizing a queue overshoots its limit, a malformed OK packet makes the client
  loop, a short password reply or a malformed target panics, negative ids are mapped but not verified, and a rollback lifts the
  reservation of a commit in flight. The catalogue of system variables classifies every name once. Sessions: recorded shard sessions are
  found again, single mode is enforced and the commit token is issued once, over all sequences of
  calls.

  \<^bold>\<open>Termination and bounds.\<close> All loops but two are total functions, by structural recursion or a
  measure (the lengths of the lists they consume), so no fuel is used. The loop over the session state
  of an OK packet can run for ever and is a partial function; that it returns is shown for packets
  without eight-byte lengths. The loop that doubles the bucket sizes of a buffer pool is the other; that it
  returns is shown for every positive minimum. Results about 64-bit quantities
  name the range in which they hold: interval ends below the largest \<open>int64\<close>, cache costs that
  leave room above the capacity, fewer than \<open>2^32 - 1\<close> identifiers in use, queue limits and
  concurrency within \<open>int64\<close>, for hot rows at least one concurrent transaction, and buffers that fit
  an \<open>int\<close> with their header. A lag threshold is compared exactly, which is the floating-point
  comparison for whole seconds.

  \<^bold>\<open>Not modelled.\<close> The SQL parser (generated) and the planner, engine and expression evaluator
  built on it (of the evaluator only the conversion of a value to a number is modelled); commands, result sets
  and prepared statements of the wire protocol, the handshake and TLS; lookup vindexes, which run
  queries, and those that hash text; protobuf messages (generated) except the fields used here; RPC, topology services,
  backups, online schema changes and replication streams, whose work is I/O against external
  systems; the redo log and the coordinator of two-phase commits, which run queries; command-line programs; collation tables. Of \<open>key.go\<close> the generator of shard ranges,
  which formats a fixed-width table, of the gateway the health check, the failover buffer and the
  status pages, of the queues the debug pages and log messages, and of \<open>safe_session.go\<close> the execution logger, which calls
  the SQL parser.
\<close>

section \<open>From an acknowledged write to the next read\<close>

text \<open>A Go string is its bytes; the text of a packet field.\<close>

definition bytes_text :: "byte list \<Rightarrow> string" where
  "bytes_text bs = map (\<lambda>b. char_of (unat b)) bs"

text \<open>The gateway logs the error of a GTID it cannot parse and goes on.\<close>

definition gw_AddGtid :: "gateway \<Rightarrow> string \<Rightarrow> gateway outcome" where
  "gw_AddGtid gw gtid = obind (AddGtid (lastSeenGtid gw) gtid) (\<lambda>(err, g). Ret (gw\<lparr>lastSeenGtid := g\<rparr>))"

text \<open>What the gate does with the session state a statement reports.\<close>

definition record_state_changes ::
  "string \<Rightarrow> 'bv safe_session \<Rightarrow> gateway \<Rightarrow> ('bv safe_session \<times> gateway) outcome" where
  "record_state_changes changes session gw =
     (if changes \<noteq> [] then
        let session = SetReadAfterWriteGTID changes session in
        obind (gw_AddGtid gw changes) (\<lambda>gw. Ret (session, gw))
      else Ret (session, gw))"

lemma bytes_text_char_byte: "bytes_text (map char_byte s) = s"
  by (induction s) (simp_all add: bytes_text_def char_byte_def unat_of_nat)

text \<open>The gateway adds a transaction it is told of, and the session remembers it.\<close>

lemma record_state_changes_adds:
  assumes "lsFlavor (lastSeenGtid gw) = Mysql56FlavorID" "lsSet (lastSeenGtid gw) = Some (Mysql56GTIDSet gs)"
    "length (Server g) = 16" "1 \<le> Sequence g" "Sequence g < maxInt64"
  shows "record_state_changes (m56gtid_String g) session gw =
    Ret (SetReadAfterWriteGTID (m56gtid_String g) session,
      gw\<lparr>lastSeenGtid := \<lparr>lsFlavor = Mysql56FlavorID, lsSet = Some (Mysql56GTIDSet (m56_AddGTID gs (Some (Mysql56GTID g))))\<rparr>\<rparr>)"
proof -
  have "ParseGTID Mysql56FlavorID (m56gtid_String g) = Inr (Mysql56GTID g)"
    using assms(3-5) by (simp add: ParseGTID_def parseMysql56GTID_String maxInt64_def)
  moreover have "m56gtid_String g \<noteq> []" by (simp add: m56gtid_String_def)
  ultimately show ?thesis using assms(1,2)
    by (cases "lastSeenGtid gw") (simp add: record_state_changes_def gw_AddGtid_def AddGtid_def gs_AddGTID_def Let_def)
qed

lemma position_with_tx56_reached:
  assumes "wf_gs q" "wf56 m" "m56_set m \<noteq> {}" "gs_set (Mysql56GTIDSet m) \<subseteq> gs_set q"
  shows "AtLeast (Some q) (Some (Mysql56GTIDSet m))"
proof -
  obtain sid n where "(sid, n) \<in> m56_set m" using assms(3) by auto
  then have "Tx56 sid n \<in> gs_set (Mysql56GTIDSet m)" unfolding gs_set_def by force
  then have "Tx56 sid n \<in> gs_set q" using assms(4) by blast
  then have "gs_Flavor q = gs_Flavor (Mysql56GTIDSet m)" by (cases q) (auto simp: gs_set_def gs_Flavor_def)
  then show ?thesis using gs_Contains_iff [of q "Mysql56GTIDSet m"] assms(1,2,4) by (simp add: AtLeast_def wf_gs_def)
qed

lemma read_of_recorded_write:
  assumes sorts: "sort_func sf" "sort_func sfs" "osort_func srt" "intn_ok intn"
    and tx: "length (Server g) = 16" "1 \<le> Sequence g" "Sequence g < maxInt64"
    and seen: "wf56 gs" "no_empty gs"
    and all: "all = insert (Tx56 (Server g) (Sequence g)) (gs_set (Mysql56GTIDSet gs))"
    and gw': "gw' = gw\<lparr>lastSeenGtid := \<lparr>lsFlavor = Mysql56FlavorID, lsSet = Some (Mysql56GTIDSet (m56_AddGTID gs (Some (Mysql56GTID g))))\<rparr>\<rparr>"
    and raw: "rawScope raw = raw_scope.INSTANCE"
    and tablets: "\<forall>t \<in> set available. healthy t \<and> wf_pos (thPosition t)"
      "\<exists>u \<in> set available. \<exists>q. thPosition u = Some q \<and> all \<subseteq> gs_set q"
  shows "\<exists>opts' timeout' t cleared k' q.
    setReadAfterWriteOpts sfs dflt execute gw' (Some raw) (Some opts) timeout target = Ret (None, Some opts', timeout', target) \<and>
    PickTablet sf srt intn k gw' available (Some opts') = Ret (Inr t, cleared, k') \<and> t \<in> set available \<and>
    thPosition t = Some q \<and> all \<subseteq> gs_set q"
proof -
  let ?m = "m56_AddGTID gs (Some (Mysql56GTID g))"
  note add = m56_AddGTID_correct [OF seen(1) tx]
  have set: "gs_set (Mysql56GTIDSet ?m) = all" using add(2) all by (simp add: gs_set_def)
  have pr: "printable_gs (Mysql56GTIDSet ?m)"
    using add(1) AddGTID_no_empty [OF seen tx] by (simp add: printable_gs_def proper_gs_def wf_gs_def)
  have ne: "gs_String sfs (Mysql56GTIDSet ?m) \<noteq> []"
    using m56_String_nonempty [OF sorts(2), of "Server g" "Sequence g" ?m] add(2) by (simp add: gs_String_def)
  have ls: "lsSet (lastSeenGtid gw') = Some (Mysql56GTIDSet ?m)" "lsFlavor (lastSeenGtid gw') = gs_Flavor (Mysql56GTIDSet ?m)"
    by (simp_all add: gw' gs_Flavor_def)
  obtain u q where u: "u \<in> set available" "thPosition u = Some q" "all \<subseteq> gs_set q" using tablets(2) by blast
  then have "wf_gs q" using tablets(1) by (auto simp: wf_pos_def)
  then have "AtLeast (thPosition u) (Some (Mysql56GTIDSet ?m))"
    using position_with_tx56_reached [OF _ add(1), of q] add(2) u(2,3) set by simp
  then have "\<exists>u \<in> set available. AtLeast (thPosition u) (Some (Mysql56GTIDSet ?m))" using u(1) by blast
  from instance_read_picks [OF sorts ls pr ne raw tablets(1) this, of dflt execute opts timeout target k]
  show ?thesis unfolding set by blast
qed

text \<open>
  C1. A client reads its own writes through the gateway. The server acknowledges a write with an OK
  packet that carries its transaction; the packet is read and parsed, and the gate records the
  reported state. A later read with instance consistency is then sent to a tablet that has the
  write and everything the gateway had seen before, if one that has all of it is available.
\<close>

theorem acknowledged_write_is_read:
  assumes sorts: "sort_func sf" "sort_func sfs" "osort_func srt" "intn_ok intn"
    and server: "policy s = ephemeralUnused" "write_limit s = Unlimited" "session_track s"
    and packet: "state_changed (statusFlags p)" "sessionStateData p = map char_byte (m56gtid_String g)"
      "int (length (info p)) + int (length (sessionStateData p)) + 100 \<le> maxInt64"
    and tx: "length (Server g) = 16" "1 \<le> Sequence g" "Sequence g < maxInt64"
    and seen: "lsFlavor (lastSeenGtid gw) = Mysql56FlavorID" "lsSet (lastSeenGtid gw) = Some (Mysql56GTIDSet gs)" "wf56 gs" "no_empty gs"
    and all: "all = insert (Tx56 (Server g) (Sequence g)) (gs_set (Mysql56GTIDSet gs))"
  shows "\<exists>s' bs. writeOKPacket old s p = Ret (s', None) \<and> outgoing s' = outgoing s @ bs \<and>
    (\<forall>r rest. incoming r = bs @ rest \<longrightarrow> seq r = seq s \<longrightarrow> session_track r \<longrightarrow>
      (\<exists>payload p' session' gw'.
        snd (readPacket r) = Inr payload \<and> parseOKPacket r payload = Some (Ret (Inr p')) \<and>
        record_state_changes (bytes_text (sessionStateData p')) session gw = Ret (session', gw') \<and>
        (\<forall>available raw opts. rawScope raw = raw_scope.INSTANCE \<longrightarrow> (\<forall>t \<in> set available. healthy t \<and> wf_pos (thPosition t)) \<longrightarrow>
          (\<exists>u \<in> set available. \<exists>q. thPosition u = Some q \<and> all \<subseteq> gs_set q) \<longrightarrow>
          (\<exists>opts' timeout' t cleared k' q.
            setReadAfterWriteOpts sfs dflt execute gw' (Some raw) (Some opts) timeout target = Ret (None, Some opts', timeout', target) \<and>
            PickTablet sf srt intn k gw' available (Some opts') = Ret (Inr t, cleared, k') \<and> t \<in> set available \<and>
            thPosition t = Some q \<and> all \<subseteq> gs_set q))))"
proof -
  let ?pl = "ok_payload s p OKPacket" and ?txt = "m56gtid_String g"
  let ?p = "\<lambda>r. p\<lparr>info := if enableQueryInfo r then info p else []\<rparr>"
  let ?m = "m56_AddGTID gs (Some (Mysql56GTID g))"
  let ?gw = "gw\<lparr>lastSeenGtid := \<lparr>lsFlavor = Mysql56FlavorID, lsSet = Some (Mysql56GTIDSet ?m)\<rparr>\<rparr>"
  have b: "int (length ?pl) + 4 \<le> maxInt64" using ok_payload_bound [of s p OKPacket] packet(3) by linarith
  then have b': "int (length ?pl) \<le> maxInt64" by simp
  obtain s' bs where w: "writeOKPacket old s p = Ret (s', None)" "outgoing s' = outgoing s @ bs"
    and r: "\<And>r rest. incoming r = bs @ rest \<Longrightarrow> seq r = seq s \<Longrightarrow> readPacket r = (r\<lparr>incoming := rest, seq := seq s'\<rparr>, Inr ?pl)"
    using sends_read [OF writeOKPacket_sends [OF server(1,2) b, of old]] unfolding writeOKPacket_def by metis
  have read: "snd (readPacket r) = Inr ?pl" "parseOKPacket r ?pl = Some (Ret (Inr (?p r)))"
    if "incoming r = bs @ rest" "seq r = seq s" "session_track r" for r rest
    using r [OF that(1,2)] parseOKPacket_payload [OF b' server(3) that(3)] packet(1) by simp_all
  have rec: "record_state_changes (bytes_text (sessionStateData (?p r))) session gw = Ret (SetReadAfterWriteGTID ?txt session, ?gw)" for r
    using record_state_changes_adds [OF seen(1,2) tx] by (simp add: packet(2) bytes_text_char_byte)
  note pick = read_of_recorded_write [OF sorts tx seen(3,4) all refl]
  show ?thesis
  proof (rule exI [of _ s'], rule exI [of _ bs], intro conjI w allI impI)
    fix r rest assume i: "incoming r = bs @ rest" "seq r = seq s" "session_track r"
    show "\<exists>payload p' session' gw'.
        snd (readPacket r) = Inr payload \<and> parseOKPacket r payload = Some (Ret (Inr p')) \<and>
        record_state_changes (bytes_text (sessionStateData p')) session gw = Ret (session', gw') \<and>
        (\<forall>available raw opts. rawScope raw = raw_scope.INSTANCE \<longrightarrow> (\<forall>t \<in> set available. healthy t \<and> wf_pos (thPosition t)) \<longrightarrow>
          (\<exists>u \<in> set available. \<exists>q. thPosition u = Some q \<and> all \<subseteq> gs_set q) \<longrightarrow>
          (\<exists>opts' timeout' t cleared k' q.
            setReadAfterWriteOpts sfs dflt execute gw' (Some raw) (Some opts) timeout target = Ret (None, Some opts', timeout', target) \<and>
            PickTablet sf srt intn k gw' available (Some opts') = Ret (Inr t, cleared, k') \<and> t \<in> set available \<and>
            thPosition t = Some q \<and> all \<subseteq> gs_set q))"
      by (rule exI [of _ ?pl], rule exI [of _ "?p r"], rule exI [of _ "SetReadAfterWriteGTID ?txt session"], rule exI [of _ ?gw])
        (intro conjI allI impI read [OF i] rec pick)
  qed
qed

definition sample_write :: mysql56_gtid where
  "sample_write = \<lparr>Server = replicate 16 1, Sequence = 4\<rparr>"

definition sample_ack :: PacketOK where
  "sample_ack = \<lparr>affectedRows = 1, lastInsertID = 0, statusFlags = 0x4002, warnings = 0, info = [],
     sessionStateData = map char_byte (m56gtid_String sample_write)\<rparr>"

definition sample_caught_up :: "unit tablet_health list" where
  "sample_caught_up = [sample_tablet ''a'' 1 (Some (Mysql56GTIDSet (Some sampleA))),
     sample_tablet ''a'' 2 (Some (Mysql56GTIDSet (m56_AddGTID (Some sampleA) (Some (Mysql56GTID sample_write)))))]"

theorem acknowledged_write_is_read_witness:
  "\<exists>s' payload p' session' gw' opts' timeout' t cleared k' q.
     writeOKPacket [] (conn0\<lparr>Capabilities := 0x800000\<rparr>) sample_ack = Ret (s', None) \<and>
     snd (readPacket (conn0\<lparr>Capabilities := 0x800000, incoming := outgoing s'\<rparr>)) = Inr payload \<and>
     parseOKPacket (conn0\<lparr>Capabilities := 0x800000, incoming := outgoing s'\<rparr>) payload = Some (Ret (Inr p')) \<and>
     record_state_changes (bytes_text (sessionStateData p')) sample_session sample_seen = Ret (session', gw') \<and>
     setReadAfterWriteOpts insertion_sort 30 (\<lambda>_. Inr []) gw' (Some \<lparr>rawScope = raw_scope.INSTANCE, rawPosition = [], rawTimeoutSecs = 0\<rparr>)
       (Some sample_options) 0 replica_target = Ret (None, Some opts', timeout', replica_target) \<and>
     PickTablet insertion_sort oisort (\<lambda>k n. 0) 0 gw' sample_caught_up (Some opts') = Ret (Inr t, cleared, k') \<and>
     thPosition t = Some q \<and> Tx56 (replicate 16 1) 4 \<in> gs_set q"
proof -
  let ?s = "conn0\<lparr>Capabilities := 0x800000\<rparr>" and ?raw = "\<lparr>rawScope = raw_scope.INSTANCE, rawPosition = [], rawTimeoutSecs = 0\<rparr>"
  let ?all = "insert (Tx56 (Server sample_write) (Sequence sample_write)) (gs_set (Mysql56GTIDSet (Some sampleA)))"
  let ?m = "m56_AddGTID (Some sampleA) (Some (Mysql56GTID sample_write))"
  have server: "policy ?s = ephemeralUnused" "write_limit ?s = Unlimited" "session_track ?s"
    by (simp_all add: conn0_def session_track_def CapabilityClientSessionTrack_def)
  have tx: "length (Server sample_write) = 16" "1 \<le> Sequence sample_write" "Sequence sample_write < maxInt64"
    by (simp_all add: sample_write_def maxInt64_def)
  have len: "length (FormatInt 4) = 1" by code_simp
  have packet: "state_changed (statusFlags sample_ack)" "sessionStateData sample_ack = map char_byte (m56gtid_String sample_write)"
    "int (length (info sample_ack)) + int (length (sessionStateData sample_ack)) + 100 \<le> maxInt64"
    using len by (simp_all add: sample_ack_def state_changed_def ServerSessionStateChanged_def m56gtid_String_def sample_write_def sid_String_length maxInt64_def)
  have seen: "lsFlavor (lastSeenGtid sample_seen) = Mysql56FlavorID" "lsSet (lastSeenGtid sample_seen) = Some (Mysql56GTIDSet (Some sampleA))"
    by (simp_all add: sample_seen_def)
  note add = m56_AddGTID_correct [OF samples_wf(1) tx]
  have m: "gs_set (Mysql56GTIDSet ?m) = ?all" using add(2) by (simp add: gs_set_def)
  have pos: "thPosition (sample_tablet c n p) = p" for c n p by (simp add: sample_tablet_def)
  have tablets: "\<forall>t \<in> set sample_caught_up. healthy t \<and> wf_pos (thPosition t)"
    "\<exists>u \<in> set sample_caught_up. \<exists>q. thPosition u = Some q \<and> ?all \<subseteq> gs_set q"
    using samples_wf(1) add(1) m by (simp_all add: sample_caught_up_def sample_tablet_simps pos wf_pos_def wf_gs_def subset_insertI)
  obtain s' bs where w: "writeOKPacket [] ?s sample_ack = Ret (s', None)" "outgoing s' = outgoing ?s @ bs"
    and r: "\<forall>r rest. incoming r = bs @ rest \<longrightarrow> seq r = seq ?s \<longrightarrow> session_track r \<longrightarrow>
      (\<exists>payload p' session' gw'.
        snd (readPacket r) = Inr payload \<and> parseOKPacket r payload = Some (Ret (Inr p')) \<and>
        record_state_changes (bytes_text (sessionStateData p')) sample_session sample_seen = Ret (session', gw') \<and>
        (\<forall>available raw opts. rawScope raw = raw_scope.INSTANCE \<longrightarrow> (\<forall>t \<in> set available. healthy t \<and> wf_pos (thPosition t)) \<longrightarrow>
          (\<exists>u \<in> set available. \<exists>q. thPosition u = Some q \<and> ?all \<subseteq> gs_set q) \<longrightarrow>
          (\<exists>opts' timeout' (t :: unit tablet_health) cleared k' q.
            setReadAfterWriteOpts insertion_sort 30 (\<lambda>_. Inr []) gw' (Some raw) (Some opts) 0 replica_target =
              Ret (None, Some opts', timeout', replica_target) \<and>
            PickTablet insertion_sort oisort (\<lambda>k n. 0) 0 gw' available (Some opts') = Ret (Inr t, cleared, k') \<and> t \<in> set available \<and>
            thPosition t = Some q \<and> ?all \<subseteq> gs_set q)))"
    using acknowledged_write_is_read [OF sort_func_insertion_sort sort_func_insertion_sort osort_func_oisort intn_ok_zero
        server packet tx seen samples_wf(1,3) refl, of "[]" sample_session 30 "\<lambda>_. Inr []" 0 "replica_target" 0]
    by (elim exE conjE)
  let ?r = "conn0\<lparr>Capabilities := 0x800000, incoming := outgoing s'\<rparr>"
  have "incoming ?r = bs @ []" "seq ?r = seq ?s" "session_track ?r"
    using w(2) server(3) by (simp_all add: session_track_def conn0_def)
  from r [rule_format, OF this] obtain payload p' session' gw' where
    p: "snd (readPacket ?r) = Inr payload" "parseOKPacket ?r payload = Some (Ret (Inr p'))"
      "record_state_changes (bytes_text (sessionStateData p')) sample_session sample_seen = Ret (session', gw')"
    and k: "\<forall>available raw opts. rawScope raw = raw_scope.INSTANCE \<longrightarrow> (\<forall>t \<in> set available. healthy t \<and> wf_pos (thPosition t)) \<longrightarrow>
          (\<exists>u \<in> set available. \<exists>q. thPosition u = Some q \<and> ?all \<subseteq> gs_set q) \<longrightarrow>
          (\<exists>opts' timeout' (t :: unit tablet_health) cleared k' q.
            setReadAfterWriteOpts insertion_sort 30 (\<lambda>_. Inr []) gw' (Some raw) (Some opts) 0 replica_target =
              Ret (None, Some opts', timeout', replica_target) \<and>
            PickTablet insertion_sort oisort (\<lambda>k n. 0) 0 gw' available (Some opts') = Ret (Inr t, cleared, k') \<and> t \<in> set available \<and>
            thPosition t = Some q \<and> ?all \<subseteq> gs_set q)"
    by (elim exE conjE)
  have "rawScope ?raw = raw_scope.INSTANCE" by simp
  from k [THEN spec [of _ sample_caught_up], THEN spec [of _ ?raw], THEN spec [of _ sample_options], THEN mp, OF this, THEN mp, OF tablets(1), THEN mp, OF tablets(2)]
  obtain opts' timeout' t cleared k' q where
    t: "setReadAfterWriteOpts insertion_sort 30 (\<lambda>_. Inr []) gw' (Some ?raw) (Some sample_options) 0 replica_target =
          Ret (None, Some opts', timeout', replica_target)"
      "PickTablet insertion_sort oisort (\<lambda>k n. 0) 0 gw' sample_caught_up (Some opts') = Ret (Inr t, cleared, k')"
      "thPosition t = Some q" "?all \<subseteq> gs_set q"
    by (elim exE conjE)
  have "Tx56 (replicate 16 1) 4 \<in> gs_set q" using t(4) by (simp add: sample_write_def)
  with w(1) p t(1-3) show ?thesis by blast
qed

end
